(* ===== verification/Prelude.thy ===== *)
theory Prelude
  imports Complex_Main "HOL-Library.Finite_Map"
begin

text \<open>
  Shared material: the collections of rewrite rules, Go's 64-bit \<^verbatim>\<open>int\<close> with its wrap-around
  and truncating division, and facts on finite maps and lists that the component theories use.
  A Go map is a finite map (\<^typ>\<open>('k, 'v) fmap\<close>), which has no iteration order; a
  \<^verbatim>\<open>range\<close> loop whose result depends on the order takes the order as an argument.
\<close>

named_theorems f64_eval "rewrite rules that evaluate binary64 terms over numerals"
named_theorems go_eval "definitions to unfold in order to run the model on a concrete input"

section \<open>Go's 64-bit integers\<close>

text \<open>
  \<^verbatim>\<open>int\<close> and \<^verbatim>\<open>int64\<close> are integers in \<open>[-2^63, 2^63)\<close>; every sum, difference and product of the
  source is reduced into that range by \<open>wrap64\<close>.
\<close>

definition int64 :: "int \<Rightarrow> bool" where
  "int64 x \<longleftrightarrow> - (2 ^ 63) \<le> x \<and> x < 2 ^ 63"

definition wrap64 :: "int \<Rightarrow> int" where
  "wrap64 x = (x + 2 ^ 63) mod 2 ^ 64 - 2 ^ 63"

text \<open>Division of Go integers rounds towards zero, and the remainder has the dividend's sign.\<close>

definition go_div :: "int \<Rightarrow> int \<Rightarrow> int" where
  "go_div a b = sgn a * sgn b * (\<bar>a\<bar> div \<bar>b\<bar>)"

definition go_mod :: "int \<Rightarrow> int \<Rightarrow> int" where
  "go_mod a b = a - b * go_div a b"

lemma int64I: "- (2 ^ 63) \<le> x \<Longrightarrow> x < 2 ^ 63 \<Longrightarrow> int64 x"
  by (simp add: int64_def)

lemma wrap64_int64 [simp]: "int64 (wrap64 x)"
  by (simp add: wrap64_def int64_def)

lemma wrap64_id: "int64 x \<Longrightarrow> wrap64 x = x"
  by (simp add: wrap64_def int64_def)

lemma wrap64_wrap64 [simp]: "wrap64 (wrap64 x) = wrap64 x"
  by (simp add: wrap64_id)

lemma wrap64_eq_iff: "wrap64 x = wrap64 y \<longleftrightarrow> x mod 2 ^ 64 = y mod 2 ^ 64"
proof
  assume "wrap64 x = wrap64 y"
  then have "(x + 2 ^ 63) mod 2 ^ 64 = (y + 2 ^ 63) mod 2 ^ 64"
    by (simp add: wrap64_def)
  then have "(x + 2 ^ 63 - 2 ^ 63) mod 2 ^ 64 = (y + 2 ^ 63 - 2 ^ 63) mod 2 ^ 64"
    by (rule mod_diff_cong) simp
  then show "x mod 2 ^ 64 = y mod 2 ^ 64" by simp
next
  assume "x mod 2 ^ 64 = y mod 2 ^ 64"
  then have "(x + 2 ^ 63) mod 2 ^ 64 = (y + 2 ^ 63) mod 2 ^ 64"
    by (rule mod_add_cong) simp
  then show "wrap64 x = wrap64 y" by (simp add: wrap64_def)
qed

lemma wrap64_mod: "wrap64 x mod 2 ^ 64 = x mod 2 ^ 64"
  using wrap64_eq_iff [of "wrap64 x" x] by simp

lemma wrap64_add_left [simp]: "wrap64 (wrap64 x + y) = wrap64 (x + y)"
  unfolding wrap64_eq_iff by (rule mod_add_cong [OF wrap64_mod refl])

lemma wrap64_add_right [simp]: "wrap64 (x + wrap64 y) = wrap64 (x + y)"
  unfolding wrap64_eq_iff by (rule mod_add_cong [OF refl wrap64_mod])

lemma wrap64_diff_left [simp]: "wrap64 (wrap64 x - y) = wrap64 (x - y)"
  unfolding wrap64_eq_iff by (rule mod_diff_cong [OF wrap64_mod refl])

lemma wrap64_diff_right [simp]: "wrap64 (x - wrap64 y) = wrap64 (x - y)"
  unfolding wrap64_eq_iff by (rule mod_diff_cong [OF refl wrap64_mod])

lemma wrap64_eval [go_eval]:
  "wrap64 0 = 0" "wrap64 1 = 1" "wrap64 (- 1) = - 1"
  "wrap64 (numeral k) = (numeral k + 2 ^ 63) mod 2 ^ 64 - 2 ^ 63"
  "wrap64 (- numeral k) = (- numeral k + 2 ^ 63) mod 2 ^ 64 - 2 ^ 63"
  by (simp_all add: wrap64_def)

declare go_div_def [go_eval] go_mod_def [go_eval]

lemma go_div_pos: "0 \<le> a \<Longrightarrow> 0 < b \<Longrightarrow> go_div a b = a div b"
  by (cases "a = 0") (auto simp: go_div_def)

lemma go_div_bounds: "0 \<le> a \<Longrightarrow> 0 < b \<Longrightarrow> 0 \<le> go_div a b \<and> go_div a b * b \<le> a \<and> a < (go_div a b + 1) * b"
proof -
  assume a: "0 \<le> a" "0 < b"
  have "b * (a div b) + a mod b = a" "0 \<le> a mod b" "a mod b < b"
    using a by simp_all
  moreover have "0 \<le> a div b" using a by (simp add: pos_imp_zdiv_nonneg_iff)
  ultimately show ?thesis
    using a unfolding go_div_pos [OF a] distrib_right mult.commute [of "a div b"] by linarith
qed

section \<open>Finite maps\<close>

text \<open>\<^verbatim>\<open>len(m)\<close>, and the value of \<^verbatim>\<open>m[k]\<close> for a string-valued map, where a missing key reads as the
  empty string.\<close>

definition gm_len :: "('k, 'v) fmap \<Rightarrow> nat" where
  "gm_len m = fcard (fmdom m)"

definition gm_str :: "(string, string) fmap \<Rightarrow> string \<Rightarrow> string" where
  "gm_str m k = (case fmlookup m k of None \<Rightarrow> '''' | Some v \<Rightarrow> v)"

text \<open>A \<^verbatim>\<open>range\<close> over a map visits every key once, in an order Go does not specify.\<close>

definition range_order :: "'k list \<Rightarrow> ('k, 'v) fmap \<Rightarrow> bool" where
  "range_order ks m \<longleftrightarrow> distinct ks \<and> fset_of_list ks = fmdom m"

lemma gm_len_0 [simp]: "gm_len m = 0 \<longleftrightarrow> m = fmempty"
  by (metis fcard_0_eq fempty_iff fmap_ext fmdom_empty fmdom_notD gm_len_def)

lemma gm_len_empty [simp]: "gm_len fmempty = 0"
  by simp

lemma gm_len_upd: "fmlookup m k = None \<Longrightarrow> gm_len (fmupd k v m) = Suc (gm_len m)"
  by (simp add: gm_len_def fcard_finsert_if fmlookup_dom_iff)

lemma gm_len_upd_old: "fmlookup m k = Some w \<Longrightarrow> gm_len (fmupd k v m) = gm_len m"
  by (simp add: gm_len_def fcard_finsert_if fmlookup_dom_iff)

lemma fmupd_not_empty [simp]: "fmupd k v m \<noteq> fmempty" "fmempty \<noteq> fmupd k v m"
  by (metis fmempty_lookup fmupd_lookup option.distinct(1))+

lemma fmdrop_lookup_if: "fmlookup (fmdrop a m) b = (if a = b then None else fmlookup m b)"
  by (cases "a = b") auto

lemma fmdrop_upd_fresh: "fmlookup m k = None \<Longrightarrow> fmdrop k (fmupd k v m) = m"
  by (auto simp: fmdrop_fmupd fmdrop_idle fmlookup_dom_iff)

lemma fmdrop_eq_empty: "fmdrop k m = fmempty \<Longrightarrow> fmlookup m k = Some v \<Longrightarrow> m = fmupd k v fmempty"
  by (rule fmap_ext) (metis fmdrop_lookup_if fmempty_lookup fmupd_lookup)

lemma range_order_mem: "range_order ks m \<Longrightarrow> k \<in> set ks \<longleftrightarrow> (\<exists>v. fmlookup m k = Some v)"
  by (metis fmlookup_dom_iff fset_of_list_elem range_order_def)

section \<open>Lists\<close>

lemma sum_list_update_int:
  "i < length xs \<Longrightarrow> sum_list (map f (xs[i := y])) = sum_list (map f xs) - f (xs ! i) + (f y :: int)"
  by (induction xs arbitrary: i) (auto split: nat.split)

lemma sum_list_drop_nth:
  "i < length xs \<Longrightarrow>
    sum_list (map f (take i xs @ drop (Suc i) xs)) = sum_list (map f xs) - (f (xs ! i) :: int)"
  using arg_cong [OF id_take_nth_drop [of i xs], of "\<lambda>ys. sum_list (map f ys)"] by simp

lemma nth_drop_nth:
  "i < length xs \<Longrightarrow> j < length xs - 1 \<Longrightarrow>
    (take i xs @ drop (Suc i) xs) ! j = (if j < i then xs ! j else xs ! Suc j)"
  by (auto simp: nth_append min_def)

lemma length_drop_nth [simp]:
  "i < length xs \<Longrightarrow> length (take i xs @ drop (Suc i) xs) = length xs - 1"
  by (simp add: min_def)

end
