(* ===== verification/Float64.thy ===== *)
theory Float64
  imports Prelude
begin

text \<open>
  Go's \<^verbatim>\<open>float64\<close>: IEEE 754 binary64 with round-to-nearest, ties to even, executable.
  A finite value is the rational number it stands for; negative zero, the infinities and NaN
  are values of their own. \<open>fl\<close> rounds a rational to the nearest number with a 53-bit
  mantissa, \<open>round64\<close> adds overflow and the sign of zero, and every operation rounds the
  exact result once, as the hardware does. The lemmas give what the proofs about the program
  use of rounding: it is monotone, idempotent, odd, exact on small dyadic numbers and off by at
  most half a unit in the last place. The conversions and the functions of \<^verbatim>\<open>math\<close> that the
  source calls follow.
\<close>

section \<open>Rounding a rational number to 53 bits\<close>

text \<open>\<open>bits n\<close> is the length of \<open>n\<close> in binary; \<open>ilog2 r\<close> is the exponent of the binade of \<open>r > 0\<close>;
  \<open>rne\<close> rounds to the nearest integer, ties to even; \<open>ulp_exp r\<close> is the exponent of the unit in the
  last place at \<open>r\<close>, never below that of the subnormal numbers.\<close>

fun bits :: "nat \<Rightarrow> nat" where
  "bits n = (if n = 0 then 0 else Suc (bits (n div 2)))"

declare bits.simps [simp del]

definition ilog2 :: "rat \<Rightarrow> int" where
  "ilog2 r = (case quotient_of r of (n, d) \<Rightarrow>
     let k = int (bits (nat n)) - int (bits (nat d))
     in if 2 powi k \<le> r then k else k - 1)"

definition rne :: "rat \<Rightarrow> int" where
  "rne r = (let f = \<lfloor>r\<rfloor>; d = r - of_int f in
     if d < 1 / 2 then f else if 1 / 2 < d then f + 1 else if even f then f else f + 1)"

definition ulp_exp :: "rat \<Rightarrow> int" where
  "ulp_exp r = max (-1074) (ilog2 \<bar>r\<bar> - 52)"

definition fl :: "rat \<Rightarrow> rat" where
  "fl r = (if r = 0 then 0 else
     of_int (rne (r / 2 powi ulp_exp r)) * 2 powi ulp_exp r)"

subsection \<open>Binades\<close>

lemma bits_bounds: "n > 0 \<Longrightarrow> 2 ^ (bits n - 1) \<le> n \<and> n < 2 ^ bits n \<and> bits n > 0"
proof (induction n rule: bits.induct)
  case (1 n)
  show ?case
  proof (cases "n = 1")
    case True
    have "bits 1 = 1" by (subst bits.simps) (simp add: bits.simps[of 0])
    then show ?thesis using True by simp
  next
    case False
    with 1 have IH: "2 ^ (bits (n div 2) - 1) \<le> n div 2 \<and> n div 2 < 2 ^ bits (n div 2) \<and> 0 < bits (n div 2)"
      by auto
    have b: "bits n = Suc (bits (n div 2))" using 1 by (simp add: bits.simps[of n])
    obtain m where m: "bits (n div 2) = Suc m" using IH by (cases "bits (n div 2)") auto
    show ?thesis using IH b m by auto
  qed
qed

lemma powi2_pos [simp]: "0 < (2::rat) powi k"
  by (simp add: zero_less_power_int)

lemma powi2_le [simp]: "(2::rat) powi a \<le> 2 powi b \<longleftrightarrow> a \<le> b"
  by (metis less_le_not_le linorder_not_le power_int_increasing power_int_strict_increasing one_le_numeral one_less_numeral_iff semiring_norm(76))

lemma powi2_less [simp]: "(2::rat) powi a < 2 powi b \<longleftrightarrow> a < b"
  by (meson linorder_not_le powi2_le)

lemma powi2_add: "(2::rat) powi (a + b) = 2 powi a * 2 powi b"
  by (simp add: power_int_add)

lemma powi2_diff: "(2::rat) powi (a - b) = 2 powi a / 2 powi b"
  by (simp add: power_int_diff)

lemma powi2_nat: "0 \<le> k \<Longrightarrow> (2::rat) powi k = of_int (2 ^ nat k)"
  by (simp add: power_int_def)

lemma powi2_pred: "0 < n \<Longrightarrow> (2::rat) ^ (n - 1) = 2 powi (int n - 1)"
  by (cases n) simp_all

lemma ilog2_bounds:
  assumes "0 < r" shows "2 powi (ilog2 r) \<le> r \<and> r < 2 powi (ilog2 r + 1)"
proof -
  obtain n d where q: "quotient_of r = (n, d)" by force
  have d: "d > 0" using quotient_of_denom_pos[OF q] .
  have r: "r = of_int n / of_int d" using quotient_of_div[OF q] .
  with assms d have n: "n > 0" by (simp add: zero_less_divide_iff)
  let ?a = "bits (nat n)" and ?b = "bits (nat d)"
  have A: "2 ^ (?a - 1) \<le> nat n" "nat n < 2 ^ ?a" "?a > 0" using bits_bounds[of "nat n"] n by auto
  have B: "2 ^ (?b - 1) \<le> nat d" "nat d < 2 ^ ?b" "?b > 0" using bits_bounds[of "nat d"] d by auto
  have nn: "(of_int n :: rat) = of_nat (nat n)" and dd: "(of_int d :: rat) = of_nat (nat d)" using n d by simp_all
  have A1: "(2::rat) ^ (?a - 1) \<le> of_int n" unfolding nn using A(1) by (metis of_nat_le_iff of_nat_numeral of_nat_power)
  have A2: "of_int n < (2::rat) ^ ?a" unfolding nn using A(2) by (metis of_nat_less_iff of_nat_numeral of_nat_power)
  have B1: "(2::rat) ^ (?b - 1) \<le> of_int d" unfolding dd using B(1) by (metis of_nat_le_iff of_nat_numeral of_nat_power)
  have B2: "of_int d < (2::rat) ^ ?b" unfolding dd using B(2) by (metis of_nat_less_iff of_nat_numeral of_nat_power)
  have pa: "(2::rat) ^ ?a = 2 powi int ?a" "(2::rat) ^ ?b = 2 powi int ?b" by simp_all
  have pa1: "(2::rat) ^ (?a - 1) = 2 powi (int ?a - 1)" "(2::rat) ^ (?b - 1) = 2 powi (int ?b - 1)"
    by (rule powi2_pred [OF A(3)], rule powi2_pred [OF B(3)])
  let ?k = "int ?a - int ?b"
  have up: "r < 2 powi (?k + 1)"
  proof -
    have "r < 2 powi int ?a / of_int d"
      unfolding r pa(1) [symmetric] by (rule divide_strict_right_mono [OF A2]) (simp add: d)
    also have "\<dots> \<le> 2 powi int ?a / 2 powi (int ?b - 1)"
      unfolding pa1(2) [symmetric] by (intro divide_left_mono B1) (simp_all add: d)
    also have "\<dots> = 2 powi (?k + 1)" by (simp only: powi2_diff [symmetric]) (simp add: algebra_simps)
    finally show ?thesis .
  qed
  have lo: "2 powi (?k - 1) \<le> r"
  proof -
    have "(2::rat) powi (?k - 1) = 2 powi (int ?a - 1) / 2 powi int ?b"
      by (simp only: powi2_diff [symmetric]) (simp add: algebra_simps)
    also have "\<dots> \<le> 2 powi (int ?a - 1) / of_int d"
      unfolding pa(2) [symmetric] by (intro divide_left_mono less_imp_le [OF B2]) (simp_all add: d)
    also have "\<dots> \<le> r"
      unfolding r pa1(1) [symmetric] by (rule divide_right_mono [OF A1]) (use d in simp)
    finally show ?thesis .
  qed
  have il: "ilog2 r = (if 2 powi ?k \<le> r then ?k else ?k - 1)" by (simp add: ilog2_def q Let_def)
  then show ?thesis using up lo by auto
qed

lemma ilog2_eqI:
  assumes "2 powi k \<le> r" "r < 2 powi (k + 1)" shows "ilog2 r = k"
proof -
  have "0 < r" using assms(1) powi2_pos less_le_trans by blast
  from ilog2_bounds[OF this] assms have "2 powi k < (2::rat) powi (ilog2 r + 1)" "(2::rat) powi (ilog2 r) < 2 powi (k + 1)"
    by linarith+
  then show ?thesis by simp
qed

lemma ilog2_mono: "0 < r \<Longrightarrow> r \<le> s \<Longrightarrow> ilog2 r \<le> ilog2 s"
proof -
  assume "0 < r" "r \<le> s"
  with ilog2_bounds[of r] ilog2_bounds[of s] have "2 powi (ilog2 r) < (2::rat) powi (ilog2 s + 1)"
    by linarith
  then show ?thesis by simp
qed

subsection \<open>Rounding to an integer\<close>

lemma rne_of_int [simp]: "rne (of_int n) = n"
  by (simp add: rne_def)

lemma rne_mono: assumes "r \<le> s" shows "rne r \<le> rne s"
proof -
  have f: "\<lfloor>r\<rfloor> \<le> \<lfloor>s\<rfloor>" using assms by (rule floor_mono)
  show ?thesis
  proof (cases "\<lfloor>r\<rfloor> = \<lfloor>s\<rfloor>")
    case True
    then show ?thesis using assms by (auto simp: rne_def Let_def)
  next
    case False
    then have "\<lfloor>r\<rfloor> + 1 \<le> \<lfloor>s\<rfloor>" using f by simp
    moreover have "rne r \<le> \<lfloor>r\<rfloor> + 1" "\<lfloor>s\<rfloor> \<le> rne s" by (auto simp: rne_def Let_def)
    ultimately show ?thesis by linarith
  qed
qed

lemma rne_err: "\<bar>of_int (rne r) - r\<bar> \<le> 1 / 2"
  unfolding rne_def Let_def
  using of_int_floor_le[of r] floor_correct[of r]
  by (auto split: if_splits simp: abs_le_iff; linarith)

lemma rne_eqI: "\<bar>of_int m - r\<bar> < 1 / 2 \<Longrightarrow> rne r = m"
proof -
  assume a: "\<bar>of_int m - r\<bar> < 1 / 2"
  have "\<bar>(of_int (rne r) - r) - (of_int m - r)\<bar> < 1"
    using rne_err[of r] a abs_triangle_ineq4[of "of_int (rne r) - r" "of_int m - r"] by linarith
  then have "\<bar>of_int (rne r - m)\<bar> < (1::rat)" by simp
  then show ?thesis by linarith
qed

lemma rne_minus [simp]: "rne (- r) = - rne r"
proof (cases "r - of_int \<lfloor>r\<rfloor> = 1 / 2")
  case True
  then have r: "r = of_int \<lfloor>r\<rfloor> + 1 / 2" by linarith
  have fm: "\<lfloor>- r\<rfloor> = - \<lfloor>r\<rfloor> - 1" by (rule floor_unique) (use r in \<open>simp_all\<close>; linarith)+
  have dm: "- r - of_int \<lfloor>- r\<rfloor> = 1 / 2" unfolding fm using r by simp
  show ?thesis unfolding rne_def Let_def dm True using fm by auto
next
  case False
  have "\<bar>of_int (rne r) - r\<bar> < 1 / 2"
    using False of_int_floor_le[of r] floor_correct[of r] unfolding rne_def Let_def
    by (auto split: if_splits simp: abs_less_iff; linarith)
  then have "\<bar>of_int (- rne r) - (- r)\<bar> < 1 / 2" by (simp add: abs_minus_commute)
  then show ?thesis by (rule rne_eqI)
qed

subsection \<open>Rounding to a mantissa\<close>

lemma ulp_exp_minus [simp]: "ulp_exp (- r) = ulp_exp r"
  by (simp add: ulp_exp_def)

lemma fl_0 [simp]: "fl 0 = 0" by (simp add: fl_def)

lemma fl_minus [simp]: "fl (- r) = - fl r"
  by (simp add: fl_def)

lemma fl_scaled: "r \<noteq> 0 \<Longrightarrow> fl r = of_int (rne (r / 2 powi ulp_exp r)) * 2 powi ulp_exp r"
  by (simp add: fl_def)

lemma ulp_exp_ge: "-1074 \<le> ulp_exp r" "ilog2 \<bar>r\<bar> - 52 \<le> ulp_exp r"
  by (simp_all add: ulp_exp_def)

text \<open>A dyadic number with a 53-bit mantissa is its own rounding.\<close>

lemma fl_dyadic:
  assumes m: "\<bar>m\<bar> \<le> 2 ^ 53" and e: "-1074 \<le> e"
  shows "fl (of_int m * 2 powi e) = of_int m * 2 powi e" (is "fl ?x = ?x")
proof (cases "m = 0")
  case True then show ?thesis by simp
next
  case False
  then have x0: "?x \<noteq> 0" by simp
  let ?k = "ilog2 \<bar>?x\<bar>" and ?E = "ulp_exp ?x"
  have k: "2 powi ?k \<le> \<bar>?x\<bar>" using ilog2_bounds[of "\<bar>?x\<bar>"] x0 by simp
  have "\<bar>of_int m\<bar> \<le> (2::rat) ^ 53" using m by (metis of_int_abs of_int_le_iff of_int_numeral of_int_power)
  then have ub: "\<bar>?x\<bar> \<le> 2 powi (53 + e)" by (simp add: abs_mult powi2_add)
  have "\<exists>j. ?x / 2 powi ?E = of_int j"
  proof (cases "?k = 53 + e")
    case True
    with k ub have eq: "\<bar>?x\<bar> = 2 powi (53 + e)" by simp
    have E: "?E = e + 1" using True e by (simp add: ulp_exp_def)
    have "\<bar>?x\<bar> / 2 powi ?E = 2 powi 52" unfolding eq E by (simp flip: powi2_diff)
    then have a: "\<bar>?x\<bar> / 2 powi ?E = of_int (2 ^ 52)" by simp
    show ?thesis
    proof (cases "0 \<le> ?x")
      case True then show ?thesis using a by (metis abs_of_nonneg)
    next
      case False
      then have "?x / 2 powi ?E = of_int (- (2 ^ 52))" using a by (simp add: abs_if split: if_splits)
      then show ?thesis by blast
    qed
  next
    case False
    have "2 powi ?k \<le> (2::rat) powi (53 + e)" using k ub by linarith
    with False have "?k \<le> 52 + e" by simp
    then have E: "?E \<le> e" using e by (simp add: ulp_exp_def)
    have "?x / 2 powi ?E = of_int m * 2 powi (e - ?E)" by (simp add: powi2_diff)
    also have "\<dots> = of_int (m * 2 ^ nat (e - ?E))" using E by (simp add: powi2_nat)
    finally show ?thesis by blast
  qed
  then obtain j where j: "?x / 2 powi ?E = of_int j" by blast
  then have "?x = of_int j * 2 powi ?E" by (simp add: divide_eq_eq)
  then show ?thesis using x0 j by (simp add: fl_scaled)
qed

text \<open>Every rounded value has this shape.\<close>

lemma fl_form: "\<exists>m e. \<bar>m\<bar> \<le> 2 ^ 53 \<and> -1074 \<le> e \<and> fl r = of_int m * 2 powi e"
proof (cases "r = 0")
  case True
  then have "\<bar>0::int\<bar> \<le> 2 ^ 53 \<and> -1074 \<le> (0::int) \<and> fl r = of_int 0 * 2 powi 0" by simp
  then show ?thesis by blast
next
  case False
  let ?E = "ulp_exp r"
  have "\<bar>r\<bar> < 2 powi (ilog2 \<bar>r\<bar> + 1)" using ilog2_bounds[of "\<bar>r\<bar>"] False by simp
  also have "\<dots> \<le> 2 powi (53 + ?E)" using ulp_exp_ge(2)[of r] by simp
  finally have "\<bar>r / 2 powi ?E\<bar> \<le> of_int (2 ^ 53)" by (simp add: field_simps powi2_add)
  then have "r / 2 powi ?E \<le> of_int (2 ^ 53)" "of_int (- (2 ^ 53)) \<le> r / 2 powi ?E"
    unfolding abs_le_iff of_int_minus by linarith+
  then have "rne (r / 2 powi ?E) \<le> 2 ^ 53" "- (2 ^ 53) \<le> rne (r / 2 powi ?E)"
    using rne_mono rne_of_int by metis+
  then have "\<bar>rne (r / 2 powi ?E)\<bar> \<le> 2 ^ 53" by linarith
  then show ?thesis using False ulp_exp_ge(1) fl_scaled by blast
qed

lemma fl_idem [simp]: "fl (fl r) = fl r"
  using fl_form[of r] fl_dyadic by metis

lemma fl_mono_pos:
  assumes "0 < r" "r \<le> s" shows "fl r \<le> fl s"
proof -
  have s0: "0 < s" using assms by simp
  let ?k = "ilog2 r" and ?l = "ilog2 s" and ?e = "ulp_exp r" and ?f = "ulp_exp s"
  have kl: "?k \<le> ?l" using assms ilog2_mono by simp
  have ef: "?e \<le> ?f" using kl assms s0 by (simp add: ulp_exp_def)
  show ?thesis
  proof (cases "?e = ?f")
    case True
    have "r / 2 powi ?f \<le> s / 2 powi ?f" using assms by (simp add: divide_right_mono)
    then show ?thesis using True assms s0 rne_mono by (simp add: fl_scaled)
  next
    case False
    then have f: "?f = ?l - 52" "?k < ?l" "?e < ?f" "?e \<ge> -1074" using ef assms s0 by (auto simp: ulp_exp_def)
    have "r < 2 powi (?k + 1)" using ilog2_bounds assms by simp
    also have "\<dots> \<le> 2 powi ?l" using f by simp
    finally have rl: "r \<le> 2 powi ?l" by simp
    have i1: "(2::rat) powi ?l / 2 powi ?e = of_int (2 ^ nat (?l - ?e))" using f by (simp add: powi2_nat flip: powi2_diff)
    have "r / 2 powi ?e \<le> of_int (2 ^ nat (?l - ?e))" unfolding i1 [symmetric] using rl by (simp add: divide_right_mono)
    then have "rne (r / 2 powi ?e) \<le> 2 ^ nat (?l - ?e)" using rne_mono rne_of_int by metis
    then have "of_int (rne (r / 2 powi ?e)) \<le> (2::rat) powi ?l / 2 powi ?e" unfolding i1 by (simp only: of_int_le_iff)
    then have a: "fl r \<le> 2 powi ?l" using assms by (simp add: fl_scaled field_simps)
    have "2 powi ?l \<le> s" using ilog2_bounds s0 by simp
    moreover have "(2::rat) powi ?l = of_int (2 ^ 52) * 2 powi ?f" using f by (simp add: powi2_diff)
    ultimately have "of_int (2 ^ 52) \<le> s / 2 powi ?f" by (simp add: field_simps)
    then have "2 ^ 52 \<le> rne (s / 2 powi ?f)" using rne_mono rne_of_int by metis
    then have "(of_int (2 ^ 52) :: rat) \<le> of_int (rne (s / 2 powi ?f))" by (simp only: of_int_le_iff)
    then have "of_int (2 ^ 52) * 2 powi ?f \<le> fl s" using s0 by (simp add: fl_scaled)
    then show ?thesis using a \<open>2 powi ?l = of_int (2 ^ 52) * 2 powi ?f\<close> by linarith
  qed
qed

lemma fl_nonneg: "0 \<le> r \<Longrightarrow> 0 \<le> fl r"
proof (cases "r = 0")
  case False
  assume "0 \<le> r"
  then have "of_int 0 \<le> r / 2 powi ulp_exp r" by simp
  then have "0 \<le> rne (r / 2 powi ulp_exp r)" using rne_mono rne_of_int by metis
  then show ?thesis using False by (simp add: fl_scaled)
qed simp

lemma fl_mono: assumes "r \<le> s" shows "fl r \<le> fl s"
proof -
  consider "0 < r" | "s < 0" | "r \<le> 0" "0 \<le> s" by linarith
  then show ?thesis
  proof cases
    case 1 then show ?thesis using assms by (rule fl_mono_pos)
  next
    case 2
    then have "fl (- s) \<le> fl (- r)" using assms by (intro fl_mono_pos) auto
    then show ?thesis by simp
  next
    case 3
    then have "0 \<le> fl (- r)" "0 \<le> fl s" using fl_nonneg[of "- r"] fl_nonneg[of s] by linarith+
    then show ?thesis by simp
  qed
qed

lemma fl_of_int: "\<bar>n\<bar> \<le> 2 ^ 53 \<Longrightarrow> fl (of_int n) = of_int n"
  using fl_dyadic[of n 0] by simp

lemma fl_err: 
  assumes "\<bar>r\<bar> < 2 powi (k + 1)" "-1022 \<le> k" shows "\<bar>fl r - r\<bar> \<le> 2 powi (k - 53)"
proof (cases "r = 0")
  case False
  let ?E = "ulp_exp r"
  have "2 powi (ilog2 \<bar>r\<bar>) \<le> \<bar>r\<bar>" using ilog2_bounds False by simp
  then have "2 powi (ilog2 \<bar>r\<bar>) < (2::rat) powi (k + 1)" using assms by linarith
  then have E: "?E \<le> k - 52" using assms by (simp add: ulp_exp_def)
  have "fl r - r = (of_int (rne (r / 2 powi ?E)) - r / 2 powi ?E) * 2 powi ?E"
    using False by (simp add: fl_scaled field_simps)
  then have "\<bar>fl r - r\<bar> = \<bar>of_int (rne (r / 2 powi ?E)) - r / 2 powi ?E\<bar> * 2 powi ?E"
    by (simp add: abs_mult)
  also have "\<dots> \<le> 1 / 2 * 2 powi ?E" by (intro mult_right_mono rne_err) simp
  also have "\<dots> \<le> 1 / 2 * 2 powi (k - 52)" using E by simp
  also have "\<dots> = 2 powi (k - 53)" by (simp add: powi2_diff)
  finally show ?thesis .
qed simp



subsection \<open>The contract of a rounding function\<close>

text \<open>
  What the accumulators of the program rely on: a rounding is monotone and idempotent, odd, and
  off by at most \<open>unit\<close> for arguments of magnitude below 2. The lemmas of the locale bound a
  rounded running sum.
\<close>

locale rounding =
  fixes rnd :: "rat \<Rightarrow> rat" and unit :: rat
  assumes rnd_mono: "r \<le> s \<Longrightarrow> rnd r \<le> rnd s"
    and rnd_idem: "rnd (rnd r) = rnd r"
    and rnd_minus: "rnd (- r) = - rnd r"
    and rnd_err: "\<bar>r\<bar> < 2 \<Longrightarrow> \<bar>rnd r - r\<bar> \<le> unit"
begin

lemma rnd_le: "r \<le> c \<Longrightarrow> rnd c = c \<Longrightarrow> rnd r \<le> c"
  using rnd_mono by metis

lemma rnd_ge: "c \<le> r \<Longrightarrow> rnd c = c \<Longrightarrow> c \<le> rnd r"
  using rnd_mono by metis

lemma gt_if_rnd_gt: "c < rnd r \<Longrightarrow> rnd c = c \<Longrightarrow> c < r"
  using rnd_le linorder_not_less by metis

lemma acc_add_err:
  assumes "\<bar>u - S\<bar> \<le> d" "\<bar>u + w\<bar> < 2"
  shows "\<bar>rnd (u + w) - (S + w)\<bar> \<le> d + unit"
proof -
  have "\<bar>rnd (u + w) - (u + w)\<bar> \<le> unit" using assms(2) by (rule rnd_err)
  then show ?thesis using assms(1) unfolding abs_le_iff by linarith
qed

lemma acc_sub_err:
  assumes "\<bar>u - S\<bar> \<le> d" "\<bar>u - w\<bar> < 2"
  shows "\<bar>rnd (u - w) - (S - w)\<bar> \<le> d + unit"
  using acc_add_err [of u S d "- w"] assms by simp

end

interpretation fl: rounding fl "1 / 2 ^ 53"
proof unfold_locales
  fix r :: rat
  assume "\<bar>r\<bar> < 2"
  then show "\<bar>fl r - r\<bar> \<le> 1 / 2 ^ 53"
    using fl_err [of r 0] by (simp add: power_int_minus field_simps)
qed (simp_all add: fl_mono)

section \<open>The type and its arithmetic\<close>

datatype float64 = NaN | PosInf | NegInf | NegZero | Fin rat

fun is_nan :: "float64 \<Rightarrow> bool" where
  "is_nan NaN = True"
| "is_nan _ = False"

fun is_inf :: "float64 \<Rightarrow> bool" where
  "is_inf PosInf = True"
| "is_inf NegInf = True"
| "is_inf _ = False"

fun is_finite :: "float64 \<Rightarrow> bool" where
  "is_finite NegZero = True"
| "is_finite (Fin r) = True"
| "is_finite _ = False"

fun fval :: "float64 \<Rightarrow> rat" where
  "fval (Fin r) = r"
| "fval _ = 0"

fun signbit :: "float64 \<Rightarrow> bool" where
  "signbit NegInf = True"
| "signbit NegZero = True"
| "signbit (Fin r) = (r < 0)"
| "signbit _ = False"

definition is_zero :: "float64 \<Rightarrow> bool" where
  "is_zero x \<longleftrightarrow> is_finite x \<and> fval x = 0"

definition round64 :: "bool \<Rightarrow> rat \<Rightarrow> float64" where
  "round64 neg r = (let s = fl r in
     if 2 ^ 1024 \<le> s then PosInf else if s \<le> - (2 ^ 1024) then NegInf
     else if s = 0 then (if neg then NegZero else Fin 0) else Fin s)"

definition f64 :: "rat \<Rightarrow> float64" where
  "f64 r = round64 False r"

definition signed_inf :: "bool \<Rightarrow> float64" where
  "signed_inf neg = (if neg then NegInf else PosInf)"

instantiation float64 :: "{plus, uminus, minus, times, inverse, ord}"
begin

definition plus_float64 :: "float64 \<Rightarrow> float64 \<Rightarrow> float64" where
  "x + y = (if is_nan x \<or> is_nan y then NaN
     else if is_inf x then (if is_inf y \<and> x \<noteq> y then NaN else x)
     else if is_inf y then y
     else round64 (x = NegZero \<and> y = NegZero) (fval x + fval y))"

definition uminus_float64 :: "float64 \<Rightarrow> float64" where
  "- x = (case x of NaN \<Rightarrow> NaN | PosInf \<Rightarrow> NegInf | NegInf \<Rightarrow> PosInf | NegZero \<Rightarrow> Fin 0
     | Fin r \<Rightarrow> if r = 0 then NegZero else Fin (- r))"

definition minus_float64 :: "float64 \<Rightarrow> float64 \<Rightarrow> float64" where
  "x - y = x + (- y :: float64)"

definition times_float64 :: "float64 \<Rightarrow> float64 \<Rightarrow> float64" where
  "x * y = (if is_nan x \<or> is_nan y \<or> is_inf x \<and> is_zero y \<or> is_zero x \<and> is_inf y then NaN
     else if is_inf x \<or> is_inf y then signed_inf (signbit x \<noteq> signbit y)
     else round64 (signbit x \<noteq> signbit y) (fval x * fval y))"

definition divide_float64 :: "float64 \<Rightarrow> float64 \<Rightarrow> float64" where
  "divide_float64 x y = (if is_nan x \<or> is_nan y \<or> is_inf x \<and> is_inf y \<or> is_zero x \<and> is_zero y then NaN
     else if is_inf x \<or> is_zero y then signed_inf (signbit x \<noteq> signbit y)
     else if is_inf y then round64 (signbit x \<noteq> signbit y) 0
     else round64 (signbit x \<noteq> signbit y) (fval x / fval y))"

definition inverse_float64 :: "float64 \<Rightarrow> float64" where
  "inverse_float64 x = Fin 1 div x"

definition less_eq_float64 :: "float64 \<Rightarrow> float64 \<Rightarrow> bool" where
  "x \<le> y \<longleftrightarrow> \<not> is_nan x \<and> \<not> is_nan y \<and>
     (x = NegInf \<or> y = PosInf \<or> is_finite x \<and> is_finite y \<and> fval x \<le> fval y)"

definition less_float64 :: "float64 \<Rightarrow> float64 \<Rightarrow> bool" where
  "x < y \<longleftrightarrow> x \<le> y \<and> \<not> y \<le> (x :: float64)"

instance ..

end


text \<open>A value of the type is a binary64 number when its rational is one.\<close>

definition is_float :: "float64 \<Rightarrow> bool" where
  "is_float x \<longleftrightarrow> (case x of Fin r \<Rightarrow> fl r = r \<and> \<bar>r\<bar> < 2 ^ 1024 | _ \<Rightarrow> True)"

text \<open>Go's \<^verbatim>\<open>==\<close> on \<^verbatim>\<open>float64\<close>: false on NaN, true on the two zeros.\<close>

definition float64_eq :: "float64 \<Rightarrow> float64 \<Rightarrow> bool" where
  "float64_eq x y \<longleftrightarrow> x \<le> y \<and> y \<le> x"

subsection \<open>Conversions and the functions of the \<^verbatim>\<open>math\<close> package\<close>

text \<open>\<^verbatim>\<open>float64(n)\<close> rounds; \<^verbatim>\<open>int(x)\<close> truncates, and outside the range of \<^verbatim>\<open>int64\<close> it gives the value the
  amd64 conversion instruction gives, the least integer.\<close>

definition float64_of_int :: "int \<Rightarrow> float64" where
  "float64_of_int n = round64 False (of_int n)"

definition trunc :: "rat \<Rightarrow> int" where
  "trunc r = (if 0 \<le> r then \<lfloor>r\<rfloor> else \<lceil>r\<rceil>)"

definition int_of_float64 :: "float64 \<Rightarrow> int" where
  "int_of_float64 x = (if is_finite x \<and> int64 (trunc (fval x)) then trunc (fval x) else - (2 ^ 63))"

definition math_Floor :: "float64 \<Rightarrow> float64" where
  "math_Floor x = (case x of Fin r \<Rightarrow> Fin (of_int \<lfloor>r\<rfloor>) | _ \<Rightarrow> x)"

definition math_Ceil :: "float64 \<Rightarrow> float64" where
  "math_Ceil x = - math_Floor (- x)"

definition math_Round :: "float64 \<Rightarrow> float64" where
  "math_Round x = (case x of
     Fin r \<Rightarrow> (if 0 \<le> r then Fin (of_int \<lfloor>r + 1 / 2\<rfloor>)
       else if \<lfloor>1 / 2 - r\<rfloor> = 0 then NegZero else Fin (- of_int \<lfloor>1 / 2 - r\<rfloor>))
   | _ \<Rightarrow> x)"

definition math_Abs :: "float64 \<Rightarrow> float64" where
  "math_Abs x = (if signbit x then - x else x)"

definition math_Min :: "float64 \<Rightarrow> float64 \<Rightarrow> float64" where
  "math_Min x y = (if x = NegInf \<or> y = NegInf then NegInf
     else if is_nan x \<or> is_nan y then NaN
     else if is_zero x \<and> is_zero y then (if signbit x then x else y)
     else if x < y then x else y)"

definition math_Max :: "float64 \<Rightarrow> float64 \<Rightarrow> float64" where
  "math_Max x y = (if x = PosInf \<or> y = PosInf then PosInf
     else if is_nan x \<or> is_nan y then NaN
     else if is_zero x \<and> is_zero y then (if signbit x then y else x)
     else if x > y then x else y)"

lemma add_commute_float64: "x + y = y + (x :: float64)"
  by (auto simp: plus_float64_def add.commute conj_commute)

subsection \<open>Every operation returns a binary64 number\<close>

lemma fl_le_iff_overflow: "\<bar>fl r\<bar> < 2 ^ 1024 \<longleftrightarrow> \<not> (2 ^ 1024 \<le> fl r \<or> fl r \<le> - (2 ^ 1024))"
  by (auto simp: abs_less_iff not_le)

lemma is_float_round64 [simp]: "is_float (round64 neg r)"
  by (auto simp: round64_def Let_def is_float_def abs_less_iff simp del: power_numeral)

lemma is_float_simps [simp]:
  "is_float NaN" "is_float PosInf" "is_float NegInf" "is_float NegZero" "is_float (f64 r)"
  "is_float (signed_inf neg)" "is_float (float64_of_int n)"
  by (simp_all add: is_float_def f64_def signed_inf_def float64_of_int_def flip: is_float_round64)
    (simp_all add: is_float_def [symmetric])

subsection \<open>Comparisons\<close>

lemma f64_0 [simp]: "f64 0 = Fin 0"
  by (simp add: f64_def round64_def)

lemma fl_1 [simp]: "fl 1 = 1"
  using fl_of_int [of 1] by simp

lemma f64_1 [simp]: "f64 1 = Fin 1"
proof -
  have "(1::rat) < 2 ^ 1024" by (rule one_less_power) simp_all
  then have "\<not> 2 ^ 1024 \<le> (1::rat)" "\<not> 1 \<le> - (2 ^ 1024 :: rat)" by linarith+
  then show ?thesis unfolding f64_def round64_def Let_def fl_1 by (simp only: if_False) simp
qed

lemma finite_le [simp]: "is_finite x \<Longrightarrow> is_finite y \<Longrightarrow> x \<le> y \<longleftrightarrow> fval x \<le> fval y"
  by (cases x; cases y) (simp_all add: less_eq_float64_def)

lemma finite_less [simp]: "is_finite x \<Longrightarrow> is_finite y \<Longrightarrow> x < y \<longleftrightarrow> fval x < fval y"
  by (auto simp: less_float64_def)

lemma float_le_refl: "\<not> is_nan x \<Longrightarrow> x \<le> (x :: float64)"
  by (cases x) (auto simp: less_eq_float64_def)

lemma float_le_trans: "x \<le> y \<Longrightarrow> y \<le> z \<Longrightarrow> x \<le> (z :: float64)"
  by (cases x; cases y; cases z) (auto simp: less_eq_float64_def)

lemma float_not_le: "\<not> is_nan x \<Longrightarrow> \<not> is_nan y \<Longrightarrow> \<not> x \<le> y \<longleftrightarrow> y < (x :: float64)"
  by (cases x; cases y) (auto simp: less_eq_float64_def less_float64_def)

lemma float_le_not_nan: "x \<le> y \<Longrightarrow> \<not> is_nan x \<and> \<not> is_nan (y :: float64)"
  by (simp add: less_eq_float64_def)

lemma nan_cmp [simp]: "\<not> NaN \<le> x" "\<not> x \<le> NaN" "\<not> NaN < x" "\<not> x < NaN"
  by (simp_all add: less_eq_float64_def less_float64_def)

lemma finite_between: "Fin a < x \<Longrightarrow> x \<le> Fin b \<Longrightarrow> is_finite x"
  by (cases x) (auto simp: less_eq_float64_def less_float64_def)

text \<open>A rejected width or quota is one that fails the test \<open>x <= 0 || x > 1\<close>; what passes it is NaN
  or a finite number in the unit interval.\<close>

lemma unit_interval:
  assumes "\<not> is_nan x" "\<not> x \<le> Fin 0" "\<not> Fin 1 < x"
  shows "is_finite x" "0 < fval x" "fval x \<le> 1"
  using assms by (cases x; auto simp: less_eq_float64_def less_float64_def)+

subsection \<open>Operations on finite numbers\<close>

lemma fl_big_pow: "fl (2 ^ 1023) = 2 ^ 1023"
  using fl_dyadic [of 1 1023] by (simp add: power_int_def del: power_numeral)

lemma round64_finite:
  assumes "\<bar>r\<bar> \<le> 2 ^ 1023"
  shows "is_finite (round64 neg r)" "fval (round64 neg r) = fl r"
proof -
  have "fl r \<le> 2 ^ 1023" using assms fl_big_pow by (intro fl.rnd_le) (auto simp del: power_numeral)
  moreover have "fl (- r) \<le> 2 ^ 1023" using assms fl_big_pow
    by (intro fl.rnd_le) (auto simp del: power_numeral)
  moreover have "(2::rat) ^ 1023 < 2 ^ 1024" by (rule power_strict_increasing) simp_all
  ultimately have "\<not> 2 ^ 1024 \<le> fl r" "\<not> fl r \<le> - (2 ^ 1024)" unfolding fl_minus by linarith+
  then show "is_finite (round64 neg r)" "fval (round64 neg r) = fl r"
    by (auto simp: round64_def Let_def simp del: power_numeral)
qed

lemma round64_le:
  assumes "r \<le> c" "fl c = c" "\<bar>c\<bar> < 2 ^ 1024"
  shows "round64 neg r \<le> Fin c"
proof -
  have "fl r \<le> c" using assms by (intro fl.rnd_le)
  then show ?thesis using assms(3)
    by (auto simp: round64_def Let_def less_eq_float64_def abs_less_iff simp del: power_numeral)
qed

lemma finite_cases: "is_finite x \<Longrightarrow> \<not> is_nan x \<and> \<not> is_inf x"
  by (cases x) auto

lemma is_finite_uminus [simp]: "is_finite (- x) \<longleftrightarrow> is_finite x"
  by (cases x) (auto simp: uminus_float64_def)

lemma fval_uminus [simp]: "fval (- x) = - fval x"
  by (cases x) (auto simp: uminus_float64_def)

lemma plus_finite:
  assumes "is_finite x" "is_finite y" "\<bar>fval x + fval y\<bar> \<le> 2 ^ 1023"
  shows "is_finite (x + y)" "fval (x + y) = fl (fval x + fval y)"
  using assms round64_finite finite_cases by (simp_all add: plus_float64_def del: power_numeral)

lemma minus_finite:
  assumes "is_finite x" "is_finite y" "\<bar>fval x - fval y\<bar> \<le> 2 ^ 1023"
  shows "is_finite (x - y)" "fval (x - y) = fl (fval x - fval y)"
  using assms plus_finite [of x "- y"] by (simp_all add: minus_float64_def del: power_numeral)

lemma times_finite:
  assumes "is_finite x" "is_finite y" "\<bar>fval x * fval y\<bar> \<le> 2 ^ 1023"
  shows "is_finite (x * y)" "fval (x * y) = fl (fval x * fval y)"
  using assms round64_finite finite_cases by (simp_all add: times_float64_def del: power_numeral)

lemma divide_finite:
  assumes "is_finite x" "is_finite y" "fval y \<noteq> 0" "\<bar>fval x / fval y\<bar> \<le> 2 ^ 1023"
  shows "is_finite (x / y)" "fval (x / y) = fl (fval x / fval y)"
  using assms round64_finite finite_cases
  by (simp_all add: divide_float64_def is_zero_def del: power_numeral)

text \<open>Taking a positive amount away never leaves a bound, whatever the rounding does.\<close>

lemma minus_le_bound:
  assumes "x \<le> Fin c" "is_finite w" "0 < fval w" "fl c = c" "\<bar>c\<bar> < 2 ^ 1024"
  shows "x - w \<le> Fin c"
proof (cases "is_finite x")
  case True
  then have "fval x - fval w \<le> c" using assms by (simp del: power_numeral)
  then show ?thesis using True assms finite_cases
    by (auto simp: minus_float64_def plus_float64_def intro!: round64_le simp del: power_numeral)
next
  case False
  then have "x = NegInf" using assms(1) by (cases x) (auto simp: less_eq_float64_def)
  then show ?thesis using assms(2) finite_cases [of "- w"]
    by (simp add: minus_float64_def plus_float64_def less_eq_float64_def)
qed

lemma one_less_big: "\<bar>1::rat\<bar> < 2 ^ 1024"
  by (simp only: abs_one) (rule one_less_power, simp_all)

lemmas minus_le_one = minus_le_bound [where c = 1, OF _ _ _ fl_1 one_less_big]

lemma two_less_big: "\<bar>r\<bar> \<le> 2 \<Longrightarrow> \<bar>r\<bar> \<le> (2::rat) ^ 1023"
proof -
  assume "\<bar>r\<bar> \<le> 2"
  moreover have "(2::rat) ^ 1 \<le> 2 ^ 1023" by (rule power_increasing) simp_all
  ultimately show ?thesis by (simp del: power_numeral)
qed

lemmas plus_small = plus_finite [OF _ _ two_less_big]
lemmas minus_small = minus_finite [OF _ _ two_less_big]


subsection \<open>Evaluation by rewriting\<close>

lemma rne_frac: 
  assumes "0 < b"
  shows "rne (of_int a / of_int b) =
    (let q = a div b; t = 2 * (a mod b) in
     if t < b then q else if b < t then q + 1 else if even q then q else q + 1)"
proof -
  have f: "\<lfloor>of_int a / (of_int b :: rat)\<rfloor> = a div b" by (rule floor_divide_of_int_eq)
  have "(of_int a :: rat) = of_int b * of_int (a div b) + of_int (a mod b)"
    unfolding of_int_mult [symmetric] of_int_add [symmetric] by (simp only: mult_div_mod_eq)
  then have d: "of_int a / of_int b - of_int (a div b) = (of_int (a mod b) / of_int b :: rat)"
    using assms by (simp add: divide_simps)
  have i: "of_int x * 2 < (of_int b :: rat) \<longleftrightarrow> 2 * x < b" "(of_int b :: rat) < of_int x * 2 \<longleftrightarrow> b < 2 * x" for x
    by (metis mult.commute of_int_less_iff of_int_mult of_int_numeral)+
  have c: "of_int (a mod b) / of_int b < (1 / 2 :: rat) \<longleftrightarrow> 2 * (a mod b) < b"
      "(1 / 2 :: rat) < of_int (a mod b) / of_int b \<longleftrightarrow> b < 2 * (a mod b)"
    using assms by (simp_all add: divide_less_eq less_divide_eq i)
  show ?thesis unfolding rne_def Let_def f d c by simp
qed

lemma rne_numeral_frac [f64_eval]:
  "rne (numeral a / numeral b) =
    (let q = numeral a div numeral b; t = (2::int) * (numeral a mod numeral b) in
     if t < numeral b then q else if numeral b < t then q + 1 else if even q then q else q + 1)"
  using rne_frac [of "numeral b" "numeral a"] by (simp only: of_int_numeral zero_less_numeral)

lemma rne_one_frac [f64_eval]:
  "rne (1 / numeral b) = (let t = (2::int) * (1 mod numeral b) in
     if t < numeral b then 1 div numeral b else if numeral b < t then 1 div numeral b + 1
     else if even ((1::int) div numeral b) then 1 div numeral b else 1 div numeral b + 1)"
  using rne_frac [of "numeral b" "1"] by (simp add: Let_def)

lemma rne_numeral [f64_eval]: "rne (numeral n) = numeral n" "rne 1 = 1" "rne 0 = 0"
  using rne_of_int[of "numeral n"] rne_of_int[of 1] rne_of_int[of 0] by simp_all

lemma ilog2_ge_one [f64_eval]: "1 \<le> r \<Longrightarrow> r < 2 \<Longrightarrow> ilog2 r = 0"
  by (rule ilog2_eqI) simp_all

lemma ilog2_nat: "2 ^ n \<le> r \<Longrightarrow> r < 2 ^ Suc n \<Longrightarrow> ilog2 r = int n"
proof (rule ilog2_eqI)
  assume "r < 2 ^ Suc n"
  then show "r < 2 powi (int n + 1)" by (simp only: powi2_nat) (simp add: nat_add_distrib)
qed simp

lemma ilog2_neg: "1 \<le> r * 2 ^ Suc n \<Longrightarrow> r * 2 ^ n < 1 \<Longrightarrow> ilog2 r = - int (Suc n)"
  by (rule ilog2_eqI) (simp_all add: power_int_minus field_simps power_int_add power_int_diff)

lemma ulp_exp_eval [f64_eval]: "ulp_exp r = max (-1074) (ilog2 \<bar>r\<bar> - 52)"
  by (rule ulp_exp_def)

lemmas ilog2_eval [f64_eval] =
  ilog2_nat [of 1, simplified] ilog2_nat [of 2, simplified] ilog2_nat [of 3, simplified]
  ilog2_nat [of 4, simplified] ilog2_nat [of 5, simplified] ilog2_nat [of 6, simplified]
  ilog2_nat [of 7, simplified] ilog2_nat [of 8, simplified] ilog2_nat [of 9, simplified]
  ilog2_neg [where n = 0, simplified] ilog2_neg [where n = 1, simplified] ilog2_neg [where n = 2, simplified]
  ilog2_neg [where n = 3, simplified] ilog2_neg [where n = 4, simplified] ilog2_neg [where n = 5, simplified]
  ilog2_neg [where n = 6, simplified] ilog2_neg [where n = 7, simplified] ilog2_neg [where n = 8, simplified]

lemma powi_minus_numeral [f64_eval]: "(x::rat) powi (- numeral n) = 1 / x ^ numeral n"
  by (simp only: power_int_minus power_int_numeral inverse_eq_divide)

lemma round64_small [f64_eval]:
  "\<bar>fl r\<bar> \<le> 10 ^ 30 \<Longrightarrow> round64 neg r = (if fl r = 0 then (if neg then NegZero else Fin 0) else Fin (fl r))"
proof -
  assume "\<bar>fl r\<bar> \<le> 10 ^ 30"
  moreover have "(10::rat) ^ 30 < 2 ^ 100" by simp
  moreover have "(2::rat) ^ 100 \<le> 2 ^ 1024" by (rule power_increasing) simp_all
  ultimately show ?thesis by (auto simp: round64_def Let_def abs_le_iff)
qed

lemma floor_numeral_frac [f64_eval]:
  "\<lfloor>numeral a / numeral b :: rat\<rfloor> = numeral a div numeral b"
  "\<lfloor>- (numeral a / numeral b) :: rat\<rfloor> = - numeral a div numeral b"
  "\<lfloor>1 / numeral b :: rat\<rfloor> = 1 div numeral b"
  using floor_divide_of_int_eq [of "numeral a" "numeral b", where 'a = rat]
    floor_divide_of_int_eq [of "- numeral a" "numeral b", where 'a = rat]
    floor_divide_of_int_eq [of 1 "numeral b", where 'a = rat] by simp_all

lemmas f64_op_defs [f64_eval] =
  f64_def fl_def plus_float64_def uminus_float64_def minus_float64_def times_float64_def
  divide_float64_def less_eq_float64_def less_float64_def float64_eq_def is_zero_def
  signed_inf_def float64_of_int_def trunc_def int_of_float64_def math_Floor_def math_Ceil_def
  math_Round_def math_Abs_def math_Min_def math_Max_def int64_def

end
