(* ===== verification/Shelf.thy ===== *)
theory Shelf
  imports Float64
begin

text \<open>
  \<^verbatim>\<open>internal/shelf/shelf.go\<close>: the online two-dimensional shelf packer. A bin of height
  \<open>MaxHeight\<close> is cut into shelves of width 1; an item goes into the first shelf that is high and
  wide enough, or opens a new one; removing the last item of a shelf collapses it and renumbers
  the shelves above. The mutex makes each operation atomic, so an operation is a function from
  the packer to the new packer and its result.
\<close>

section \<open>Data\<close>

record Item =
  item_ID :: int
  item_Width :: float64
  item_Height :: int

record Shelf =
  shelf_Height :: int
  UsedWidth :: float64
  Items :: "(int, Item) fmap"

record ShelfPacker =
  MaxHeight :: int
  Shelves :: "Shelf list"
  UsedHeight :: int
  nextItemID :: int
  itemLocation :: "(int, int) fmap"

text \<open>The errors the operations return, and the run-time panic of an index out of range.\<close>

datatype shelf_error =
    WidthRange | HeightRange | NoSpace | ItemNotFound | ItemDataMissing | IndexPanic

section \<open>Operations\<close>

definition NewShelf :: "int \<Rightarrow> ShelfPacker" where
  "NewShelf maxHeight = \<lparr>MaxHeight = maxHeight, Shelves = [], UsedHeight = 0,
     nextItemID = 1, itemLocation = fmempty\<rparr>"

text \<open>The condition under which an item goes into a shelf, and the index of the first such shelf.\<close>

definition fits_shelf :: "float64 \<Rightarrow> int \<Rightarrow> Shelf \<Rightarrow> bool" where
  "fits_shelf width height shelf \<longleftrightarrow>
     height \<le> shelf_Height shelf \<and> UsedWidth shelf + width \<le> f64 1"

fun first_fit :: "float64 \<Rightarrow> int \<Rightarrow> nat \<Rightarrow> Shelf list \<Rightarrow> nat option" where
  "first_fit width height idx [] = None"
| "first_fit width height idx (shelf # rest) =
     (if fits_shelf width height shelf then Some idx else first_fit width height (Suc idx) rest)"

definition add_item :: "Item \<Rightarrow> Shelf \<Rightarrow> Shelf" where
  "add_item item shelf = shelf\<lparr>Items := fmupd (item_ID item) item (Items shelf),
     UsedWidth := UsedWidth shelf + item_Width item\<rparr>"

definition Insert :: "ShelfPacker \<Rightarrow> float64 \<Rightarrow> int \<Rightarrow> ShelfPacker \<times> (shelf_error + int)" where
  "Insert sp width height =
    (if width \<le> f64 0 \<or> f64 1 < width then (sp, Inl WidthRange)
     else if height \<le> 0 \<or> MaxHeight sp < height then (sp, Inl HeightRange)
     else
       let itemID = nextItemID sp;
           sp1 = sp\<lparr>nextItemID := wrap64 (nextItemID sp + 1)\<rparr>;
           item = \<lparr>item_ID = itemID, item_Width = width, item_Height = height\<rparr>
       in case first_fit width height 0 (Shelves sp1) of
            Some idx \<Rightarrow>
              (sp1\<lparr>Shelves := (Shelves sp1)[idx := add_item item (Shelves sp1 ! idx)],
                   itemLocation := fmupd itemID (int idx) (itemLocation sp1)\<rparr>, Inr itemID)
          | None \<Rightarrow>
              (let remaining = wrap64 (MaxHeight sp1 - UsedHeight sp1) in
               if remaining < height then (sp1, Inl NoSpace)
               else
                 let newShelf = \<lparr>shelf_Height = height, UsedWidth = width,
                                 Items = fmupd itemID item fmempty\<rparr>
                 in (sp1\<lparr>Shelves := Shelves sp1 @ [newShelf],
                         UsedHeight := wrap64 (UsedHeight sp1 + height),
                         itemLocation := fmupd itemID (int (length (Shelves sp1)))
                                           (itemLocation sp1)\<rparr>, Inr itemID)))"

definition CanFit :: "ShelfPacker \<Rightarrow> float64 \<Rightarrow> int \<Rightarrow> shelf_error + bool" where
  "CanFit sp width height =
    (if list_ex (fits_shelf width height) (Shelves sp) then Inr True
     else if height \<le> wrap64 (MaxHeight sp - UsedHeight sp) then Inr True
     else Inl NoSpace)"

text \<open>Taking an item out of its shelf; the renumbering of \<open>itemLocation\<close> after a collapse.\<close>

definition drop_item :: "Item \<Rightarrow> int \<Rightarrow> Shelf \<Rightarrow> Shelf" where
  "drop_item item itemID shelf = shelf\<lparr>Items := fmdrop itemID (Items shelf),
     UsedWidth := UsedWidth shelf - item_Width item\<rparr>"

definition renumber :: "int \<Rightarrow> (int, int) fmap \<Rightarrow> (int, int) fmap" where
  "renumber shelfIdx loc = fmmap (\<lambda>idx. if shelfIdx < idx then idx - 1 else idx) loc"

definition Remove :: "ShelfPacker \<Rightarrow> int \<Rightarrow> ShelfPacker \<times> (shelf_error + int)" where
  "Remove sp itemID =
    (case fmlookup (itemLocation sp) itemID of
       None \<Rightarrow> (sp, Inl ItemNotFound)
     | Some shelfIdx \<Rightarrow>
         if shelfIdx < 0 \<or> int (length (Shelves sp)) \<le> shelfIdx then (sp, Inl IndexPanic)
         else
           let i = nat shelfIdx; shelf = Shelves sp ! i
           in case fmlookup (Items shelf) itemID of
                None \<Rightarrow> (sp, Inl ItemDataMissing)
              | Some item \<Rightarrow>
                  let shelf' = drop_item item itemID shelf;
                      loc = fmdrop itemID (itemLocation sp)
                  in if gm_len (Items shelf') = 0
                     then (sp\<lparr>UsedHeight := wrap64 (UsedHeight sp - shelf_Height shelf'),
                              Shelves := take i (Shelves sp) @ drop (Suc i) (Shelves sp),
                              itemLocation := renumber shelfIdx loc\<rparr>, Inr shelfIdx)
                     else (sp\<lparr>Shelves := (Shelves sp)[i := shelf'], itemLocation := loc\<rparr>,
                           Inr shelfIdx))"

definition IsEmpty :: "ShelfPacker \<Rightarrow> bool" where
  "IsEmpty sp \<longleftrightarrow> length (Shelves sp) = 0"

text \<open>The loop of \<open>MaxInsertableItems\<close> over the shelves, with its two accumulators.\<close>

fun count_fitting :: "float64 \<Rightarrow> int \<Rightarrow> Shelf list \<Rightarrow> int \<times> int \<Rightarrow> int \<times> int" where
  "count_fitting width height [] acc = acc"
| "count_fitting width height (shelf # rest) (count, usedHeight) =
     count_fitting width height rest
       (if height \<le> shelf_Height shelf
        then wrap64 (count + int_of_float64 ((f64 1 - UsedWidth shelf) / width)) else count,
        wrap64 (usedHeight + shelf_Height shelf))"

definition MaxInsertableItems :: "ShelfPacker \<Rightarrow> float64 \<Rightarrow> int \<Rightarrow> int" where
  "MaxInsertableItems sp width height =
    (if width \<le> f64 0 \<or> f64 1 < width \<or> height \<le> 0 \<or> MaxHeight sp < height then 0
     else
       let (count, usedHeight) = count_fitting width height (Shelves sp) (0, 0);
           remainingHeight = wrap64 (MaxHeight sp - usedHeight);
           numNewShelves = go_div remainingHeight height;
           itemsPerShelf = int_of_float64 (f64 1 / width)
       in wrap64 (count + wrap64 (numNewShelves * itemsPerShelf)))"

definition Reset :: "ShelfPacker \<Rightarrow> ShelfPacker" where
  "Reset sp = sp\<lparr>Shelves := [], UsedHeight := 0, nextItemID := 1, itemLocation := fmempty\<rparr>"

lemmas shelf_defs [go_eval] =
  Let_def fmdrop_fmupd NewShelf_def fits_shelf_def add_item_def Insert_def CanFit_def drop_item_def renumber_def
  Remove_def IsEmpty_def MaxInsertableItems_def Reset_def

section \<open>The invariant\<close>

text \<open>
  Every item knows its own number, is of a legal size and no higher than its shelf; no shelf is
  empty or over-full by its own account; \<open>UsedHeight\<close> is the height of the shelves and within the
  bin; \<open>itemLocation\<close> and the shelves describe the same placement; numbers in use were handed out
  before.
\<close>

definition item_ok :: "int \<Rightarrow> int \<Rightarrow> Item \<Rightarrow> bool" where
  "item_ok h i it \<longleftrightarrow> item_ID it = i \<and> is_finite (item_Width it) \<and> 0 < fval (item_Width it) \<and>
     fval (item_Width it) \<le> 1 \<and> 0 < item_Height it \<and> item_Height it \<le> h"

definition shelf_ok :: "Shelf \<Rightarrow> bool" where
  "shelf_ok s \<longleftrightarrow> 0 < shelf_Height s \<and> UsedWidth s \<le> Fin 1 \<and> Items s \<noteq> fmempty \<and>
     (\<forall>i it. fmlookup (Items s) i = Some it \<longrightarrow> item_ok (shelf_Height s) i it)"

definition loc_ok :: "Shelf list \<Rightarrow> (int, int) fmap \<Rightarrow> bool" where
  "loc_ok ss loc \<longleftrightarrow> (\<forall>i k. fmlookup loc i = Some k \<longrightarrow> 0 \<le> k) \<and>
     (\<forall>i n. fmlookup loc i = Some (int n) \<longleftrightarrow> n < length ss \<and> i |\<in>| fmdom (Items (ss ! n)))"

definition wf_packer :: "ShelfPacker \<Rightarrow> bool" where
  "wf_packer sp \<longleftrightarrow> (\<forall>s \<in> set (Shelves sp). shelf_ok s) \<and>
     UsedHeight sp = sum_list (map shelf_Height (Shelves sp)) \<and>
     UsedHeight sp \<le> max 0 (MaxHeight sp) \<and> int64 (MaxHeight sp) \<and>
     1 \<le> nextItemID sp \<and> nextItemID sp < 2 ^ 63 \<and>
     loc_ok (Shelves sp) (itemLocation sp) \<and>
     (\<forall>i k. fmlookup (itemLocation sp) i = Some k \<longrightarrow> 1 \<le> i \<and> i < nextItemID sp)"

subsection \<open>Shelves and locations under one change\<close>

lemma first_fit_Some:
  "first_fit w h idx ss = Some j \<Longrightarrow>
    idx \<le> j \<and> j - idx < length ss \<and> fits_shelf w h (ss ! (j - idx)) \<and>
    (\<forall>k < j - idx. \<not> fits_shelf w h (ss ! k))"
proof (induction ss arbitrary: idx)
  case (Cons s ss)
  show ?case
  proof (cases "fits_shelf w h s")
    case True
    with Cons.prems show ?thesis by simp
  next
    case False
    with Cons.prems have IH: "Suc idx \<le> j \<and> j - Suc idx < length ss \<and>
        fits_shelf w h (ss ! (j - Suc idx)) \<and> (\<forall>k < j - Suc idx. \<not> fits_shelf w h (ss ! k))"
      by (intro Cons.IH) simp
    then have "j - idx = Suc (j - Suc idx)" by (simp add: Suc_diff_Suc)
    with IH False show ?thesis by (auto simp: nth_Cons less_Suc_eq_0_disj split: nat.split)
  qed
qed simp

lemma first_fit_None: "first_fit w h idx ss = None \<longleftrightarrow> (\<forall>s \<in> set ss. \<not> fits_shelf w h s)"
  by (induction ss arbitrary: idx) auto

lemma shelf_ok_add:
  assumes "shelf_ok s" "fits_shelf (item_Width it) (item_Height it) s"
    "is_finite (item_Width it)" "0 < fval (item_Width it)" "fval (item_Width it) \<le> 1"
    "0 < item_Height it"
  shows "shelf_ok (add_item it s)"
  using assms by (auto simp: shelf_ok_def add_item_def fits_shelf_def item_ok_def)

lemma shelf_ok_new:
  "is_finite w \<Longrightarrow> 0 < fval w \<Longrightarrow> fval w \<le> 1 \<Longrightarrow> 0 < h \<Longrightarrow>
    shelf_ok \<lparr>shelf_Height = h, UsedWidth = w,
      Items = fmupd i \<lparr>item_ID = i, item_Width = w, item_Height = h\<rparr> fmempty\<rparr>"
  by (auto simp: shelf_ok_def item_ok_def)

lemma shelf_ok_drop:
  assumes "shelf_ok s" "fmlookup (Items s) i = Some it" "Items (drop_item it i s) \<noteq> fmempty"
  shows "shelf_ok (drop_item it i s)"
proof -
  have "item_ok (shelf_Height s) i it" using assms by (auto simp: shelf_ok_def)
  then have "UsedWidth s - item_Width it \<le> Fin 1"
    using assms(1) by (intro minus_le_one) (auto simp: item_ok_def shelf_ok_def)
  then show ?thesis using assms
    by (auto simp: shelf_ok_def drop_item_def fmdrop_lookup_if split: if_splits)
qed

lemma loc_okI:
  assumes "\<And>i k. fmlookup loc i = Some k \<Longrightarrow> 0 \<le> k"
    and "\<And>i n. fmlookup loc i = Some (int n) \<longleftrightarrow> n < length ss \<and> i |\<in>| fmdom (Items (ss ! n))"
  shows "loc_ok ss loc"
  using assms by (simp add: loc_ok_def)

lemma loc_ok_nonneg: "loc_ok ss loc \<Longrightarrow> fmlookup loc i = Some k \<Longrightarrow> 0 \<le> k"
  by (simp add: loc_ok_def)

lemma loc_ok_iff:
  "loc_ok ss loc \<Longrightarrow> fmlookup loc i = Some (int n) \<longleftrightarrow> n < length ss \<and> i |\<in>| fmdom (Items (ss ! n))"
  by (simp add: loc_ok_def)

lemma loc_ok_fresh:
  "loc_ok ss loc \<Longrightarrow> fmlookup loc i = None \<Longrightarrow> n < length ss \<Longrightarrow> i |\<notin>| fmdom (Items (ss ! n))"
  using loc_ok_iff [of ss loc i n] by auto

lemma loc_ok_lookup:
  assumes "loc_ok ss loc" "fmlookup loc i = Some k"
  obtains n it where "k = int n" "n < length ss" "fmlookup (Items (ss ! n)) i = Some it"
proof -
  obtain n where k: "k = int n" using loc_ok_nonneg [OF assms] by (rule nonneg_int_cases)
  then have "n < length ss \<and> i |\<in>| fmdom (Items (ss ! n))"
    using loc_ok_iff [OF assms(1), of i n] assms(2) by simp
  with k that show ?thesis by (auto simp: fmlookup_dom_iff)
qed

lemma loc_ok_add:
  assumes l: "loc_ok ss loc" and "idx < length ss" "fmlookup loc (item_ID it) = None"
  shows "loc_ok (ss[idx := add_item it (ss ! idx)]) (fmupd (item_ID it) (int idx) loc)"
proof (rule loc_okI)
  fix i n
  have "item_ID it |\<notin>| fmdom (Items (ss ! n))" if "n < length ss"
    using loc_ok_fresh [OF l assms(3) that] .
  then show "fmlookup (fmupd (item_ID it) (int idx) loc) i = Some (int n) \<longleftrightarrow>
      n < length (ss[idx := add_item it (ss ! idx)]) \<and>
      i |\<in>| fmdom (Items (ss[idx := add_item it (ss ! idx)] ! n))"
    using assms(2) loc_ok_iff [OF l, of i n] by (auto simp: add_item_def nth_list_update)
qed (auto split: if_splits dest: loc_ok_nonneg [OF l])

lemma loc_ok_snoc:
  assumes l: "loc_ok ss loc" and "fmlookup loc i = None" "fmdom (Items s) = {|i|}"
  shows "loc_ok (ss @ [s]) (fmupd i (int (length ss)) loc)"
proof (rule loc_okI)
  fix j n
  have "i |\<notin>| fmdom (Items (ss ! n))" if "n < length ss"
    using loc_ok_fresh [OF l assms(2) that] .
  then show "fmlookup (fmupd i (int (length ss)) loc) j = Some (int n) \<longleftrightarrow>
      n < length (ss @ [s]) \<and> j |\<in>| fmdom (Items ((ss @ [s]) ! n))"
    using assms(3) loc_ok_iff [OF l, of j n] by (auto simp: nth_append less_Suc_eq)
qed (auto split: if_splits dest: loc_ok_nonneg [OF l])

lemma loc_ok_drop:
  assumes l: "loc_ok ss loc" and "i < length ss" "fmlookup loc j = Some (int i)"
  shows "loc_ok (ss[i := drop_item it j (ss ! i)]) (fmdrop j loc)"
proof (rule loc_okI)
  fix j' n
  show "fmlookup (fmdrop j loc) j' = Some (int n) \<longleftrightarrow>
      n < length (ss[i := drop_item it j (ss ! i)]) \<and>
      j' |\<in>| fmdom (Items (ss[i := drop_item it j (ss ! i)] ! n))"
    using assms(2,3) loc_ok_iff [OF l, of j' n]
    by (auto simp: drop_item_def nth_list_update fmdrop_lookup_if)
qed (auto simp: fmdrop_lookup_if split: if_splits dest: loc_ok_nonneg [OF l])

lemma renumber_lookup:
  assumes l: "loc_ok ss loc" and "i < length ss" "fmdom (Items (ss ! i)) = {|j|}"
  shows "fmlookup (renumber (int i) (fmdrop j loc)) j' = Some (int n) \<longleftrightarrow>
    fmlookup loc j' = Some (int (if n < i then n else Suc n))"
proof -
  have at_i: "fmlookup loc j' = Some (int i) \<longleftrightarrow> j' = j"
    using assms(2,3) loc_ok_iff [OF l, of j' i] by auto
  show ?thesis
  proof (cases "fmlookup loc j'")
    case None
    then show ?thesis by (simp add: renumber_def fmdrop_lookup_if)
  next
    case (Some k)
    then obtain m where "k = int m" using loc_ok_nonneg [OF l] zero_le_imp_eq_int by blast
    with Some at_i show ?thesis
      by (auto simp: renumber_def fmdrop_lookup_if split: if_splits)
  qed
qed

lemma loc_ok_collapse:
  assumes l: "loc_ok ss loc" and "i < length ss" "fmdom (Items (ss ! i)) = {|j|}"
  shows "loc_ok (take i ss @ drop (Suc i) ss) (renumber (int i) (fmdrop j loc))"
proof (rule loc_okI)
  fix j' n
  show "fmlookup (renumber (int i) (fmdrop j loc)) j' = Some (int n) \<longleftrightarrow>
      n < length (take i ss @ drop (Suc i) ss) \<and>
      j' |\<in>| fmdom (Items ((take i ss @ drop (Suc i) ss) ! n))"
    unfolding renumber_lookup [OF assms]
    using assms(2) loc_ok_iff [OF l] nth_drop_nth [OF assms(2), of n] by auto
qed (auto simp: renumber_def fmdrop_lookup_if split: if_splits dest: loc_ok_nonneg [OF l])

section \<open>Behaviour of the operations\<close>

text \<open>The placement a packer stands for: which item each number in use names.\<close>

definition placed :: "ShelfPacker \<Rightarrow> int \<rightharpoonup> Item" where
  "placed sp i = (case fmlookup (itemLocation sp) i of None \<Rightarrow> None
     | Some k \<Rightarrow> fmlookup (Items (Shelves sp ! nat k)) i)"

lemma wf_packerD:
  assumes "wf_packer sp"
  shows "s \<in> set (Shelves sp) \<Longrightarrow> shelf_ok s"
    and "UsedHeight sp = sum_list (map shelf_Height (Shelves sp))"
    and "UsedHeight sp \<le> max 0 (MaxHeight sp)" and "int64 (MaxHeight sp)"
    and "1 \<le> nextItemID sp" and "nextItemID sp < 2 ^ 63"
    and "loc_ok (Shelves sp) (itemLocation sp)"
    and "fmlookup (itemLocation sp) i = Some k \<Longrightarrow> 1 \<le> i \<and> i < nextItemID sp"
  using assms unfolding wf_packer_def by auto

lemma wf_shelf_pos: "wf_packer sp \<Longrightarrow> s \<in> set (Shelves sp) \<Longrightarrow> 0 < shelf_Height s"
  using wf_packerD(1) [of sp s] by (simp add: shelf_ok_def)

lemma wf_UsedHeight_nonneg: "wf_packer sp \<Longrightarrow> 0 \<le> UsedHeight sp"
  unfolding wf_packerD(2) by (intro sum_list_nonneg) (auto dest: wf_shelf_pos)

lemma wf_remaining:
  assumes "wf_packer sp"
  shows "wrap64 (MaxHeight sp - UsedHeight sp) = MaxHeight sp - UsedHeight sp"
  using wf_packerD(3,4) [OF assms] wf_UsedHeight_nonneg [OF assms]
  by (intro wrap64_id) (auto simp: int64_def)

lemma wf_fresh: "wf_packer sp \<Longrightarrow> fmlookup (itemLocation sp) (nextItemID sp) = None"
  using wf_packerD(8) [of sp "nextItemID sp"] by (cases "fmlookup (itemLocation sp) (nextItemID sp)") auto

lemma wf_next:
  "wf_packer sp \<Longrightarrow> nextItemID sp < 2 ^ 63 - 1 \<Longrightarrow> wrap64 (nextItemID sp + 1) = nextItemID sp + 1"
  using wf_packerD(5) by (intro wrap64_id) (force simp: int64_def)

lemma wf_NewShelf: "int64 h \<Longrightarrow> wf_packer (NewShelf h)"
  by (simp add: wf_packer_def NewShelf_def loc_ok_def)

lemma wf_Reset: "wf_packer sp \<Longrightarrow> wf_packer (Reset sp)"
  by (simp add: wf_packer_def Reset_def loc_ok_def)

lemma placed_Some:
  assumes "wf_packer sp" "placed sp i = Some it"
  obtains n where "fmlookup (itemLocation sp) i = Some (int n)" "n < length (Shelves sp)"
    "fmlookup (Items (Shelves sp ! n)) i = Some it" "item_ok (shelf_Height (Shelves sp ! n)) i it"
proof -
  obtain k where k: "fmlookup (itemLocation sp) i = Some k"
      "fmlookup (Items (Shelves sp ! nat k)) i = Some it"
    using assms(2) by (auto simp: placed_def split: option.splits)
  obtain n it' where n: "k = int n" "n < length (Shelves sp)"
    using loc_ok_lookup [OF wf_packerD(7) [OF assms(1)] k(1)] by metis
  have "shelf_ok (Shelves sp ! n)" using wf_packerD(1) [OF assms(1)] n(2) by simp
  with k n that show ?thesis by (auto simp: shelf_ok_def)
qed

lemma placed_None: "wf_packer sp \<Longrightarrow> placed sp i = None \<longleftrightarrow> fmlookup (itemLocation sp) i = None"
proof
  assume wf: "wf_packer sp" and p: "placed sp i = None"
  show "fmlookup (itemLocation sp) i = None"
  proof (rule ccontr)
    assume "fmlookup (itemLocation sp) i \<noteq> None"
    then obtain k where "fmlookup (itemLocation sp) i = Some k" by blast
    with p show False
      by (auto simp: placed_def elim!: loc_ok_lookup [OF wf_packerD(7) [OF wf]])
  qed
qed (simp add: placed_def)

subsection \<open>Insert\<close>

lemma Insert_existing:
  assumes wf: "wf_packer sp" and "nextItemID sp < 2 ^ 63 - 1" and "n < length (Shelves sp)"
    and "fits_shelf w h (Shelves sp ! n)" "is_finite w" "0 < fval w" "fval w \<le> 1" "0 < h"
  defines "it \<equiv> \<lparr>item_ID = nextItemID sp, item_Width = w, item_Height = h\<rparr>"
  defines "sp' \<equiv> sp\<lparr>nextItemID := nextItemID sp + 1,
      Shelves := (Shelves sp)[n := add_item it (Shelves sp ! n)],
      itemLocation := fmupd (nextItemID sp) (int n) (itemLocation sp)\<rparr>"
  shows "wf_packer sp'" "placed sp' = (placed sp)(nextItemID sp \<mapsto> it)"
proof -
  note D = wf_packerD [OF wf]
  have it: "item_ID it = nextItemID sp" by (simp add: it_def)
  have sok: "shelf_ok (add_item it (Shelves sp ! n))"
    using D(1) assms(3-8) by (intro shelf_ok_add) (simp_all add: it_def)
  have ss: "\<forall>s \<in> set (Shelves sp'). shelf_ok s"
    using D(1) sok by (auto simp: sp'_def dest: set_update_subset_insert [THEN subsetD])
  have loc: "loc_ok (Shelves sp') (itemLocation sp')"
    using loc_ok_add [OF D(7) assms(3), of it] wf_fresh [OF wf] by (simp add: sp'_def it)
  have hs: "UsedHeight sp' = sum_list (map shelf_Height (Shelves sp'))"
    using D(2) assms(3) by (simp add: sp'_def sum_list_update_int add_item_def)
  show "wf_packer sp'"
    unfolding wf_packer_def using ss loc hs D(3-6,8) assms(2)
    by (auto simp: sp'_def split: if_splits) (force dest: D(8))
  show "placed sp' = (placed sp)(nextItemID sp \<mapsto> it)"
  proof
    fix i
    show "placed sp' i = ((placed sp)(nextItemID sp \<mapsto> it)) i"
    proof (cases "fmlookup (itemLocation sp) i")
      case None
      then show ?thesis using assms(3) by (simp add: placed_def sp'_def add_item_def it)
    next
      case (Some k)
      obtain m j where "k = int m" "m < length (Shelves sp)"
        using loc_ok_lookup [OF D(7) Some] by metis
      then show ?thesis using wf_fresh [OF wf] Some
        by (cases "m = n") (auto simp: placed_def sp'_def add_item_def it)
    qed
  qed
qed

lemma Insert_new:
  assumes wf: "wf_packer sp" and "nextItemID sp < 2 ^ 63 - 1"
    and "h \<le> MaxHeight sp - UsedHeight sp" "is_finite w" "0 < fval w" "fval w \<le> 1" "0 < h"
  defines "it \<equiv> \<lparr>item_ID = nextItemID sp, item_Width = w, item_Height = h\<rparr>"
  defines "s \<equiv> \<lparr>shelf_Height = h, UsedWidth = w, Items = fmupd (nextItemID sp) it fmempty\<rparr>"
  defines "sp' \<equiv> sp\<lparr>nextItemID := nextItemID sp + 1, Shelves := Shelves sp @ [s],
      UsedHeight := UsedHeight sp + h,
      itemLocation := fmupd (nextItemID sp) (int (length (Shelves sp))) (itemLocation sp)\<rparr>"
  shows "wf_packer sp'" "placed sp' = (placed sp)(nextItemID sp \<mapsto> it)"
proof -
  note D = wf_packerD [OF wf]
  have sok: "shelf_ok s" unfolding s_def it_def using assms(4-7) by (rule shelf_ok_new)
  have loc: "loc_ok (Shelves sp') (itemLocation sp')"
    using loc_ok_snoc [OF D(7) wf_fresh [OF wf], of s] by (simp add: sp'_def s_def)
  show "wf_packer sp'"
    unfolding wf_packer_def using sok loc D(1-6,8) assms(2,3)
    by (auto simp: sp'_def s_def split: if_splits) (force dest: D(8))
  show "placed sp' = (placed sp)(nextItemID sp \<mapsto> it)"
  proof
    fix i
    show "placed sp' i = ((placed sp)(nextItemID sp \<mapsto> it)) i"
    proof (cases "fmlookup (itemLocation sp) i")
      case None
      then show ?thesis by (simp add: placed_def sp'_def s_def)
    next
      case (Some k)
      obtain m j where "k = int m" "m < length (Shelves sp)"
        using loc_ok_lookup [OF D(7) Some] by metis
      then show ?thesis using wf_fresh [OF wf] Some
        by (auto simp: placed_def sp'_def s_def nth_append)
    qed
  qed
qed

text \<open>
  What \<open>Insert\<close> does on every branch: a width or height out of range is refused and changes nothing;
  without room only the counter moves; otherwise the packer stays well-formed and places exactly
  the new item, under the next number.
\<close>

lemma Insert_cases:
  assumes wf: "wf_packer sp" and room: "nextItemID sp < 2 ^ 63 - 1" and nan: "\<not> is_nan w"
  obtains
    (width) "w \<le> Fin 0 \<or> Fin 1 < w" "Insert sp w h = (sp, Inl WidthRange)"
  | (height) "\<not> (w \<le> Fin 0 \<or> Fin 1 < w)" "h \<le> 0 \<or> MaxHeight sp < h"
      "Insert sp w h = (sp, Inl HeightRange)"
  | (full) "\<not> (w \<le> Fin 0 \<or> Fin 1 < w)" "0 < h" "h \<le> MaxHeight sp"
      "\<forall>s \<in> set (Shelves sp). \<not> fits_shelf w h s" "MaxHeight sp - UsedHeight sp < h"
      "Insert sp w h = (sp\<lparr>nextItemID := nextItemID sp + 1\<rparr>, Inl NoSpace)"
  | (old) n where "\<not> (w \<le> Fin 0 \<or> Fin 1 < w)" "0 < h" "h \<le> MaxHeight sp"
      "n < length (Shelves sp)" "fits_shelf w h (Shelves sp ! n)"
      "\<forall>k < n. \<not> fits_shelf w h (Shelves sp ! k)"
      "Insert sp w h = (sp\<lparr>nextItemID := nextItemID sp + 1,
        Shelves := (Shelves sp)[n := add_item \<lparr>item_ID = nextItemID sp, item_Width = w,
          item_Height = h\<rparr> (Shelves sp ! n)],
        itemLocation := fmupd (nextItemID sp) (int n) (itemLocation sp)\<rparr>, Inr (nextItemID sp))"
  | (new) "\<not> (w \<le> Fin 0 \<or> Fin 1 < w)" "0 < h" "h \<le> MaxHeight sp"
      "\<forall>s \<in> set (Shelves sp). \<not> fits_shelf w h s" "h \<le> MaxHeight sp - UsedHeight sp"
      "Insert sp w h = (sp\<lparr>nextItemID := nextItemID sp + 1,
        Shelves := Shelves sp @ [\<lparr>shelf_Height = h, UsedWidth = w, Items = fmupd (nextItemID sp)
          \<lparr>item_ID = nextItemID sp, item_Width = w, item_Height = h\<rparr> fmempty\<rparr>],
        UsedHeight := UsedHeight sp + h,
        itemLocation := fmupd (nextItemID sp) (int (length (Shelves sp))) (itemLocation sp)\<rparr>,
        Inr (nextItemID sp))"
proof -
  note next' = wf_next [OF wf room] and rem = wf_remaining [OF wf]
  have used: "wrap64 (UsedHeight sp + h) = UsedHeight sp + h"
    if "0 < h" "h \<le> MaxHeight sp - UsedHeight sp"
    using that wf_packerD(4) [OF wf] wf_UsedHeight_nonneg [OF wf]
    by (intro wrap64_id) (auto simp: int64_def)
  consider "w \<le> Fin 0 \<or> Fin 1 < w" | "\<not> (w \<le> Fin 0 \<or> Fin 1 < w)" "h \<le> 0 \<or> MaxHeight sp < h"
    | "\<not> (w \<le> Fin 0 \<or> Fin 1 < w)" "0 < h" "h \<le> MaxHeight sp" by linarith
  then show ?thesis
  proof cases
    case 1
    then show ?thesis by (intro width) (auto simp: Insert_def)
  next
    case 2
    then show ?thesis by (intro height) (auto simp: Insert_def)
  next
    case 3
    show ?thesis
    proof (cases "first_fit w h 0 (Shelves sp)")
      case (Some n)
      then have "n < length (Shelves sp)" "fits_shelf w h (Shelves sp ! n)"
          "\<forall>k < n. \<not> fits_shelf w h (Shelves sp ! k)"
        using first_fit_Some [OF Some] by auto
      with 3 Some next' show ?thesis by (intro old [of n]) (auto simp: Insert_def Let_def)
    next
      case None
      then have no: "\<forall>s \<in> set (Shelves sp). \<not> fits_shelf w h s" by (simp add: first_fit_None)
      show ?thesis
      proof (cases "h \<le> MaxHeight sp - UsedHeight sp")
        case True
        with 3 None no next' rem used show ?thesis by (intro new) (auto simp: Insert_def Let_def)
      next
        case False
        with 3 None no next' rem show ?thesis by (intro full) (auto simp: Insert_def Let_def)
      qed
    qed
  qed
qed

lemma wf_skip_id:
  assumes "wf_packer sp" "nextItemID sp < 2 ^ 63 - 1"
  shows "wf_packer (sp\<lparr>nextItemID := nextItemID sp + 1\<rparr>)"
  unfolding wf_packer_def using wf_packerD [OF assms(1)] assms(2) by force

lemma placed_skip_id [simp]: "placed (sp\<lparr>nextItemID := n\<rparr>) = placed sp"
  by (rule ext) (simp add: placed_def cong: option.case_cong)

lemma wf_Insert:
  assumes "wf_packer sp" "nextItemID sp < 2 ^ 63 - 1" "\<not> is_nan w"
  shows "wf_packer (fst (Insert sp w h))"
  using assms
proof (cases rule: Insert_cases [of sp w h])
  case (old n)
  then show ?thesis using Insert_existing(1) [OF assms(1,2), of n w h] unit_interval [OF assms(3)]
    by simp
next
  case new
  then show ?thesis using Insert_new(1) [OF assms(1,2), of h w] unit_interval [OF assms(3)] by simp
qed (simp_all add: assms(1) wf_skip_id [OF assms(1,2)])

lemma placed_Insert:
  assumes "wf_packer sp" "nextItemID sp < 2 ^ 63 - 1" "\<not> is_nan w"
  shows "Insert sp w h = (sp', Inr i) \<Longrightarrow>
      i = nextItemID sp \<and> placed sp i = None \<and>
      placed sp' = (placed sp)(i \<mapsto> \<lparr>item_ID = i, item_Width = w, item_Height = h\<rparr>)"
    and "Insert sp w h = (sp', Inl e) \<Longrightarrow> placed sp' = placed sp"
proof -
  have fresh: "placed sp (nextItemID sp) = None" using assms(1) by (simp add: placed_None wf_fresh)
  show "i = nextItemID sp \<and> placed sp i = None \<and>
      placed sp' = (placed sp)(i \<mapsto> \<lparr>item_ID = i, item_Width = w, item_Height = h\<rparr>)"
    if "Insert sp w h = (sp', Inr i)"
    using assms
  proof (cases rule: Insert_cases [of sp w h])
    case (old n)
    then show ?thesis using that fresh Insert_existing(2) [OF assms(1,2), of n w h]
        unit_interval [OF assms(3)] by simp
  next
    case new
    then show ?thesis using that fresh Insert_new(2) [OF assms(1,2), of h w]
        unit_interval [OF assms(3)] by simp
  qed (use that in simp_all)
  show "placed sp' = placed sp" if "Insert sp w h = (sp', Inl e)"
    using assms by (cases rule: Insert_cases [of sp w h]) (use that in auto)
qed

lemma nextItemID_Insert:
  assumes "wf_packer sp" "nextItemID sp < 2 ^ 63 - 1" "\<not> is_nan w"
  shows "nextItemID (fst (Insert sp w h)) \<le> nextItemID sp + 1"
    "MaxHeight (fst (Insert sp w h)) = MaxHeight sp"
  using assms by (cases rule: Insert_cases [of sp w h]; simp)+

subsection \<open>Remove\<close>

lemma Remove_eq:
  assumes wf: "wf_packer sp" and "fmlookup (itemLocation sp) i = Some (int n)"
    and "n < length (Shelves sp)" and it: "fmlookup (Items (Shelves sp ! n)) i = Some it"
  shows "Remove sp i =
    (if Items (drop_item it i (Shelves sp ! n)) = fmempty
     then sp\<lparr>UsedHeight := UsedHeight sp - shelf_Height (Shelves sp ! n),
             Shelves := take n (Shelves sp) @ drop (Suc n) (Shelves sp),
             itemLocation := renumber (int n) (fmdrop i (itemLocation sp))\<rparr>
     else sp\<lparr>Shelves := (Shelves sp)[n := drop_item it i (Shelves sp ! n)],
             itemLocation := fmdrop i (itemLocation sp)\<rparr>, Inr (int n))"
proof -
  note D = wf_packerD [OF wf]
  have "0 \<le> sum_list (map shelf_Height (take n (Shelves sp) @ drop (Suc n) (Shelves sp)))"
    by (intro sum_list_nonneg) (auto dest!: in_set_takeD in_set_dropD wf_shelf_pos [OF wf])
  then have "0 \<le> UsedHeight sp - shelf_Height (Shelves sp ! n)"
    using sum_list_drop_nth [OF assms(3), of shelf_Height] D(2) by simp
  moreover have "shelf_ok (Shelves sp ! n)" using D(1) assms(3) by simp
  ultimately have "wrap64 (UsedHeight sp - shelf_Height (Shelves sp ! n)) =
      UsedHeight sp - shelf_Height (Shelves sp ! n)"
    using D(3,4) by (intro wrap64_id) (auto simp: int64_def shelf_ok_def)
  moreover have "shelf_Height (drop_item it i (Shelves sp ! n)) = shelf_Height (Shelves sp ! n)"
    by (simp add: drop_item_def)
  ultimately show ?thesis using assms by (simp add: Remove_def Let_def)
qed

lemma Remove_missing: "wf_packer sp \<Longrightarrow> placed sp i = None \<Longrightarrow> Remove sp i = (sp, Inl ItemNotFound)"
  by (simp add: Remove_def placed_None)

lemma Remove_shrink:
  assumes wf: "wf_packer sp" and l: "fmlookup (itemLocation sp) i = Some (int n)"
    and n: "n < length (Shelves sp)" and it: "fmlookup (Items (Shelves sp ! n)) i = Some it"
    and ne: "Items (drop_item it i (Shelves sp ! n)) \<noteq> fmempty"
  defines "sp' \<equiv> sp\<lparr>Shelves := (Shelves sp)[n := drop_item it i (Shelves sp ! n)],
      itemLocation := fmdrop i (itemLocation sp)\<rparr>"
  shows "wf_packer sp'" "placed sp' = (placed sp)(i := None)"
proof -
  note D = wf_packerD [OF wf]
  have "shelf_ok (drop_item it i (Shelves sp ! n))" using D(1) n it ne by (intro shelf_ok_drop) auto
  then have ss: "\<forall>s \<in> set (Shelves sp'). shelf_ok s"
    using D(1) by (auto simp: sp'_def dest: set_update_subset_insert [THEN subsetD])
  have loc: "loc_ok (Shelves sp') (itemLocation sp')"
    using loc_ok_drop [OF D(7) n l] by (simp add: sp'_def)
  have hs: "UsedHeight sp' = sum_list (map shelf_Height (Shelves sp'))"
    using D(2) n by (simp add: sp'_def sum_list_update_int drop_item_def)
  show "wf_packer sp'"
    unfolding wf_packer_def using ss loc hs D(3-6,8)
    by (auto simp: sp'_def fmdrop_lookup_if split: if_splits)
  show "placed sp' = (placed sp)(i := None)"
  proof
    fix j
    show "placed sp' j = ((placed sp)(i := None)) j"
    proof (cases "fmlookup (itemLocation sp) j")
      case None
      then show ?thesis by (simp add: placed_def sp'_def fmdrop_lookup_if)
    next
      case (Some k)
      obtain m where "k = int m" "m < length (Shelves sp)"
        using loc_ok_lookup [OF D(7) Some] by metis
      then show ?thesis using Some
        by (cases "m = n") (auto simp: placed_def sp'_def drop_item_def fmdrop_lookup_if)
    qed
  qed
qed

lemma Remove_collapse:
  assumes wf: "wf_packer sp" and l: "fmlookup (itemLocation sp) i = Some (int n)"
    and n: "n < length (Shelves sp)" and it: "fmlookup (Items (Shelves sp ! n)) i = Some it"
    and e: "Items (drop_item it i (Shelves sp ! n)) = fmempty"
  defines "sp' \<equiv> sp\<lparr>UsedHeight := UsedHeight sp - shelf_Height (Shelves sp ! n),
      Shelves := take n (Shelves sp) @ drop (Suc n) (Shelves sp),
      itemLocation := renumber (int n) (fmdrop i (itemLocation sp))\<rparr>"
  shows "wf_packer sp'" "placed sp' = (placed sp)(i := None)"
proof -
  note D = wf_packerD [OF wf]
  have only: "Items (Shelves sp ! n) = fmupd i it fmempty"
    using e it by (intro fmdrop_eq_empty) (simp_all add: drop_item_def)
  then have dm: "fmdom (Items (Shelves sp ! n)) = {|i|}" by simp
  have ss: "\<forall>s \<in> set (Shelves sp'). shelf_ok s"
    using D(1) by (auto simp: sp'_def dest!: in_set_takeD in_set_dropD)
  have loc: "loc_ok (Shelves sp') (itemLocation sp')"
    using loc_ok_collapse [OF D(7) n dm] by (simp add: sp'_def)
  have hs: "UsedHeight sp' = sum_list (map shelf_Height (Shelves sp'))"
    using D(2) sum_list_drop_nth [OF n, of shelf_Height] by (simp add: sp'_def)
  have "shelf_ok (Shelves sp ! n)" using D(1) n by simp
  then show "wf_packer sp'"
    unfolding wf_packer_def using ss loc hs D(3-6,8)
    by (auto simp: sp'_def renumber_def fmdrop_lookup_if shelf_ok_def split: if_splits)
  show "placed sp' = (placed sp)(i := None)"
  proof
    fix j
    show "placed sp' j = ((placed sp)(i := None)) j"
    proof (cases "fmlookup (itemLocation sp) j")
      case None
      then show ?thesis by (simp add: placed_def sp'_def renumber_def fmdrop_lookup_if)
    next
      case (Some k)
      obtain m where m: "k = int m" "m < length (Shelves sp)"
        using loc_ok_lookup [OF D(7) Some] by metis
      have "m = n \<longleftrightarrow> j = i" using loc_ok_iff [OF D(7), of j n] Some m dm n by auto
      moreover have "(take n (Shelves sp) @ drop (Suc n) (Shelves sp)) !
          (if n < m then m - 1 else m) = Shelves sp ! m" if "m \<noteq> n"
        using that m(2) n by (auto simp: nth_append min_def)
      moreover have "nat (int m - 1) = m - 1" by simp
      ultimately show ?thesis using Some m
        by (auto simp: placed_def sp'_def renumber_def fmdrop_lookup_if)
    qed
  qed
qed

lemma Remove_placed:
  assumes wf: "wf_packer sp" and p: "placed sp i = Some it"
  obtains sp' n where "Remove sp i = (sp', Inr (int n))" "n < length (Shelves sp)"
    "fmlookup (Items (Shelves sp ! n)) i = Some it"
    "wf_packer sp'" "placed sp' = (placed sp)(i := None)"
    "nextItemID sp' = nextItemID sp" "MaxHeight sp' = MaxHeight sp"
proof -
  obtain n where n: "fmlookup (itemLocation sp) i = Some (int n)" "n < length (Shelves sp)"
      "fmlookup (Items (Shelves sp ! n)) i = Some it"
    using placed_Some [OF assms] by metis
  note R = Remove_eq [OF wf n]
  show ?thesis
  proof (cases "Items (drop_item it i (Shelves sp ! n)) = fmempty")
    case True
    with R n that Remove_collapse [OF wf n True] show ?thesis by auto
  next
    case False
    with R n that Remove_shrink [OF wf n False] show ?thesis by auto
  qed
qed

lemma wf_Remove: "wf_packer sp \<Longrightarrow> wf_packer (fst (Remove sp i))"
  by (cases "placed sp i") (auto simp: Remove_missing elim: Remove_placed)

lemma Remove_content:
  assumes "wf_packer sp"
  shows "placed (fst (Remove sp i)) = (placed sp)(i := None)"
    "nextItemID (fst (Remove sp i)) = nextItemID sp" "MaxHeight (fst (Remove sp i)) = MaxHeight sp"
proof -
  have "placed (fst (Remove sp i)) = (placed sp)(i := None) \<and>
      nextItemID (fst (Remove sp i)) = nextItemID sp \<and> MaxHeight (fst (Remove sp i)) = MaxHeight sp"
  proof (cases "placed sp i")
    case None
    then show ?thesis using assms by (auto simp: Remove_missing)
  next
    case (Some it)
    then show ?thesis using assms by (auto elim: Remove_placed)
  qed
  then show "placed (fst (Remove sp i)) = (placed sp)(i := None)"
    "nextItemID (fst (Remove sp i)) = nextItemID sp" "MaxHeight (fst (Remove sp i)) = MaxHeight sp"
    by auto
qed

subsection \<open>CanFit and IsEmpty\<close>

lemma CanFit_iff:
  assumes "wf_packer sp"
  shows "CanFit sp w h = (if (\<exists>s \<in> set (Shelves sp). fits_shelf w h s) \<or>
    h \<le> MaxHeight sp - UsedHeight sp then Inr True else Inl NoSpace)"
  using wf_remaining [OF assms] by (auto simp: CanFit_def list_ex_iff)

lemma IsEmpty_iff: "wf_packer sp \<Longrightarrow> IsEmpty sp \<longleftrightarrow> placed sp = Map.empty"
proof
  assume wf: "wf_packer sp" and e: "IsEmpty sp"
  show "placed sp = Map.empty"
  proof
    fix i
    show "placed sp i = None"
      using e placed_Some [OF wf] by (cases "placed sp i") (auto simp: IsEmpty_def)
  qed
next
  assume wf: "wf_packer sp" and e: "placed sp = Map.empty"
  show "IsEmpty sp"
  proof (rule ccontr)
    assume "\<not> IsEmpty sp"
    then have n: "0 < length (Shelves sp)" by (simp add: IsEmpty_def)
    then have "Items (Shelves sp ! 0) \<noteq> fmempty"
      using wf_packerD(1) [OF wf, of "Shelves sp ! 0"] by (simp add: shelf_ok_def)
    then obtain i where "i |\<in>| fmdom (Items (Shelves sp ! 0))"
      by (metis fmdom_notD fmempty_lookup fmap_ext)
    then have "fmlookup (itemLocation sp) i = Some (int 0)"
      using loc_ok_iff [OF wf_packerD(7) [OF wf], of i 0] n by simp
    then show False using e placed_None [OF wf, of i] by simp
  qed
qed

section \<open>The interface the GPU manager uses\<close>

text \<open>
  Two loops over a store of items: insert the same item up to \<open>n\<close> times, stopping at the first
  error, and remove a list of numbers, ignoring errors.
\<close>

fun insert_loop :: "('p \<Rightarrow> 'p \<times> ('e + int)) \<Rightarrow> nat \<Rightarrow> 'p \<Rightarrow> 'p \<times> int list" where
  "insert_loop ins 0 p = (p, [])"
| "insert_loop ins (Suc n) p =
     (case ins p of
        (p', Inl e) \<Rightarrow> (p', [])
      | (p', Inr i) \<Rightarrow> (case insert_loop ins n p' of (p'', is) \<Rightarrow> (p'', i # is)))"

fun remove_loop :: "('p \<Rightarrow> int \<Rightarrow> 'p \<times> ('e + int)) \<Rightarrow> int list \<Rightarrow> 'p \<Rightarrow> 'p" where
  "remove_loop del [] p = p"
| "remove_loop del (i # is) p = remove_loop del is (fst (del p i))"

text \<open>
  What the loops need of a store: operations keep its invariant; a successful insertion adds one
  item under a fresh number and a failed one adds nothing; a removal takes exactly its number
  away. \<open>ids_left\<close> bounds how many numbers can still be handed out.
\<close>

locale item_store =
  fixes ins :: "'p \<Rightarrow> 'w \<Rightarrow> 'h \<Rightarrow> 'p \<times> ('e + int)"
    and del :: "'p \<Rightarrow> int \<Rightarrow> 'p \<times> ('e + int)"
    and content :: "'p \<Rightarrow> int \<rightharpoonup> 'i"
    and store_inv :: "'p \<Rightarrow> bool"
    and ids_left :: "'p \<Rightarrow> nat"
    and legal :: "'w \<Rightarrow> bool"
    and mk :: "int \<Rightarrow> 'w \<Rightarrow> 'h \<Rightarrow> 'i"
  assumes ins_inv: "store_inv p \<Longrightarrow> 0 < ids_left p \<Longrightarrow> legal w \<Longrightarrow> store_inv (fst (ins p w h))"
    and ins_left: "store_inv p \<Longrightarrow> 0 < ids_left p \<Longrightarrow> legal w \<Longrightarrow>
      ids_left p \<le> Suc (ids_left (fst (ins p w h)))"
    and ins_ok: "store_inv p \<Longrightarrow> 0 < ids_left p \<Longrightarrow> legal w \<Longrightarrow> ins p w h = (p', Inr i) \<Longrightarrow>
      content p i = None \<and> content p' = (content p)(i \<mapsto> mk i w h)"
    and ins_err: "store_inv p \<Longrightarrow> 0 < ids_left p \<Longrightarrow> legal w \<Longrightarrow> ins p w h = (p', Inl e) \<Longrightarrow>
      content p' = content p"
    and del_inv: "store_inv p \<Longrightarrow> store_inv (fst (del p i))"
    and del_content: "store_inv p \<Longrightarrow> content (fst (del p i)) = (content p)(i := None)"
begin

lemma insert_loop_spec:
  assumes "store_inv p" "n \<le> ids_left p" "legal w" "insert_loop (\<lambda>p. ins p w h) n p = (p', is)"
  shows "store_inv p' \<and> length is \<le> n \<and> distinct is \<and> (\<forall>i \<in> set is. content p i = None) \<and>
    content p' = (\<lambda>i. if i \<in> set is then Some (mk i w h) else content p i)"
  using assms
proof (induction n arbitrary: p p' "is")
  case 0
  then show ?case by auto
next
  case (Suc n)
  have left: "0 < ids_left p" using Suc.prems(2) by simp
  obtain q r where q: "ins p w h = (q, r)" by force
  have qi: "store_inv q" using ins_inv [OF Suc.prems(1) left Suc.prems(3), of h] q by simp
  have ql: "n \<le> ids_left q" using ins_left [OF Suc.prems(1) left Suc.prems(3), of h] q Suc.prems(2) by simp
  show ?case
  proof (cases r)
    case (Inl e)
    then show ?thesis using Suc.prems(4) q qi ins_err [OF Suc.prems(1) left Suc.prems(3)]
      by (auto simp: fun_eq_iff)
  next
    case (Inr i)
    obtain p2 is2 where l: "insert_loop (\<lambda>p. ins p w h) n q = (p2, is2)" by force
    have "p' = p2" "is = i # is2" using Suc.prems(4) q Inr l by auto
    moreover have "content p i = None" "content q = (content p)(i \<mapsto> mk i w h)"
      using ins_ok [OF Suc.prems(1) left Suc.prems(3)] q Inr by auto
    moreover have "store_inv p2 \<and> length is2 \<le> n \<and> distinct is2 \<and> (\<forall>i \<in> set is2. content q i = None) \<and>
        content p2 = (\<lambda>i. if i \<in> set is2 then Some (mk i w h) else content q i)"
      using Suc.IH [OF qi ql Suc.prems(3) l] .
    ultimately show ?thesis by (auto simp: fun_eq_iff split: if_splits)
  qed
qed

lemma remove_loop_spec:
  "store_inv p \<Longrightarrow> store_inv (remove_loop del is p) \<and>
    content (remove_loop del is p) = (\<lambda>i. if i \<in> set is then None else content p i)"
proof (induction "is" arbitrary: p)
  case (Cons i "is")
  have "store_inv (fst (del p i))" using Cons.prems by (rule del_inv)
  from Cons.IH [OF this] show ?case using del_content [OF Cons.prems, of i] by (auto simp: fun_eq_iff)
qed auto

text \<open>Inserting and then removing what was inserted, in any order, restores the content.\<close>

lemma insert_remove_roundtrip:
  assumes "store_inv p" "n \<le> ids_left p" "legal w" "insert_loop (\<lambda>p. ins p w h) n p = (p', is)"
    and "set js = set is"
  shows "content (remove_loop del js p') = content p"
  using insert_loop_spec [OF assms(1-4)] remove_loop_spec [of p' js] assms(5)
  by (auto simp: fun_eq_iff)

end

definition ids_left :: "ShelfPacker \<Rightarrow> nat" where
  "ids_left sp = nat (2 ^ 63 - 1 - nextItemID sp)"

definition legal_width :: "float64 \<Rightarrow> bool" where
  "legal_width w \<longleftrightarrow> \<not> is_nan w"

interpretation shelf: item_store Insert Remove placed wf_packer ids_left legal_width
  "\<lambda>i w h. \<lparr>item_ID = i, item_Width = w, item_Height = h\<rparr>"
proof unfold_locales
  fix p :: ShelfPacker and w :: float64 and h i :: int and p' e
  assume wf: "wf_packer p"
  show "wf_packer (fst (Remove p i))" using wf by (rule wf_Remove)
  show "placed (fst (Remove p i)) = (placed p)(i := None)" using wf by (rule Remove_content)
  assume "0 < ids_left p" "legal_width w"
  then have r: "nextItemID p < 2 ^ 63 - 1" "\<not> is_nan w"
    by (simp_all add: ids_left_def legal_width_def)
  show "wf_packer (fst (Insert p w h))" using wf r by (rule wf_Insert)
  show "ids_left p \<le> Suc (ids_left (fst (Insert p w h)))"
    using nextItemID_Insert(1) [OF wf r, of h] by (simp add: ids_left_def)
  show "placed p i = None \<and>
      placed p' = (placed p)(i \<mapsto> \<lparr>item_ID = i, item_Width = w, item_Height = h\<rparr>)"
    if "Insert p w h = (p', Inr i)" using placed_Insert(1) [OF wf r that] by blast
  show "placed p' = placed p" if "Insert p w h = (p', Inl e)"
    using placed_Insert(2) [OF wf r that] .
qed

section \<open>Runs of operations\<close>

datatype packer_op = OpInsert float64 int | OpRemove int | OpReset

fun packer_step :: "ShelfPacker \<Rightarrow> packer_op \<Rightarrow> ShelfPacker" where
  "packer_step sp (OpInsert w h) = fst (Insert sp w h)"
| "packer_step sp (OpRemove i) = fst (Remove sp i)"
| "packer_step sp OpReset = Reset sp"

definition packer_run :: "ShelfPacker \<Rightarrow> packer_op list \<Rightarrow> ShelfPacker" where
  "packer_run sp ops = foldl packer_step sp ops"

fun no_nan_op :: "packer_op \<Rightarrow> bool" where
  "no_nan_op (OpInsert w h) = (\<not> is_nan w)"
| "no_nan_op _ = True"

lemma packer_run_simps [simp]:
  "packer_run sp [] = sp" "packer_run sp (op # ops) = packer_run (packer_step sp op) ops"
  by (simp_all add: packer_run_def)

lemma wf_packer_step:
  assumes "wf_packer sp" "nextItemID sp < 2 ^ 63 - 1" "no_nan_op op"
  shows "wf_packer (packer_step sp op)" "nextItemID (packer_step sp op) \<le> nextItemID sp + 1"
    "MaxHeight (packer_step sp op) = MaxHeight sp"
proof -
  show "wf_packer (packer_step sp op)"
    using assms by (cases op) (auto intro: wf_Insert wf_Remove wf_Reset)
  show "nextItemID (packer_step sp op) \<le> nextItemID sp + 1"
    using assms nextItemID_Insert(1) Remove_content(2) wf_packerD(5) [OF assms(1)]
    by (cases op) (auto simp: Reset_def)
  show "MaxHeight (packer_step sp op) = MaxHeight sp"
    using assms nextItemID_Insert(2) Remove_content(3) by (cases op) (auto simp: Reset_def)
qed

lemma wf_packer_run:
  "wf_packer sp \<Longrightarrow> nextItemID sp + int (length ops) < 2 ^ 63 \<Longrightarrow> list_all no_nan_op ops \<Longrightarrow>
    wf_packer (packer_run sp ops) \<and> MaxHeight (packer_run sp ops) = MaxHeight sp"
proof (induction ops arbitrary: sp)
  case (Cons op ops)
  then have r: "nextItemID sp < 2 ^ 63 - 1" "no_nan_op op" by auto
  note S = wf_packer_step [OF Cons.prems(1) r]
  have "nextItemID (packer_step sp op) + int (length ops) < 2 ^ 63" using S(2) Cons.prems(2) by simp
  with Cons.IH [OF S(1)] Cons.prems(3) S(3) show ?case by simp
qed simp

section \<open>Properties of the packer\<close>

text \<open>
  C18. After any sequence of insertions, removals and resets of a new packer, with no NaN width and
  fewer operations than there are item numbers, the packer is well-formed: the shelves fit into
  the bin, \<open>UsedHeight\<close> is exactly their total height, no shelf is empty or accounts for more
  than width 1, every item lies in the shelf \<open>itemLocation\<close> says, and is no higher than it.
\<close>

theorem packer_run_wf:
  assumes "int64 h" "list_all no_nan_op ops" "int (length ops) < 2 ^ 63 - 1"
  shows "wf_packer (packer_run (NewShelf h) ops) \<and> MaxHeight (packer_run (NewShelf h) ops) = h"
  using wf_packer_run [OF wf_NewShelf [OF assms(1)], of ops] assms(2,3) by (simp add: NewShelf_def)

theorem packer_run_wf_witness:
  "wf_packer (packer_run (NewShelf 10) [OpInsert (f64 (1/2)) 3, OpInsert (f64 (1/4)) 2, OpRemove 1])"
  using packer_run_wf [of 10 "[OpInsert (f64 (1/2)) 3, OpInsert (f64 (1/4)) 2, OpRemove 1]"]
  by (simp add: int64_def f64_eval)



text \<open>
  C25. \<open>Remove\<close>, on every branch. A number that names no item is refused and changes nothing. Otherwise
  the call returns the index of the shelf the item lies in, takes exactly that item away and keeps
  every other item placed as it was, also when the shelf is collapsed and the shelves above it move
  down; a well-formed packer never makes it panic or report missing item data.
\<close>

theorem Remove_spec:
  assumes "wf_packer sp"
  shows "case placed sp i of
      None \<Rightarrow> Remove sp i = (sp, Inl ItemNotFound)
    | Some it \<Rightarrow> \<exists>sp' n. Remove sp i = (sp', Inr (int n)) \<and> n < length (Shelves sp) \<and>
        fmlookup (Items (Shelves sp ! n)) i = Some it \<and> wf_packer sp' \<and>
        placed sp' = (placed sp)(i := None)"
  using assms by (cases "placed sp i") (auto simp: Remove_missing elim: Remove_placed)

theorem Remove_spec_witness:
  "\<exists>sp' n. Remove (fst (Insert (NewShelf 10) (f64 1) 3)) 1 = (sp', Inr (int n)) \<and>
    wf_packer sp' \<and> placed sp' 1 = None"
proof -
  have wf: "wf_packer (fst (Insert (NewShelf 10) (f64 1) 3))"
    by (rule wf_Insert [OF wf_NewShelf]) (simp_all add: int64_def NewShelf_def)
  have "placed (fst (Insert (NewShelf 10) (f64 1) 3)) 1 =
      Some \<lparr>item_ID = 1, item_Width = Fin 1, item_Height = 3\<rparr>"
    by (simp add: placed_def go_eval f64_eval)
  then show ?thesis using Remove_spec [OF wf, of 1] by auto
qed

text \<open>
  \<open>CanFit\<close> predicts \<open>Insert\<close>: for a legal width and height it answers true exactly when an
  insertion would succeed, and otherwise it returns the error the insertion would return.
\<close>

theorem CanFit_predicts_Insert:
  assumes "wf_packer sp" "nextItemID sp < 2 ^ 63 - 1" "\<not> is_nan w"
    and "\<not> (w \<le> f64 0 \<or> w > f64 1)" "0 < h" "h \<le> MaxHeight sp"
  shows "CanFit sp w h = (case snd (Insert sp w h) of Inl e \<Rightarrow> Inl e | Inr i \<Rightarrow> Inr True)"
  using assms(1-3)
proof (cases rule: Insert_cases [of sp w h])
  case (old n)
  then have "\<exists>s \<in> set (Shelves sp). fits_shelf w h s" using nth_mem by blast
  then show ?thesis using old(7) by (simp add: CanFit_iff [OF assms(1)])
qed (use assms in \<open>auto simp: CanFit_iff\<close>)

theorem CanFit_predicts_Insert_witness:
  "CanFit (NewShelf 10) (f64 (1/2)) 3 =
    (case snd (Insert (NewShelf 10) (f64 (1/2)) 3) of Inl e \<Rightarrow> Inl e | Inr i \<Rightarrow> Inr True)"
  by (rule CanFit_predicts_Insert [OF wf_NewShelf]) (simp_all add: NewShelf_def int64_def f64_eval)

lemma renumber_last:
  assumes "loc_ok ss loc" "fmlookup loc i = None"
  shows "renumber (int (length ss)) (fmdrop i (fmupd i (int (length ss)) loc)) = loc"
proof (rule fmap_ext)
  fix j
  show "fmlookup (renumber (int (length ss)) (fmdrop i (fmupd i (int (length ss)) loc))) j =
      fmlookup loc j"
  proof (cases "fmlookup loc j")
    case None
    then show ?thesis by (simp add: renumber_def fmdrop_lookup_if)
  next
    case (Some k)
    obtain m where "k = int m" "m < length ss" using loc_ok_lookup [OF assms(1) Some] by metis
    then show ?thesis using Some assms(2) by (auto simp: renumber_def fmdrop_lookup_if)
  qed
qed

text \<open>Removing the item that was added last to an existing shelf, or that opened the last shelf.\<close>

lemma Remove_added:
  assumes wf: "wf_packer sp" and wf': "wf_packer sp'" and n: "n < length (Shelves sp)"
    and sp': "Shelves sp' = (Shelves sp)[n := add_item it (Shelves sp ! n)]"
      "itemLocation sp' = fmupd (item_ID it) (int n) (itemLocation sp)" "UsedHeight sp' = UsedHeight sp"
    and fresh: "fmlookup (itemLocation sp) (item_ID it) = None"
    and R: "Remove sp' (item_ID it) = (sp'', Inr k)"
  shows "itemLocation sp'' = itemLocation sp" "UsedHeight sp'' = UsedHeight sp"
    "map shelf_Height (Shelves sp'') = map shelf_Height (Shelves sp)"
    "map Items (Shelves sp'') = map Items (Shelves sp)"
proof -
  let ?s = "drop_item it (item_ID it) (add_item it (Shelves sp ! n))"
  have "fmlookup (Items (Shelves sp ! n)) (item_ID it) = None"
    using loc_ok_fresh [OF wf_packerD(7) [OF wf] fresh n] by auto
  then have s: "Items ?s = Items (Shelves sp ! n)" "shelf_Height ?s = shelf_Height (Shelves sp ! n)"
    by (simp_all add: add_item_def drop_item_def fmdrop_upd_fresh)
  have "Items (Shelves sp ! n) \<noteq> fmempty"
    using wf_packerD(1) [OF wf] n by (simp add: shelf_ok_def)
  moreover have "fmlookup (Items (Shelves sp' ! n)) (item_ID it) = Some it"
    using n by (simp add: sp' add_item_def)
  ultimately have "sp'' = sp'\<lparr>Shelves := (Shelves sp')[n := ?s],
      itemLocation := fmdrop (item_ID it) (itemLocation sp')\<rparr>"
    using Remove_eq [OF wf', of "item_ID it" n it] R n s by (simp add: sp')
  then show "itemLocation sp'' = itemLocation sp" "UsedHeight sp'' = UsedHeight sp"
      "map shelf_Height (Shelves sp'') = map shelf_Height (Shelves sp)"
      "map Items (Shelves sp'') = map Items (Shelves sp)"
    using s fresh n by (simp_all add: sp' fmdrop_upd_fresh map_update list_update_same_conv)
qed

lemma Remove_opened:
  assumes wf: "wf_packer sp" and wf': "wf_packer sp'"
    and sp': "Shelves sp' = Shelves sp @ [s]" "Items s = fmupd i it fmempty"
      "itemLocation sp' = fmupd i (int (length (Shelves sp))) (itemLocation sp)"
      "UsedHeight sp' = UsedHeight sp + shelf_Height s"
    and fresh: "fmlookup (itemLocation sp) i = None" and R: "Remove sp' i = (sp'', Inr k)"
  shows "itemLocation sp'' = itemLocation sp" "UsedHeight sp'' = UsedHeight sp"
    "Shelves sp'' = Shelves sp"
  using Remove_eq [OF wf', of i "length (Shelves sp)" it] R
    renumber_last [OF wf_packerD(7) [OF wf] fresh]
  by (auto simp: sp' drop_item_def fmdrop_fmupd)

text \<open>
  Inserting an item and removing it again restores the shelves' heights, the height used and the
  placement of every item; only the item counter has moved on.
\<close>

theorem Insert_Remove_roundtrip:
  assumes wf: "wf_packer sp" and r: "nextItemID sp < 2 ^ 63 - 1" "\<not> is_nan w"
    and I: "Insert sp w h = (sp', Inr i)"
  shows "\<exists>sp'' k. Remove sp' i = (sp'', Inr k) \<and> placed sp'' = placed sp \<and>
    itemLocation sp'' = itemLocation sp \<and> UsedHeight sp'' = UsedHeight sp \<and>
    map shelf_Height (Shelves sp'') = map shelf_Height (Shelves sp) \<and>
    map Items (Shelves sp'') = map Items (Shelves sp)"
proof -
  note P = placed_Insert(1) [OF wf r I]
  have wf': "wf_packer sp'" using wf_Insert [OF wf r, of h] I by simp
  have "placed sp' i = Some \<lparr>item_ID = i, item_Width = w, item_Height = h\<rparr>" using P by simp
  from Remove_placed [OF wf' this] obtain sp'' k where
    R: "Remove sp' i = (sp'', Inr k)" and pl: "placed sp'' = (placed sp')(i := None)" by metis
  have fresh: "fmlookup (itemLocation sp) (nextItemID sp) = None" using wf by (rule wf_fresh)
  have "itemLocation sp'' = itemLocation sp \<and> UsedHeight sp'' = UsedHeight sp \<and>
    map shelf_Height (Shelves sp'') = map shelf_Height (Shelves sp) \<and>
    map Items (Shelves sp'') = map Items (Shelves sp)"
    using wf r
  proof (cases rule: Insert_cases [of sp w h])
    case (old n)
    with I R fresh show ?thesis
      using Remove_added [OF wf wf' old(4), of "\<lparr>item_ID = i, item_Width = w, item_Height = h\<rparr>" sp'' k]
      by auto
  next
    case new
    let ?it = "\<lparr>item_ID = i, item_Width = w, item_Height = h\<rparr>"
    from new I R fresh show ?thesis
      using Remove_opened [OF wf wf', of "\<lparr>shelf_Height = h, UsedWidth = w, Items = fmupd i ?it fmempty\<rparr>"
          i ?it sp'' k] by auto
  qed (use I in auto)
  moreover have "placed sp'' = placed sp" using pl P by (auto simp: fun_eq_iff)
  ultimately show ?thesis using R by blast
qed

theorem Insert_Remove_roundtrip_witness:
  "\<exists>sp'' k. Remove (fst (Insert (NewShelf 10) (f64 1) 3)) 1 = (sp'', Inr k) \<and>
    UsedHeight sp'' = UsedHeight (NewShelf 10)"
proof -
  have I: "Insert (NewShelf 10) (f64 1) 3 = (fst (Insert (NewShelf 10) (f64 1) 3), Inr 1)"
    by (simp add: go_eval f64_eval)
  show ?thesis
    using Insert_Remove_roundtrip [OF wf_NewShelf _ _ I]
    by (auto simp: int64_def NewShelf_def)
qed

text \<open>
  The range check of \<open>Insert\<close> lets NaN through (both comparisons with NaN are false): with a legal
  height and enough remaining height, an item of width NaN opens a new shelf, and no further item
  ever fits into that shelf.
\<close>

theorem Insert_accepts_NaN:
  assumes "wf_packer sp" "nextItemID sp < 2 ^ 63 - 1" "0 < h" "h \<le> MaxHeight sp - UsedHeight sp"
  shows "\<exists>sp' s. Insert sp NaN h = (sp', Inr (nextItemID sp)) \<and> Shelves sp' = Shelves sp @ [s] \<and>
    UsedWidth s = NaN \<and> (\<forall>w h'. \<not> fits_shelf w h' s)"
proof -
  have nan: "x + NaN = NaN" "NaN + x = NaN" for x by (simp_all add: plus_float64_def)
  have "first_fit NaN h 0 (Shelves sp) = None" by (simp add: first_fit_None fits_shelf_def nan)
  then show ?thesis
    using assms wf_UsedHeight_nonneg [OF assms(1)] wf_remaining [OF assms(1)]
    by (auto simp: Insert_def Let_def fits_shelf_def nan)
qed

theorem Insert_accepts_NaN_witness:
  "\<exists>sp'. Insert (NewShelf 100) NaN 5 = (sp', Inr 1)"
  using Insert_accepts_NaN [OF wf_NewShelf, of 100 5] by (auto simp: int64_def NewShelf_def)

end
