(* ===== verification/Shelf_Width.thy ===== *)
theory Shelf_Width
  imports Shelf
begin

text \<open>
  How far \<open>UsedWidth\<close>, a running binary64 sum that \<open>Insert\<close> adds to and \<open>Remove\<close> subtracts from, can be
  from the true total width of the items in a shelf. Every operation adds at most one rounding
  error of \<open>2^-53\<close>; on widths that are multiples of a fixed power of two there is no error at all.
\<close>

section \<open>The true width of a shelf\<close>

definition total_width :: "(int, Item) fmap \<Rightarrow> rat" where
  "total_width m = (\<Sum>i \<in> fmdom' m. fval (item_Width (the (fmlookup m i))))"

lemma total_width_empty [simp]: "total_width fmempty = 0"
  by (simp add: total_width_def)

lemma total_width_upd:
  assumes "fmlookup m i = None"
  shows "total_width (fmupd i it m) = total_width m + fval (item_Width it)"
proof -
  have i: "i \<notin> fmdom' m" using assms by (simp add: fmlookup_dom'_iff)
  have "(\<Sum>j \<in> fmdom' m. fval (item_Width (the (fmlookup (fmupd i it m) j)))) = total_width m"
    unfolding total_width_def using i by (intro sum.cong) auto
  then show ?thesis using i by (simp add: total_width_def)
qed

lemma total_width_drop:
  assumes "fmlookup m i = Some it"
  shows "total_width (fmdrop i m) = total_width m - fval (item_Width it)"
proof -
  have "total_width (fmupd i it (fmdrop i m)) = total_width (fmdrop i m) + fval (item_Width it)"
    by (rule total_width_upd) simp
  moreover have "fmupd i it (fmdrop i m) = m"
    using assms by (intro fmap_ext) (auto simp: fmdrop_lookup_if)
  ultimately show ?thesis by simp
qed

lemma total_width_nonneg:
  assumes "\<And>i it. fmlookup m i = Some it \<Longrightarrow> 0 \<le> fval (item_Width it)"
  shows "0 \<le> total_width m"
  unfolding total_width_def using assms
  by (intro sum_nonneg) (metis fmlookup_dom'_iff option.sel)

lemma total_width_ge_item:
  assumes "fmlookup m i = Some it" "\<And>i it. fmlookup m i = Some it \<Longrightarrow> 0 \<le> fval (item_Width it)"
  shows "fval (item_Width it) \<le> total_width m"
proof -
  have "0 \<le> total_width (fmdrop i m)"
    using assms(2) by (intro total_width_nonneg) (auto simp: fmdrop_lookup_if split: if_splits)
  then show ?thesis using total_width_drop [OF assms(1)] by simp
qed

section \<open>Accumulated rounding error\<close>

definition width_err :: "rat \<Rightarrow> Shelf \<Rightarrow> bool" where
  "width_err d s \<longleftrightarrow> is_finite (UsedWidth s) \<and> \<bar>fval (UsedWidth s) - total_width (Items s)\<bar> \<le> d"

lemma width_err_mono: "width_err d s \<Longrightarrow> d \<le> d' \<Longrightarrow> width_err d' s"
  by (auto simp: width_err_def)

lemma shelf_items_pos: "shelf_ok s \<Longrightarrow> fmlookup (Items s) i = Some it \<Longrightarrow> 0 \<le> fval (item_Width it)"
  by (auto simp: shelf_ok_def item_ok_def less_imp_le)

lemma shelf_total_nonneg: "shelf_ok s \<Longrightarrow> 0 \<le> total_width (Items s)"
  by (rule total_width_nonneg) (rule shelf_items_pos)

text \<open>Bounds on the sum and the difference that the two operations round.\<close>

lemma add_bounds:
  assumes "shelf_ok s" "width_err d s" "d \<le> 1 / 2" "is_finite w" "0 < fval w" "fval w \<le> 1"
    "UsedWidth s + w \<le> Fin 1"
  shows "\<bar>fval (UsedWidth s) + fval w\<bar> < 2"
    "is_finite (UsedWidth s + w)" "fval (UsedWidth s + w) = fl (fval (UsedWidth s) + fval w)"
proof -
  have u: "is_finite (UsedWidth s)" "fval (UsedWidth s) \<le> 1" "- d \<le> fval (UsedWidth s)"
    using assms(1,2) shelf_total_nonneg [OF assms(1)] by (auto simp: width_err_def shelf_ok_def)
  then have le: "\<bar>fval (UsedWidth s) + fval w\<bar> \<le> 2" using assms by simp
  note f = plus_small [OF u(1) assms(4) le]
  then show "is_finite (UsedWidth s + w)" "fval (UsedWidth s + w) = fl (fval (UsedWidth s) + fval w)" .
  have "fl 2 = 2" using fl_of_int [of 2] by simp
  then have "\<not> 2 \<le> fval (UsedWidth s) + fval w"
    using f assms(7) fl.rnd_ge [of 2 "fval (UsedWidth s) + fval w"] by auto
  then show "\<bar>fval (UsedWidth s) + fval w\<bar> < 2" using u assms by simp
qed

lemma sub_bounds:
  assumes "shelf_ok s" "width_err d s" "d \<le> 1 / 2" "fmlookup (Items s) i = Some it"
  shows "\<bar>fval (UsedWidth s) - fval (item_Width it)\<bar> < 2"
    "is_finite (UsedWidth s - item_Width it)"
    "fval (UsedWidth s - item_Width it) = fl (fval (UsedWidth s) - fval (item_Width it))"
proof -
  have u: "is_finite (UsedWidth s)" "fval (UsedWidth s) \<le> 1"
      "total_width (Items s) - d \<le> fval (UsedWidth s)"
    using assms(1,2) shelf_total_nonneg [OF assms(1)] by (auto simp: width_err_def shelf_ok_def)
  moreover have w: "is_finite (item_Width it)" "0 < fval (item_Width it)"
    using assms(1,4) by (auto simp: shelf_ok_def item_ok_def)
  moreover have "fval (item_Width it) \<le> total_width (Items s)"
    using assms(1,4) by (intro total_width_ge_item) (auto intro: shelf_items_pos)
  ultimately show lt: "\<bar>fval (UsedWidth s) - fval (item_Width it)\<bar> < 2" using assms(3) by simp
  show "is_finite (UsedWidth s - item_Width it)"
    "fval (UsedWidth s - item_Width it) = fl (fval (UsedWidth s) - fval (item_Width it))"
    using minus_small [OF u(1) w(1)] lt by auto
qed

lemma width_err_add:
  assumes "shelf_ok s" "width_err d s" "d \<le> 1 / 2" "fits_shelf (item_Width it) (item_Height it) s"
    "is_finite (item_Width it)" "0 < fval (item_Width it)" "fval (item_Width it) \<le> 1"
    "fmlookup (Items s) (item_ID it) = None"
  shows "width_err (d + 1 / 2 ^ 53) (add_item it s)"
proof -
  have "UsedWidth s + item_Width it \<le> Fin 1" using assms(4) by (simp add: fits_shelf_def)
  note B = add_bounds [OF assms(1-3,5-7) this]
  show ?thesis
    using fl.acc_add_err [OF _ B(1), of "total_width (Items s)" d] B(2,3) assms(2,8)
    by (simp add: width_err_def add_item_def total_width_upd)
qed

lemma width_err_drop:
  assumes "shelf_ok s" "width_err d s" "d \<le> 1 / 2" "fmlookup (Items s) i = Some it"
  shows "width_err (d + 1 / 2 ^ 53) (drop_item it i s)"
  using fl.acc_sub_err [OF _ sub_bounds(1) [OF assms], of "total_width (Items s)" d]
    sub_bounds(2,3) [OF assms] assms(2,4)
  by (simp add: width_err_def drop_item_def total_width_drop)

definition packer_err :: "rat \<Rightarrow> ShelfPacker \<Rightarrow> bool" where
  "packer_err d sp \<longleftrightarrow> (\<forall>s \<in> set (Shelves sp). width_err d s)"

lemma packer_err_mono: "packer_err d sp \<Longrightarrow> d \<le> d' \<Longrightarrow> packer_err d' sp"
  by (auto simp: packer_err_def intro: width_err_mono)

lemma packer_err_update:
  "packer_err d sp \<Longrightarrow> width_err (d + 1 / 2 ^ 53) s \<Longrightarrow> x \<in> set ((Shelves sp)[n := s]) \<Longrightarrow>
    width_err (d + 1 / 2 ^ 53) x"
  using set_update_subset_insert [of "Shelves sp" n s] width_err_mono [of d x "d + 1 / 2 ^ 53"]
  by (auto simp: packer_err_def)

lemma packer_err_Insert:
  assumes wf: "wf_packer sp" and r: "nextItemID sp < 2 ^ 63 - 1" "\<not> is_nan w"
    and e: "packer_err d sp" "0 \<le> d" "d \<le> 1 / 2"
  shows "packer_err (d + 1 / 2 ^ 53) (fst (Insert sp w h))"
  using wf r
proof (cases rule: Insert_cases [of sp w h])
  case (old n)
  note U = unit_interval [OF r(2)]
  have "fmlookup (Items (Shelves sp ! n)) (nextItemID sp) = None"
    using loc_ok_fresh [OF wf_packerD(7) [OF wf] wf_fresh [OF wf] old(4)] by auto
  then have "width_err (d + 1 / 2 ^ 53)
      (add_item \<lparr>item_ID = nextItemID sp, item_Width = w, item_Height = h\<rparr> (Shelves sp ! n))"
    using old e U wf_packerD(1) [OF wf] by (intro width_err_add) (auto simp: packer_err_def)
  then show ?thesis using packer_err_update [OF e(1)] old(7) by (auto simp: packer_err_def)
next
  case new
  have "width_err (d + 1 / 2 ^ 53) \<lparr>shelf_Height = h, UsedWidth = w, Items = fmupd (nextItemID sp)
      \<lparr>item_ID = nextItemID sp, item_Width = w, item_Height = h\<rparr> fmempty\<rparr>"
    using new(1) e unit_interval [OF r(2)] by (auto simp: width_err_def total_width_upd)
  moreover have "width_err (d + 1 / 2 ^ 53) s" if "s \<in> set (Shelves sp)" for s
    using e that by (auto simp: packer_err_def intro: width_err_mono)
  ultimately show ?thesis using new(6) by (auto simp: packer_err_def)
qed (use e in \<open>auto simp: packer_err_def intro: width_err_mono\<close>)

lemma packer_err_Remove:
  assumes wf: "wf_packer sp" and e: "packer_err d sp" "0 \<le> d" "d \<le> 1 / 2"
  shows "packer_err (d + 1 / 2 ^ 53) (fst (Remove sp i))"
proof (cases "placed sp i")
  case None
  then show ?thesis using e packer_err_mono by (simp add: Remove_missing [OF wf])
next
  case (Some it)
  obtain n where n: "fmlookup (itemLocation sp) i = Some (int n)" "n < length (Shelves sp)"
      "fmlookup (Items (Shelves sp ! n)) i = Some it"
    using placed_Some [OF wf Some] by metis
  have old: "width_err (d + 1 / 2 ^ 53) s" if "s \<in> set (Shelves sp)" for s
    using e that by (auto simp: packer_err_def intro: width_err_mono)
  have "width_err (d + 1 / 2 ^ 53) (drop_item it i (Shelves sp ! n))"
    using n e wf_packerD(1) [OF wf] by (intro width_err_drop) (auto simp: packer_err_def)
  then show ?thesis
    using Remove_eq [OF wf n] packer_err_update [OF e(1)] old
    by (auto simp: packer_err_def dest: in_set_takeD in_set_dropD)
qed

lemma packer_err_step:
  assumes "wf_packer sp" "nextItemID sp < 2 ^ 63 - 1" "no_nan_op op" "packer_err d sp" "0 \<le> d" "d \<le> 1 / 2"
  shows "packer_err (d + 1 / 2 ^ 53) (packer_step sp op)"
proof (cases op)
  case (OpInsert w h)
  then show ?thesis using assms packer_err_Insert by simp
next
  case (OpRemove i)
  then show ?thesis using assms packer_err_Remove by simp
qed (simp add: Reset_def packer_err_def)

lemma packer_err_run:
  "wf_packer sp \<Longrightarrow> nextItemID sp + int (length ops) < 2 ^ 63 \<Longrightarrow> list_all no_nan_op ops \<Longrightarrow>
    packer_err d sp \<Longrightarrow> 0 \<le> d \<Longrightarrow> d + of_nat (length ops) / 2 ^ 53 \<le> 1 / 2 \<Longrightarrow>
    packer_err (d + of_nat (length ops) / 2 ^ 53) (packer_run sp ops)"
proof (induction ops arbitrary: sp d)
  case (Cons op ops)
  then have r: "nextItemID sp < 2 ^ 63 - 1" "no_nan_op op" by auto
  have sum: "d + of_nat (length (op # ops)) / 2 ^ 53 = (d + 1 / 2 ^ 53) + of_nat (length ops) / 2 ^ 53"
    by (simp add: add_divide_distrib)
  have nn: "0 \<le> of_nat (length ops) / (2 ^ 53 :: rat)" by simp
  have "d + 1 / 2 ^ 53 \<le> 1 / 2" using Cons.prems(6) nn unfolding sum by linarith
  then have d: "d \<le> 1 / 2" by (simp add: field_simps)
  note S = wf_packer_step [OF Cons.prems(1) r]
  have "packer_err (d + 1 / 2 ^ 53) (packer_step sp op)"
    using Cons.prems(1,4,5) r d by (intro packer_err_step)
  moreover have "nextItemID (packer_step sp op) + int (length ops) < 2 ^ 63"
    using S(2) Cons.prems(2) by simp
  ultimately show ?case
    using Cons.IH [OF S(1), of "d + 1 / 2 ^ 53"] Cons.prems(3,5,6) unfolding sum by simp
qed simp

section \<open>Exact widths\<close>

text \<open>Multiples of \<open>2^-k\<close>. Sums and differences of such widths are computed without rounding.\<close>

definition on_grid :: "nat \<Rightarrow> rat \<Rightarrow> bool" where
  "on_grid k r \<longleftrightarrow> of_int \<lfloor>r * 2 ^ k\<rfloor> = r * 2 ^ k"

lemma on_gridE: assumes "on_grid k r" obtains m where "r = of_int m / 2 ^ k"
proof (rule that)
  show "r = of_int \<lfloor>r * 2 ^ k\<rfloor> / 2 ^ k"
    using assms by (simp only: on_grid_def) (simp add: nonzero_mult_div_cancel_right)
qed

lemma on_gridI: "r = of_int m / 2 ^ k \<Longrightarrow> on_grid k r"
  by (simp add: on_grid_def)

lemma on_grid_add: "on_grid k r \<Longrightarrow> on_grid k s \<Longrightarrow> on_grid k (r + s)"
proof (elim on_gridE)
  fix m n assume "r = of_int m / 2 ^ k" "s = of_int n / 2 ^ k"
  then show ?thesis by (intro on_gridI [of _ "m + n"]) (simp add: add_divide_distrib)
qed

lemma on_grid_diff: "on_grid k r \<Longrightarrow> on_grid k s \<Longrightarrow> on_grid k (r - s)"
proof (elim on_gridE)
  fix m n assume "r = of_int m / 2 ^ k" "s = of_int n / 2 ^ k"
  then show ?thesis by (intro on_gridI [of _ "m - n"]) (simp add: diff_divide_distrib)
qed

lemma fl_grid:
  assumes "on_grid k r" "k \<le> 52" "\<bar>r\<bar> \<le> 2" shows "fl r = r"
proof -
  obtain m where m: "r = of_int m / 2 ^ k" using assms(1) by (rule on_gridE)
  have "\<bar>of_int m\<bar> \<le> (2 :: rat) * 2 ^ k" using assms(3) m by (simp add: abs_divide field_simps)
  also have "\<dots> = of_int (2 ^ Suc k)" by simp
  finally have "\<bar>m\<bar> \<le> 2 ^ Suc k" by (simp only: of_int_abs [symmetric] of_int_le_iff)
  also have "(2::int) ^ Suc k \<le> 2 ^ 53" using assms(2) by (intro power_increasing) auto
  finally have "fl (of_int m * 2 powi (- int k)) = of_int m * 2 powi (- int k)"
    using assms(2) by (intro fl_dyadic) auto
  then show ?thesis by (simp add: m power_int_minus divide_inverse)
qed

definition grid_shelf :: "nat \<Rightarrow> Shelf \<Rightarrow> bool" where
  "grid_shelf k s \<longleftrightarrow> width_err 0 s \<and> on_grid k (fval (UsedWidth s)) \<and>
     (\<forall>i it. fmlookup (Items s) i = Some it \<longrightarrow> on_grid k (fval (item_Width it)))"

lemma grid_shelf_add:
  assumes "shelf_ok s" "grid_shelf k s" "k \<le> 52" "fits_shelf (item_Width it) (item_Height it) s"
    "is_finite (item_Width it)" "0 < fval (item_Width it)" "fval (item_Width it) \<le> 1"
    "on_grid k (fval (item_Width it))" "fmlookup (Items s) (item_ID it) = None"
  shows "grid_shelf k (add_item it s)"
proof -
  have "UsedWidth s + item_Width it \<le> Fin 1" using assms(4) by (simp add: fits_shelf_def)
  then have B: "\<bar>fval (UsedWidth s) + fval (item_Width it)\<bar> < 2"
      "is_finite (UsedWidth s + item_Width it)"
      "fval (UsedWidth s + item_Width it) = fl (fval (UsedWidth s) + fval (item_Width it))"
    using add_bounds [OF assms(1) _ _ assms(5-7), of 0] assms(2) by (auto simp: grid_shelf_def)
  have g: "on_grid k (fval (UsedWidth s) + fval (item_Width it))"
    using assms(2,8) by (intro on_grid_add) (auto simp: grid_shelf_def)
  then have "fl (fval (UsedWidth s) + fval (item_Width it)) = fval (UsedWidth s) + fval (item_Width it)"
    using fl_grid [OF g assms(3)] B(1) by simp
  with B g assms(2,8,9) show ?thesis
    by (auto simp: grid_shelf_def width_err_def add_item_def total_width_upd)
qed

lemma grid_shelf_drop:
  assumes "shelf_ok s" "grid_shelf k s" "k \<le> 52" "fmlookup (Items s) i = Some it"
  shows "grid_shelf k (drop_item it i s)"
proof -
  have B: "\<bar>fval (UsedWidth s) - fval (item_Width it)\<bar> < 2"
      "is_finite (UsedWidth s - item_Width it)"
      "fval (UsedWidth s - item_Width it) = fl (fval (UsedWidth s) - fval (item_Width it))"
    using sub_bounds [OF assms(1) _ _ assms(4), of 0] assms(2) by (auto simp: grid_shelf_def)
  have g: "on_grid k (fval (UsedWidth s) - fval (item_Width it))"
    using assms(2,4) by (intro on_grid_diff) (auto simp: grid_shelf_def)
  then have "fl (fval (UsedWidth s) - fval (item_Width it)) = fval (UsedWidth s) - fval (item_Width it)"
    using fl_grid [OF g assms(3)] B(1) by simp
  with B g assms(2,4) show ?thesis
    by (auto simp: grid_shelf_def width_err_def drop_item_def total_width_drop fmdrop_lookup_if
        split: if_splits)
qed

definition grid_packer :: "nat \<Rightarrow> ShelfPacker \<Rightarrow> bool" where
  "grid_packer k sp \<longleftrightarrow> (\<forall>s \<in> set (Shelves sp). grid_shelf k s)"

fun grid_op :: "nat \<Rightarrow> packer_op \<Rightarrow> bool" where
  "grid_op k (OpInsert w h) = (is_finite w \<and> on_grid k (fval w))"
| "grid_op k _ = True"

lemma grid_op_no_nan: "grid_op k op \<Longrightarrow> no_nan_op op"
  by (cases op) (auto dest: finite_cases)

lemma grid_packer_Insert:
  assumes wf: "wf_packer sp" and r: "nextItemID sp < 2 ^ 63 - 1" and k: "k \<le> 52"
    and g: "grid_packer k sp" and w: "is_finite w" "on_grid k (fval w)"
  shows "grid_packer k (fst (Insert sp w h))"
proof -
  have nan: "\<not> is_nan w" using w(1) finite_cases by simp
  show ?thesis
    using wf r nan
  proof (cases rule: Insert_cases [of sp w h])
    case (old n)
    note U = unit_interval [OF nan]
    have "fmlookup (Items (Shelves sp ! n)) (nextItemID sp) = None"
      using loc_ok_fresh [OF wf_packerD(7) [OF wf] wf_fresh [OF wf] old(4)] by auto
    then have "grid_shelf k
        (add_item \<lparr>item_ID = nextItemID sp, item_Width = w, item_Height = h\<rparr> (Shelves sp ! n))"
      using old g k w U wf_packerD(1) [OF wf] by (intro grid_shelf_add) (auto simp: grid_packer_def)
    then show ?thesis using g old(7)
      by (auto simp: grid_packer_def dest!: set_update_subset_insert [THEN subsetD])
  next
    case new
    have "grid_shelf k \<lparr>shelf_Height = h, UsedWidth = w, Items = fmupd (nextItemID sp)
        \<lparr>item_ID = nextItemID sp, item_Width = w, item_Height = h\<rparr> fmempty\<rparr>"
      using w by (auto simp: grid_shelf_def width_err_def total_width_upd)
    with g new(6) show ?thesis by (auto simp: grid_packer_def)
  qed (use g in \<open>auto simp: grid_packer_def\<close>)
qed

lemma grid_packer_Remove:
  assumes wf: "wf_packer sp" and k: "k \<le> 52" and g: "grid_packer k sp"
  shows "grid_packer k (fst (Remove sp i))"
proof (cases "placed sp i")
  case None
  then show ?thesis using g by (simp add: Remove_missing [OF wf])
next
  case (Some it)
  obtain n where n: "fmlookup (itemLocation sp) i = Some (int n)" "n < length (Shelves sp)"
      "fmlookup (Items (Shelves sp ! n)) i = Some it"
    using placed_Some [OF wf Some] by metis
  have "grid_shelf k (drop_item it i (Shelves sp ! n))"
    using n g k wf_packerD(1) [OF wf] by (intro grid_shelf_drop) (auto simp: grid_packer_def)
  then show ?thesis
    using Remove_eq [OF wf n] g
    by (auto simp: grid_packer_def dest: in_set_takeD in_set_dropD
        dest!: set_update_subset_insert [THEN subsetD])
qed

lemma grid_packer_step:
  assumes "wf_packer sp" "k \<le> 52" "grid_packer k sp" "nextItemID sp < 2 ^ 63 - 1" "grid_op k op"
  shows "grid_packer k (packer_step sp op)"
proof (cases op)
  case (OpInsert w h)
  then show ?thesis using assms grid_packer_Insert by simp
next
  case (OpRemove i)
  then show ?thesis using assms grid_packer_Remove by simp
qed (simp add: Reset_def grid_packer_def)

lemma grid_packer_run:
  "wf_packer sp \<Longrightarrow> nextItemID sp + int (length ops) < 2 ^ 63 \<Longrightarrow> list_all (grid_op k) ops \<Longrightarrow>
    k \<le> 52 \<Longrightarrow> grid_packer k sp \<Longrightarrow> grid_packer k (packer_run sp ops)"
proof (induction ops arbitrary: sp)
  case (Cons op ops)
  then have r: "nextItemID sp < 2 ^ 63 - 1" "grid_op k op" by auto
  note S = wf_packer_step [OF Cons.prems(1) r(1) grid_op_no_nan [OF r(2)]]
  have "grid_packer k (packer_step sp op)"
    using Cons.prems(1,4,5) r by (rule grid_packer_step)
  moreover have "nextItemID (packer_step sp op) + int (length ops) < 2 ^ 63"
    using S(2) Cons.prems(2) by simp
  ultimately show ?case using Cons.IH [OF S(1)] Cons.prems(3,4) by simp
qed simp

section \<open>Properties\<close>

text \<open>
  Rounding cannot over-commit a shelf by more than the rounding errors made: after \<open>n\<close>
  operations on a new packer (\<open>n\<close> at most \<open>2^52\<close>), the width a shelf accounts for differs from the
  true total of its items' widths by at most \<open>n / 2^53\<close>, so the true total is at most \<open>1 + n / 2^53\<close>.
\<close>

theorem UsedWidth_drift:
  assumes "int64 h" "list_all no_nan_op ops" "int (length ops) \<le> 2 ^ 52"
    and "s \<in> set (Shelves (packer_run (NewShelf h) ops))"
  shows "\<bar>fval (UsedWidth s) - total_width (Items s)\<bar> \<le> of_nat (length ops) / 2 ^ 53 \<and>
    total_width (Items s) \<le> 1 + of_nat (length ops) / 2 ^ 53"
proof -
  note n = assms(3)
  have "(of_int (int (length ops)) :: rat) \<le> of_int (2 ^ 52)" using n by (simp only: of_int_le_iff)
  then have n': "of_nat (length ops) / 2 ^ 53 \<le> (1 / 2 :: rat)" by simp
  have "packer_err (0 + of_nat (length ops) / 2 ^ 53) (packer_run (NewShelf h) ops)"
    using assms(2) n n' by (intro packer_err_run wf_NewShelf assms(1)) (auto simp: NewShelf_def packer_err_def)
  then have e: "width_err (of_nat (length ops) / 2 ^ 53) s" using assms(4) by (simp add: packer_err_def)
  have "wf_packer (packer_run (NewShelf h) ops)"
    using wf_packer_run [OF wf_NewShelf [OF assms(1)]] assms(2) n by (simp add: NewShelf_def)
  then have "UsedWidth s \<le> Fin 1" using wf_packerD(1) assms(4) by (auto simp: shelf_ok_def)
  then have "\<bar>fval (UsedWidth s) - total_width (Items s)\<bar> \<le> d \<and> total_width (Items s) \<le> 1 + d"
    if "width_err d s" for d
    using that by (auto simp: width_err_def)
  with e show ?thesis by blast
qed

theorem UsedWidth_drift_witness:
  "\<exists>s. s \<in> set (Shelves (packer_run (NewShelf 100) [OpInsert (f64 (1/10)) 5])) \<and>
    \<bar>fval (UsedWidth s) - total_width (Items s)\<bar> \<le> 1 / 2 ^ 53"
proof -
  let ?s = "\<lparr>shelf_Height = 5, UsedWidth = f64 (1/10),
    Items = fmupd 1 \<lparr>item_ID = 1, item_Width = f64 (1/10), item_Height = 5\<rparr> fmempty\<rparr>"
  have s: "?s \<in> set (Shelves (packer_run (NewShelf 100) [OpInsert (f64 (1/10)) 5]))"
    by (simp add: go_eval f64_eval)
  have "int64 100" "list_all no_nan_op [OpInsert (f64 (1/10)) 5]"
      "int (length [OpInsert (f64 (1/10)) 5]) \<le> 2 ^ 52"
    by (simp_all add: int64_def f64_eval)
  from UsedWidth_drift [OF this s]
  have "\<bar>fval (UsedWidth ?s) - total_width (Items ?s)\<bar> \<le> 1 / 2 ^ 53"
    by (simp only: list.size of_nat_Suc of_nat_0 add_0_right) simp
  with s show ?thesis by (intro exI [of _ ?s]) simp
qed

text \<open>
  On widths that are multiples of \<open>2^-k\<close> (\<open>k\<close> at most 52) the accounting is exact: in every
  reachable packer the width a shelf accounts for is the sum of its items' widths, which is at
  most 1.
\<close>

theorem UsedWidth_exact_on_grid:
  assumes "int64 h" "k \<le> 52" "list_all (grid_op k) ops" "int (length ops) < 2 ^ 63 - 1"
    and "s \<in> set (Shelves (packer_run (NewShelf h) ops))"
  shows "fval (UsedWidth s) = total_width (Items s) \<and> total_width (Items s) \<le> 1"
proof -
  have "list_all no_nan_op ops" using assms(3) by (auto simp: list_all_iff dest: grid_op_no_nan)
  then have wf: "wf_packer (packer_run (NewShelf h) ops)"
    using wf_packer_run [OF wf_NewShelf [OF assms(1)]] assms(4) by (simp add: NewShelf_def)
  have "grid_packer k (packer_run (NewShelf h) ops)"
    using assms by (intro grid_packer_run wf_NewShelf) (auto simp: NewShelf_def grid_packer_def)
  then have "width_err 0 s" using assms(5) by (simp add: grid_packer_def grid_shelf_def)
  moreover have "UsedWidth s \<le> Fin 1" using wf_packerD(1) [OF wf assms(5)] by (simp add: shelf_ok_def)
  ultimately show ?thesis by (auto simp: width_err_def)
qed

theorem UsedWidth_exact_on_grid_witness:
  "\<exists>s. s \<in> set (Shelves (packer_run (NewShelf 100) [OpInsert (f64 (1/4)) 5])) \<and>
    fval (UsedWidth s) = total_width (Items s)"
proof -
  let ?s = "\<lparr>shelf_Height = 5, UsedWidth = f64 (1/4),
    Items = fmupd 1 \<lparr>item_ID = 1, item_Width = f64 (1/4), item_Height = 5\<rparr> fmempty\<rparr>"
  have s: "?s \<in> set (Shelves (packer_run (NewShelf 100) [OpInsert (f64 (1/4)) 5]))"
    by (simp add: go_eval f64_eval)
  have "int64 100" "(2::nat) \<le> 52" "list_all (grid_op 2) [OpInsert (f64 (1/4)) 5]"
      "int (length [OpInsert (f64 (1/4)) 5]) < 2 ^ 63 - 1"
    by (simp_all add: int64_def f64_eval on_grid_def)
  from UsedWidth_exact_on_grid [OF this s]
  have "fval (UsedWidth ?s) = total_width (Items ?s)" by (rule conjunct1)
  with s show ?thesis by blast
qed

end
