(* ===== verification/Shelf_Capacity.thy ===== *)
theory Shelf_Capacity
  imports Shelf_Width
begin

text \<open>
  \<open>MaxInsertableItems\<close> is meant to predict how many items of one size can still be inserted. On widths
  that are multiples of a power of two it does so exactly: the number it returns is the number of
  \<open>Insert\<close> calls that succeed. The proof runs through \<open>capacity\<close>, the same count in exact arithmetic,
  which every successful insertion lowers by one and which is 0 exactly when insertion fails.
\<close>

section \<open>Division of grid numbers\<close>

lemma div_le_self_int: "0 \<le> a \<Longrightarrow> 0 < b \<Longrightarrow> a div b \<le> (a::int)"
  using zdiv_mono2 [of a 1 b] by simp

lemma fl_rel_err:
  assumes "0 < q" "-1022 \<le> ilog2 q" shows "fl q \<le> q + q / 2 ^ 53"
proof -
  have b: "2 powi ilog2 q \<le> q" "q < 2 powi (ilog2 q + 1)" using ilog2_bounds [OF assms(1)] by auto
  have "\<bar>fl q - q\<bar> \<le> 2 powi (ilog2 q - 53)" using b(2) assms by (intro fl_err) auto
  also have "\<dots> = 2 powi ilog2 q / 2 ^ 53" by (simp add: powi2_diff)
  also have "\<dots> \<le> q / 2 ^ 53" using b(1) by (simp add: divide_right_mono)
  finally show ?thesis by linarith
qed

lemma floor_fl_quotient:
  assumes "0 \<le> A" "A \<le> 2 ^ k" "0 < W" "W \<le> 2 ^ k" "k \<le> 52"
  shows "\<lfloor>fl (of_int A / of_int W)\<rfloor> = \<lfloor>of_int A / (of_int W :: rat)\<rfloor>"
proof (cases "A = 0")
  case False
  let ?q = "of_int A / of_int W :: rat" and ?n = "A div W"
  have W: "(0::rat) < of_int W" using assms(3) by simp
  have q0: "0 < ?q" using assms False by simp
  have A': "(of_int A :: rat) \<le> 2 ^ k" "(of_int W :: rat) \<le> 2 ^ k"
    using assms(2,4) by (metis of_int_le_iff of_int_numeral of_int_power)+
  have "2 powi (- int k) \<le> ?q"
  proof -
    have "2 powi (- int k) = 1 / (2 ^ k :: rat)" by (simp add: power_int_minus divide_inverse)
    also have "\<dots> \<le> 1 / of_int W" using A'(2) W by (intro divide_left_mono) auto
    also have "\<dots> \<le> ?q" using assms(1) False W by (intro divide_right_mono) auto
    finally show ?thesis .
  qed
  also have "?q < 2 powi (ilog2 ?q + 1)" using ilog2_bounds [OF q0] by simp
  finally have "-1022 \<le> ilog2 ?q" using assms(5) by simp
  then have "fl ?q \<le> ?q + ?q / 2 ^ 53" using q0 by (intro fl_rel_err)
  also have "?q / 2 ^ 53 < 1 / of_int W"
  proof -
    have "(2::rat) ^ k < 2 ^ 53" using assms(5) by (intro power_strict_increasing) auto
    then have "of_int A < (2::rat) ^ 53" using A'(1) by linarith
    then show ?thesis using W by (simp add: divide_simps)
  qed
  finally have "fl ?q < ?q + 1 / of_int W" by simp
  also have "\<dots> = of_int (A + 1) / of_int W" by (simp add: add_divide_distrib)
  also have "\<dots> \<le> of_int (?n + 1)"
  proof -
    have "A + 1 \<le> (?n + 1) * W" using assms(3) by (metis add.commute add1_zle_eq distrib_right
        div_mult_mod_eq mult_1 pos_mod_bound add_strict_left_mono)
    then have "(of_int (A + 1) :: rat) \<le> of_int ((?n + 1) * W)" by (simp only: of_int_le_iff)
    then show ?thesis using W by (simp add: divide_le_eq)
  qed
  finally have ub: "fl ?q < of_int (?n + 1)" .
  have n: "\<lfloor>?q\<rfloor> = ?n" by (rule floor_divide_of_int_eq)
  have "0 \<le> ?n" using assms by (simp add: pos_imp_zdiv_nonneg_iff)
  moreover have "?n \<le> A" using assms by (intro div_le_self_int)
  moreover have "(2::int) ^ k \<le> 2 ^ 53" using assms(5) by (intro power_increasing) auto
  ultimately have "fl (of_int ?n) = of_int ?n" using assms(2) by (intro fl_of_int) linarith
  then have "of_int ?n \<le> fl ?q" using n of_int_floor_le [of ?q] by (intro fl.rnd_ge) auto
  with ub n show ?thesis by (simp add: floor_unique)
qed simp

text \<open>The two conversions of \<open>MaxInsertableItems\<close>: the number of items of width \<open>w\<close> in a free width \<open>a\<close>.\<close>

lemma grid_quotient:
  assumes "on_grid k a" "0 \<le> a" "a \<le> 1" "on_grid k w" "0 < w" "w \<le> 1" "k \<le> 52"
  shows "\<lfloor>fl (a / w)\<rfloor> = \<lfloor>a / w\<rfloor>" "0 \<le> \<lfloor>a / w\<rfloor>" "\<lfloor>a / w\<rfloor> \<le> 2 ^ k" "0 \<le> a / w" "a / w \<le> 2 ^ 52"
proof -
  obtain A where A: "a = of_int A / 2 ^ k" using assms(1) by (rule on_gridE)
  obtain W where W: "w = of_int W / 2 ^ k" using assms(4) by (rule on_gridE)
  have q: "a / w = of_int A / of_int W" by (simp add: A W)
  have "a * 2 ^ k = of_int A" "w * 2 ^ k = of_int W" by (simp_all add: A W)
  moreover have "0 \<le> a * 2 ^ k" "a * 2 ^ k \<le> 1 * 2 ^ k" "0 < w * 2 ^ k" "w * 2 ^ k \<le> 1 * 2 ^ k"
    using assms(2,3,5,6) by (auto intro: mult_right_mono)
  ultimately have "(0::rat) \<le> of_int A" and A2: "of_int A \<le> (2::rat) ^ k"
    and "(0::rat) < of_int W" "of_int W \<le> (2::rat) ^ k" by simp_all
  then have b: "0 \<le> A" "A \<le> 2 ^ k" "0 < W" "W \<le> 2 ^ k"
    by (simp_all add: of_int_le_numeral_power_cancel_iff)
  show "\<lfloor>fl (a / w)\<rfloor> = \<lfloor>a / w\<rfloor>" unfolding q using b assms(7) by (rule floor_fl_quotient)
  have f: "\<lfloor>a / w\<rfloor> = A div W" unfolding q by (rule floor_divide_of_int_eq)
  show "0 \<le> \<lfloor>a / w\<rfloor>" unfolding f using b by (simp add: pos_imp_zdiv_nonneg_iff)
  have "A div W \<le> A" using b by (intro div_le_self_int)
  then show "\<lfloor>a / w\<rfloor> \<le> 2 ^ k" unfolding f using b by simp
  show nn: "0 \<le> a / w" using assms by simp
  have "a / w \<le> of_int A / 1" unfolding q using b by (intro divide_left_mono) auto
  also have "\<dots> \<le> 2 ^ k" using A2 by simp
  also have "\<dots> \<le> 2 ^ 52" using assms(7) by (intro power_increasing) auto
  finally show "a / w \<le> 2 ^ 52" .
qed

lemma int64_below_pow:
  assumes "0 \<le> x" "x \<le> 2 ^ k" "k \<le> 62" shows "int64 x"
proof -
  have "(2::int) ^ k \<le> 2 ^ 62" using assms(3) by (intro power_increasing) auto
  with assms(2) have "x \<le> 2 ^ 62" by linarith
  then show ?thesis using assms(1) by (simp add: int64_def)
qed

lemma int_of_quotient:
  assumes "is_finite x" "is_finite y" "on_grid k (fval x)" "0 \<le> fval x" "fval x \<le> 1"
    "on_grid k (fval y)" "0 < fval y" "fval y \<le> 1" "k \<le> 52"
  shows "int_of_float64 (x / y) = \<lfloor>fval x / fval y\<rfloor>"
proof -
  note G = grid_quotient [OF assms(3-9)]
  have "(2::rat) ^ 52 \<le> 2 ^ 1023" by (intro power_increasing) auto
  then have "\<bar>fval x / fval y\<bar> \<le> 2 ^ 1023" using G(4,5) by linarith
  then have D: "is_finite (x / y)" "fval (x / y) = fl (fval x / fval y)"
    using assms by (auto intro!: divide_finite)
  have t: "trunc (fval (x / y)) = \<lfloor>fval x / fval y\<rfloor>"
    using G(1,4) fl_nonneg by (simp add: D trunc_def)
  have "int64 \<lfloor>fval x / fval y\<rfloor>" using G(2,3) assms(9) by (intro int64_below_pow) auto
  then show ?thesis using D t by (simp add: int_of_float64_def)
qed

section \<open>Capacity in exact arithmetic\<close>

definition shelf_room :: "rat \<Rightarrow> int \<Rightarrow> Shelf \<Rightarrow> int" where
  "shelf_room w h s = (if h \<le> shelf_Height s then \<lfloor>(1 - fval (UsedWidth s)) / w\<rfloor> else 0)"

definition capacity :: "ShelfPacker \<Rightarrow> rat \<Rightarrow> int \<Rightarrow> int" where
  "capacity sp w h = sum_list (map (shelf_room w h) (Shelves sp)) +
     ((MaxHeight sp - UsedHeight sp) div h) * \<lfloor>1 / w\<rfloor>"

lemma grid_shelf_used:
  assumes "shelf_ok s" "grid_shelf k s"
  shows "is_finite (UsedWidth s)" "0 \<le> fval (UsedWidth s)" "fval (UsedWidth s) \<le> 1"
    "on_grid k (fval (UsedWidth s))"
  using assms shelf_total_nonneg [OF assms(1)] by (auto simp: grid_shelf_def width_err_def shelf_ok_def)

lemma on_grid_1: "on_grid k 1"
  by (rule on_gridI [of _ "2 ^ k"]) simp

lemma free_width:
  assumes "shelf_ok s" "grid_shelf k s" "k \<le> 52"
  shows "is_finite (f64 1 - UsedWidth s)" "fval (f64 1 - UsedWidth s) = 1 - fval (UsedWidth s)"
    "on_grid k (1 - fval (UsedWidth s))"
proof -
  note U = grid_shelf_used [OF assms(1,2)]
  show g: "on_grid k (1 - fval (UsedWidth s))" using on_grid_1 U(4) by (rule on_grid_diff)
  have "\<bar>fval (f64 1) - fval (UsedWidth s)\<bar> \<le> 2" using U by simp
  note M = minus_small [OF _ U(1) this]
  then show "is_finite (f64 1 - UsedWidth s)" by simp
  show "fval (f64 1 - UsedWidth s) = 1 - fval (UsedWidth s)"
    using M(2) fl_grid [OF g assms(3)] U by simp
qed

lemma shelf_room_bounds:
  assumes "shelf_ok s" "grid_shelf k s" "k \<le> 52" "on_grid k w" "0 < w" "w \<le> 1"
  shows "0 \<le> shelf_room w h s" "shelf_room w h s \<le> 2 ^ k * shelf_Height s"
proof -
  note U = grid_shelf_used [OF assms(1,2)]
  have G: "0 \<le> \<lfloor>(1 - fval (UsedWidth s)) / w\<rfloor>" "\<lfloor>(1 - fval (UsedWidth s)) / w\<rfloor> \<le> 2 ^ k"
    using grid_quotient(2,3) [OF free_width(3) [OF assms(1-3)] _ _ assms(4-6,3)] U by auto
  then show "0 \<le> shelf_room w h s" by (simp add: shelf_room_def)
  have "(2::int) ^ k * 1 \<le> 2 ^ k * shelf_Height s"
    using assms(1) by (intro mult_left_mono) (auto simp: shelf_ok_def)
  then have "\<lfloor>(1 - fval (UsedWidth s)) / w\<rfloor> \<le> 2 ^ k * shelf_Height s" "0 \<le> 2 ^ k * shelf_Height s"
    using G by linarith+
  then show "shelf_room w h s \<le> 2 ^ k * shelf_Height s" by (simp only: shelf_room_def split: if_split) simp
qed

lemma fits_shelf_iff_room:
  assumes "shelf_ok s" "grid_shelf k s" "k \<le> 52" "is_finite w" "on_grid k (fval w)" "0 < fval w"
    "fval w \<le> 1"
  shows "fits_shelf w h s \<longleftrightarrow> 0 < shelf_room (fval w) h s"
proof -
  note U = grid_shelf_used [OF assms(1,2)]
  have "\<bar>fval (UsedWidth s) + fval w\<bar> \<le> 2" using U assms by simp
  note P = plus_small [OF U(1) assms(4) this]
  have "fl (fval (UsedWidth s) + fval w) = fval (UsedWidth s) + fval w"
    using U assms by (intro fl_grid [OF on_grid_add]) auto
  then have "fits_shelf w h s \<longleftrightarrow> h \<le> shelf_Height s \<and> fval (UsedWidth s) + fval w \<le> 1"
    using P by (simp add: fits_shelf_def)
  also have "\<dots> \<longleftrightarrow> h \<le> shelf_Height s \<and> 1 \<le> (1 - fval (UsedWidth s)) / fval w"
    using assms(6) by (auto simp: le_divide_eq)
  also have "\<dots> \<longleftrightarrow> 0 < shelf_room (fval w) h s"
    by (auto simp: shelf_room_def one_le_floor)
  finally show ?thesis .
qed

text \<open>The count that \<open>MaxInsertableItems\<close> makes over the shelves, without overflow.\<close>

lemma count_fitting_room:
  assumes w: "is_finite w" "on_grid k (fval w)" "0 < fval w" "fval w \<le> 1" and k: "k \<le> 52"
  shows "\<forall>s \<in> set ss. shelf_ok s \<and> grid_shelf k s \<Longrightarrow> 0 \<le> c \<Longrightarrow> 0 \<le> u \<Longrightarrow>
    c + 2 ^ k * sum_list (map shelf_Height ss) < 2 ^ 63 \<Longrightarrow>
    u + sum_list (map shelf_Height ss) < 2 ^ 63 \<Longrightarrow>
    count_fitting w h ss (c, u) =
      (c + sum_list (map (shelf_room (fval w) h) ss), u + sum_list (map shelf_Height ss))"
proof (induction ss arbitrary: c u)
  case (Cons s ss)
  have s: "shelf_ok s" "grid_shelf k s" "0 < shelf_Height s"
    using Cons.prems(1) by (auto simp: shelf_ok_def)
  have rest: "\<forall>s \<in> set ss. shelf_ok s \<and> grid_shelf k s" using Cons.prems(1) by simp
  have nn: "0 \<le> sum_list (map shelf_Height ss)"
    using rest by (intro sum_list_nonneg) (auto simp: shelf_ok_def)
  note U = grid_shelf_used [OF s(1,2)] and F = free_width [OF s(1,2) k]
  note R = shelf_room_bounds [OF s(1,2) k w(2-4), of h]
  have q: "int_of_float64 ((f64 1 - UsedWidth s) / w) = \<lfloor>(1 - fval (UsedWidth s)) / fval w\<rfloor>"
    using int_of_quotient [OF F(1) w(1) _ _ _ w(2-4) k] F U by simp
  have c': "0 \<le> c + shelf_room (fval w) h s" using R(1) Cons.prems(2) by simp
  have c2: "(c + shelf_room (fval w) h s) + 2 ^ k * sum_list (map shelf_Height ss) < 2 ^ 63"
    using R(2) Cons.prems(4) by (simp add: distrib_left)
  have u2: "(u + shelf_Height s) + sum_list (map shelf_Height ss) < 2 ^ 63"
    using Cons.prems(5) by simp
  have pk: "0 \<le> 2 ^ k * sum_list (map shelf_Height ss)" using nn by simp
  have "int64 (c + shelf_room (fval w) h s)" "int64 (u + shelf_Height s)"
    using c' c2 u2 nn pk s(3) Cons.prems(3) unfolding int64_def by linarith+
  then have "count_fitting w h (s # ss) (c, u) =
      count_fitting w h ss (c + shelf_room (fval w) h s, u + shelf_Height s)"
    using q by (auto simp: shelf_room_def wrap64_id)
  also have "\<dots> = (c + shelf_room (fval w) h s + sum_list (map (shelf_room (fval w) h) ss),
      u + shelf_Height s + sum_list (map shelf_Height ss))"
    using c' c2 u2 s(3) Cons.prems(3) by (intro Cons.IH rest) simp_all
  finally show ?case by simp
qed simp

lemma room_sum_bounds:
  assumes "on_grid k w" "0 < w" "w \<le> 1" "k \<le> 52"
  shows "\<forall>s \<in> set ss. shelf_ok s \<and> grid_shelf k s \<Longrightarrow>
    0 \<le> sum_list (map (shelf_room w h) ss) \<and>
    sum_list (map (shelf_room w h) ss) \<le> 2 ^ k * sum_list (map shelf_Height ss)"
proof (induction ss)
  case (Cons s ss)
  then show ?case using shelf_room_bounds [of s k w h] assms by (force simp: distrib_left)
qed simp

text \<open>A packer and an item size for which the count is exact.\<close>

definition exact_size :: "nat \<Rightarrow> ShelfPacker \<Rightarrow> float64 \<Rightarrow> int \<Rightarrow> bool" where
  "exact_size k sp w h \<longleftrightarrow> k \<le> 52 \<and> grid_packer k sp \<and> is_finite w \<and> on_grid k (fval w) \<and>
     0 < fval w \<and> fval w \<le> 1 \<and> 0 < h \<and> h \<le> MaxHeight sp \<and> 2 ^ k * MaxHeight sp < 2 ^ 63"

lemma exact_sizeD:
  assumes "exact_size k sp w h" "wf_packer sp"
  shows "k \<le> 52" "is_finite w" "on_grid k (fval w)" "0 < fval w" "fval w \<le> 1" "0 < h"
    "h \<le> MaxHeight sp" "\<not> is_nan w" "\<not> w \<le> Fin 0" "\<not> Fin 1 < w" "2 ^ k * MaxHeight sp < 2 ^ 63"
    "\<forall>s \<in> set (Shelves sp). shelf_ok s \<and> grid_shelf k s" "grid_packer k sp"
  using assms wf_packerD(1) [OF assms(2)] finite_cases by (auto simp: exact_size_def grid_packer_def)

lemma new_shelves_bounds:
  assumes "wf_packer sp" "exact_size k sp w h"
  defines "R \<equiv> MaxHeight sp - UsedHeight sp"
  shows "0 \<le> R" "0 \<le> (R div h) * \<lfloor>1 / fval w\<rfloor>" "(R div h) * \<lfloor>1 / fval w\<rfloor> \<le> 2 ^ k * R"
proof -
  note E = exact_sizeD [OF assms(2,1)]
  show R: "0 \<le> R" using wf_packerD(3) [OF assms(1)] E by (simp add: R_def)
  have G: "0 \<le> \<lfloor>1 / fval w\<rfloor>" "\<lfloor>1 / fval w\<rfloor> \<le> 2 ^ k"
    using grid_quotient(2,3) [OF on_grid_1 _ _ E(3-5,1)] by simp_all
  have d: "0 \<le> R div h" "R div h \<le> R"
    using R E(6) by (auto simp: pos_imp_zdiv_nonneg_iff intro: div_le_self_int)
  show "0 \<le> (R div h) * \<lfloor>1 / fval w\<rfloor>" using d(1) G(1) by (rule mult_nonneg_nonneg)
  have "(R div h) * \<lfloor>1 / fval w\<rfloor> \<le> R * 2 ^ k" using d G R by (intro mult_mono)
  then show "(R div h) * \<lfloor>1 / fval w\<rfloor> \<le> 2 ^ k * R" by (simp only: mult.commute)
qed

lemma capacity_bounds:
  assumes "wf_packer sp" "exact_size k sp w h"
  shows "0 \<le> capacity sp (fval w) h" "capacity sp (fval w) h < 2 ^ 63"
proof -
  note E = exact_sizeD [OF assms(2,1)] and N = new_shelves_bounds [OF assms]
  have S: "0 \<le> sum_list (map (shelf_room (fval w) h) (Shelves sp))"
    "sum_list (map (shelf_room (fval w) h) (Shelves sp)) \<le> 2 ^ k * UsedHeight sp"
    using room_sum_bounds [OF E(3-5,1,12), of h] wf_packerD(2) [OF assms(1)] by auto
  show "0 \<le> capacity sp (fval w) h" using S N by (simp add: capacity_def)
  have "2 ^ k * UsedHeight sp + 2 ^ k * (MaxHeight sp - UsedHeight sp) = 2 ^ k * MaxHeight sp"
    by (simp add: distrib_left [symmetric])
  then show "capacity sp (fval w) h < 2 ^ 63"
    using S(2) N(3) E(11) unfolding capacity_def by linarith
qed

lemma MaxInsertableItems_capacity:
  assumes "wf_packer sp" "exact_size k sp w h"
  shows "MaxInsertableItems sp w h = capacity sp (fval w) h"
proof -
  note E = exact_sizeD [OF assms(2,1)] and N = new_shelves_bounds [OF assms]
  note C = capacity_bounds [OF assms] and D = wf_packerD [OF assms(1)]
  have pos: "1 * MaxHeight sp \<le> 2 ^ k * MaxHeight sp" "2 ^ k * UsedHeight sp \<le> 2 ^ k * MaxHeight sp"
    using E D(3) by (auto intro!: mult_right_mono mult_left_mono)
  have b: "2 ^ k * sum_list (map shelf_Height (Shelves sp)) < 2 ^ 63"
      "sum_list (map shelf_Height (Shelves sp)) < 2 ^ 63"
    using pos E(11) D(3) E(6,7) unfolding D(2) [symmetric] by linarith+
  have cf: "count_fitting w h (Shelves sp) (0, 0) =
      (sum_list (map (shelf_room (fval w) h) (Shelves sp)), UsedHeight sp)"
    using count_fitting_room [OF E(2-5,1,12), of 0 0 h] b D(2) by simp
  have i: "int_of_float64 (Fin 1 / w) = \<lfloor>1 / fval w\<rfloor>"
    using int_of_quotient [of "Fin 1" w k] on_grid_1 E by simp
  have "0 \<le> sum_list (map (shelf_room (fval w) h) (Shelves sp))"
    using room_sum_bounds [OF E(3-5,1,12), of h] by simp
  then have "int64 ((MaxHeight sp - UsedHeight sp) div h * \<lfloor>1 / fval w\<rfloor>)"
      "int64 (capacity sp (fval w) h)"
    using C N(2) by (auto simp: int64_def capacity_def)
  then show ?thesis
    using E N(1) by (simp add: MaxInsertableItems_def cf i wf_remaining [OF assms(1)] go_div_pos
        wrap64_id capacity_def)
qed

section \<open>Insertion uses up the capacity\<close>

lemma room_after_add:
  assumes "shelf_ok s" "grid_shelf k s" "k \<le> 52" "is_finite w" "on_grid k (fval w)" "0 < fval w"
    "fval w \<le> 1" "fits_shelf w h s"
  shows "shelf_room (fval w) h (add_item \<lparr>item_ID = i, item_Width = w, item_Height = h\<rparr> s) =
    shelf_room (fval w) h s - 1"
proof -
  note U = grid_shelf_used [OF assms(1,2)]
  have "\<bar>fval (UsedWidth s) + fval w\<bar> \<le> 2" using U assms by simp
  note P = plus_small [OF U(1) assms(4) this]
  have e: "fval (UsedWidth s + w) = fval (UsedWidth s) + fval w"
    using P U assms by (simp add: fl_grid [OF on_grid_add])
  have q: "(1 - (fval (UsedWidth s) + fval w)) / fval w = (1 - fval (UsedWidth s)) / fval w - 1"
    using assms(6) by (simp add: diff_divide_distrib add_divide_distrib)
  have "h \<le> shelf_Height s" using assms(8) by (simp add: fits_shelf_def)
  then show ?thesis by (simp add: shelf_room_def add_item_def e q)
qed

lemma capacity_Insert:
  assumes wf: "wf_packer sp" and E: "exact_size k sp w h" and r: "nextItemID sp < 2 ^ 63 - 1"
  shows "(case Insert sp w h of
      (sp', Inl e) \<Rightarrow> e = NoSpace \<and> capacity sp (fval w) h = 0
    | (sp', Inr i) \<Rightarrow> capacity sp' (fval w) h = capacity sp (fval w) h - 1)"
proof -
  note D = exact_sizeD [OF E wf]
  show ?thesis
    using wf r D(8)
  proof (cases rule: Insert_cases [of sp w h])
    case full
    have "shelf_room (fval w) h s = 0" if "s \<in> set (Shelves sp)" for s
      using that full(4) D(12) fits_shelf_iff_room [OF _ _ D(1-5), of s h]
        shelf_room_bounds(1) [OF _ _ D(1,3-5), of s h] by force
    then have "sum_list (map (shelf_room (fval w) h) (Shelves sp)) = 0"
      by (simp add: sum_list_0 cong: map_cong)
    moreover have "(MaxHeight sp - UsedHeight sp) div h = 0"
      using full(5) new_shelves_bounds(1) [OF wf E] by simp
    ultimately show ?thesis using full(6) by (simp add: capacity_def)
  next
    case (old n)
    have "shelf_room (fval w) h (add_item \<lparr>item_ID = nextItemID sp, item_Width = w, item_Height = h\<rparr>
        (Shelves sp ! n)) = shelf_room (fval w) h (Shelves sp ! n) - 1"
      using old D by (intro room_after_add) auto
    then show ?thesis using old(4,7) by (simp add: capacity_def sum_list_update_int)
  next
    case new
    have a: "(MaxHeight sp - (UsedHeight sp + h)) div h = (MaxHeight sp - UsedHeight sp) div h - 1"
      using D(6) div_add_self1 [of h "MaxHeight sp - (UsedHeight sp + h)"] by (simp add: algebra_simps)
    have b: "(1 - fval w) / fval w = 1 / fval w - 1" using D(4) by (simp add: diff_divide_distrib)
    show ?thesis using new(6) by (simp add: capacity_def shelf_room_def a b left_diff_distrib)
  qed (use D in auto)
qed

lemma exact_size_Insert:
  assumes wf: "wf_packer sp" and E: "exact_size k sp w h" and r: "nextItemID sp < 2 ^ 63 - 1"
  shows "exact_size k (fst (Insert sp w h)) w h"
proof -
  note D = exact_sizeD [OF E wf]
  have "grid_packer k (fst (Insert sp w h))" using wf r D by (intro grid_packer_Insert)
  then show ?thesis
    using D nextItemID_Insert(2) [OF wf r D(8), of h] by (simp add: exact_size_def)
qed

lemma insert_loop_capacity:
  "wf_packer sp \<Longrightarrow> exact_size k sp w h \<Longrightarrow> nextItemID sp + int n < 2 ^ 63 \<Longrightarrow>
    int (length (snd (insert_loop (\<lambda>p. Insert p w h) n sp))) = min (int n) (capacity sp (fval w) h)"
proof (induction n arbitrary: sp)
  case 0
  then show ?case using capacity_bounds(1) [OF 0(1,2)] by simp
next
  case (Suc n)
  have r: "nextItemID sp < 2 ^ 63 - 1" using Suc.prems(3) by simp
  note nan = exact_sizeD(8) [OF Suc.prems(2,1)]
  note C = capacity_Insert [OF Suc.prems(1,2) r]
  obtain sp' res where I: "Insert sp w h = (sp', res)" by force
  show ?case
  proof (cases res)
    case (Inl e)
    then show ?thesis using C I by simp
  next
    case (Inr i)
    have "wf_packer sp'" "exact_size k sp' w h"
      using wf_Insert [OF Suc.prems(1) r nan, of h] exact_size_Insert [OF Suc.prems(1,2) r] I by simp_all
    moreover have "nextItemID sp' + int n < 2 ^ 63"
      using nextItemID_Insert(1) [OF Suc.prems(1) r nan, of h] I Suc.prems(3) by simp
    ultimately have "int (length (snd (insert_loop (\<lambda>p. Insert p w h) n sp'))) =
        min (int n) (capacity sp' (fval w) h)" by (rule Suc.IH)
    then show ?thesis using C I Inr by (cases "insert_loop (\<lambda>p. Insert p w h) n sp'") (auto simp: min_def)
  qed
qed

section \<open>Properties\<close>



end
