(* ===== verification/Strconv.thy ===== *)
theory Strconv
  imports Float64 "HOL-Library.Char_ord"
begin

text \<open>
  What the source uses of Go's \<^verbatim>\<open>strings\<close>, \<^verbatim>\<open>strconv\<close> and \<^verbatim>\<open>fmt\<close>: \<^verbatim>\<open>Contains\<close>, \<^verbatim>\<open>Itoa\<close>, \<^verbatim>\<open>Atoi\<close>,
  \<^verbatim>\<open>ParseFloat\<close> and the verb \<^verbatim>\<open>%0.2f\<close>. Strings are lists of bytes. A parser returns None where Go
  returns an error; every caller drops the value then.
\<close>

section \<open>Substrings\<close>

fun prefix_of :: "string \<Rightarrow> string \<Rightarrow> bool" where
  "prefix_of [] s = True"
| "prefix_of (p # ps) [] = False"
| "prefix_of (p # ps) (c # s) = (p = c \<and> prefix_of ps s)"

fun str_contains :: "string \<Rightarrow> string \<Rightarrow> bool" where
  "str_contains [] sub = (sub = [])"
| "str_contains (c # s) sub = (prefix_of sub (c # s) \<or> str_contains s sub)"

lemma prefix_of_iff: "prefix_of p s \<longleftrightarrow> (\<exists>t. s = p @ t)"
  by (induction p s rule: prefix_of.induct) auto

lemma str_contains_iff: "str_contains s sub \<longleftrightarrow> (\<exists>a b. s = a @ sub @ b)"
proof (induction s)
  case (Cons c s)
  have "(\<exists>a b. c # s = a @ sub @ b) \<longleftrightarrow> (\<exists>b. c # s = sub @ b) \<or> (\<exists>a b. s = a @ sub @ b)"
    by (metis append_Cons append_Nil append_eq_Cons_conv)
  then show ?case using Cons.IH by (simp add: prefix_of_iff)
qed simp

section \<open>Integers\<close>

definition is_digit :: "char \<Rightarrow> bool" where
  "is_digit c \<longleftrightarrow> 48 \<le> (of_char c :: nat) \<and> (of_char c :: nat) \<le> 57"

definition digit_val :: "char \<Rightarrow> int" where
  "digit_val c = int (of_char c) - 48"

definition digit_char :: "nat \<Rightarrow> char" where
  "digit_char n = char_of (48 + n mod 10)"

fun nat_digits :: "nat \<Rightarrow> string" where
  "nat_digits n = (if n < 10 then [digit_char n] else nat_digits (n div 10) @ [digit_char (n mod 10)])"

declare nat_digits.simps [simp del]

definition Itoa :: "int \<Rightarrow> string" where
  "Itoa n = (if n < 0 then CHR ''-'' # nat_digits (nat (- n)) else nat_digits (nat n))"

definition digits_val :: "string \<Rightarrow> int" where
  "digits_val s = foldl (\<lambda>a c. 10 * a + digit_val c) 0 s"

text \<open>An optional sign in front of a number.\<close>

fun split_sign :: "string \<Rightarrow> bool \<times> string" where
  "split_sign [] = (False, [])"
| "split_sign (c # s) = (if c = CHR ''-'' then (True, s) else if c = CHR ''+'' then (False, s)
     else (False, c # s))"

definition Atoi :: "string \<Rightarrow> int option" where
  "Atoi s = (case split_sign s of (neg, ds) \<Rightarrow>
     let n = (if neg then - digits_val ds else digits_val ds)
     in if ds \<noteq> [] \<and> list_all is_digit ds \<and> int64 n then Some n else None)"

subsection \<open>Printing and parsing an integer\<close>

lemma digit_char [simp]:
  "is_digit (digit_char n)" "digit_val (digit_char n) = int (n mod 10)"
proof -
  have "n mod 10 < 10" by simp
  then have "(of_char (digit_char n) :: nat) = 48 + n mod 10"
    unfolding digit_char_def by (simp add: take_bit_eq_mod)
  then show "is_digit (digit_char n)" "digit_val (digit_char n) = int (n mod 10)"
    by (simp_all add: is_digit_def digit_val_def)
qed

lemma digits_val_snoc [simp]: "digits_val (s @ [c]) = 10 * digits_val s + digit_val c"
  by (simp add: digits_val_def)

lemma nat_digits_spec:
  "nat_digits n \<noteq> [] \<and> list_all is_digit (nat_digits n) \<and> digits_val (nat_digits n) = int n"
proof (induction n rule: nat_digits.induct)
  case (1 n)
  show ?case
  proof (cases "n < 10")
    case True
    then show ?thesis by (simp add: nat_digits.simps [of n] digits_val_def)
  next
    case False
    have "10 * int (n div 10) + int (n mod 10) = int n"
      by (simp only: zdiv_int zmod_int) (simp only: mult_div_mod_eq of_nat_numeral)
    with False 1 show ?thesis by (simp add: nat_digits.simps [of n])
  qed
qed

lemma split_sign_digit: "is_digit c \<Longrightarrow> split_sign (c # s) = (False, c # s)"
  by (auto simp: is_digit_def)

lemma Atoi_Itoa: "int64 n \<Longrightarrow> Atoi (Itoa n) = Some n"
proof (cases "n < 0")
  case True
  assume "int64 n"
  then show ?thesis using True nat_digits_spec [of "nat (- n)"] by (simp add: Atoi_def Itoa_def)
next
  case False
  assume n: "int64 n"
  obtain c s where cs: "nat_digits (nat n) = c # s"
    using nat_digits_spec [of "nat n"] by (cases "nat_digits (nat n)") auto
  have "split_sign (nat_digits (nat n)) = (False, nat_digits (nat n))"
    using nat_digits_spec [of "nat n"] unfolding cs by (intro split_sign_digit) simp
  then show ?thesis using False n nat_digits_spec [of "nat n"] by (simp add: Atoi_def Itoa_def)
qed

lemma Itoa_inj: "Itoa m = Itoa n \<Longrightarrow> int64 m \<Longrightarrow> int64 n \<Longrightarrow> m = n"
  by (metis Atoi_Itoa option.inject)

lemma Itoa_not_empty [simp]: "Itoa n \<noteq> []"
  using nat_digits_spec by (simp add: Itoa_def)

section \<open>Floating-point numbers\<close>

text \<open>
  \<^verbatim>\<open>ParseFloat\<close> reads, after an optional sign, \<^verbatim>\<open>inf\<close>, \<^verbatim>\<open>infinity\<close> or \<^verbatim>\<open>nan\<close> in any case (\<^verbatim>\<open>nan\<close>
  without a sign), or a decimal mantissa with an optional exponent, or a hexadecimal mantissa
  after \<^verbatim>\<open>0x\<close> with a binary exponent that must be there. The exponent stops growing at 10000.
  Underscores are allowed between digits. The result is the correctly rounded number; one that
  rounds to an infinity is a range error.
\<close>

definition to_lower :: "char \<Rightarrow> char" where
  "to_lower c = (if 65 \<le> (of_char c :: nat) \<and> (of_char c :: nat) \<le> 90 then char_of ((of_char c :: nat) + 32) else c)"

definition is_hex_letter :: "char \<Rightarrow> bool" where
  "is_hex_letter c \<longleftrightarrow> to_lower c \<in> set ''abcdef''"

definition hex_val :: "char \<Rightarrow> int" where
  "hex_val c = (if is_digit c then digit_val c else int (of_char (to_lower c)) - 87)"

text \<open>The mantissa as an integer, the number of digits after the point, whether a digit was seen,
  and the rest of the input.\<close>

fun scan_mantissa :: "bool \<Rightarrow> string \<Rightarrow> bool \<Rightarrow> bool \<Rightarrow> int \<Rightarrow> nat \<Rightarrow> int \<times> nat \<times> bool \<times> string" where
  "scan_mantissa hex [] sawdot sawdigits m fd = (m, fd, sawdigits, [])"
| "scan_mantissa hex (c # s) sawdot sawdigits m fd =
     (if c = CHR ''_'' then scan_mantissa hex s sawdot sawdigits m fd
      else if c = CHR ''.'' then
        (if sawdot then (m, fd, sawdigits, c # s) else scan_mantissa hex s True sawdigits m fd)
      else if is_digit c \<or> (hex \<and> is_hex_letter c) then
        scan_mantissa hex s sawdot True ((if hex then 16 else 10) * m + hex_val c)
          (if sawdot then Suc fd else fd)
      else (m, fd, sawdigits, c # s))"

fun scan_exponent :: "string \<Rightarrow> int \<Rightarrow> int \<times> string" where
  "scan_exponent [] e = (e, [])"
| "scan_exponent (c # s) e =
     (if c = CHR ''_'' then scan_exponent s e
      else if is_digit c then scan_exponent s (if e < 10000 then e * 10 + digit_val c else e)
      else (e, c # s))"

text \<open>\<^verbatim>\<open>underscoreOK\<close>: every underscore stands between digits; a base prefix counts as a digit. The state
  is the kind of the last character: \<^verbatim>\<open>0\<close> a digit, \<^verbatim>\<open>_\<close> an underscore, \<^verbatim>\<open>!\<close> anything else, \<^verbatim>\<open>^\<close> the
  beginning.\<close>

fun underscore_scan :: "bool \<Rightarrow> char \<Rightarrow> string \<Rightarrow> bool" where
  "underscore_scan hex i [] = (i \<noteq> CHR ''_'')"
| "underscore_scan hex i (c # s) =
     (if is_digit c \<or> (hex \<and> is_hex_letter c) then underscore_scan hex (CHR ''0'') s
      else if c = CHR ''_'' then i = CHR ''0'' \<and> underscore_scan hex (CHR ''_'') s
      else i \<noteq> CHR ''_'' \<and> underscore_scan hex (CHR ''!'') s)"

definition underscore_ok :: "string \<Rightarrow> bool" where
  "underscore_ok s = (let s1 = snd (split_sign s) in
     case s1 of
       c # d # t \<Rightarrow>
         if c = CHR ''0'' \<and> to_lower d \<in> set ''box'' then underscore_scan (to_lower d = CHR ''x'') (CHR ''0'') t
         else underscore_scan False (CHR ''^'') s1
     | _ \<Rightarrow> underscore_scan False (CHR ''^'') s1)"

text \<open>The optional exponent: None is a syntax error.\<close>

definition parse_exponent :: "bool \<Rightarrow> string \<Rightarrow> (int \<times> string) option" where
  "parse_exponent hex s = (case s of
     c # t \<Rightarrow>
       if to_lower c = (if hex then CHR ''p'' else CHR ''e'') then
         (case split_sign t of (neg, u) \<Rightarrow>
            case u of
              d # _ \<Rightarrow> if is_digit d then (case scan_exponent u 0 of (e, r) \<Rightarrow> Some (if neg then - e else e, r))
                        else None
            | [] \<Rightarrow> None)
       else if hex then None else Some (0, s)
   | [] \<Rightarrow> if hex then None else Some (0, []))"

definition ParseFloat :: "string \<Rightarrow> float64 option" where
  "ParseFloat s = (case split_sign s of (neg, body) \<Rightarrow>
     let low = map to_lower body in
     if low = ''inf'' \<or> low = ''infinity'' then Some (signed_inf neg)
     else if map to_lower s = ''nan'' then Some NaN
     else
       let hex = (case body of c # d # _ # _ \<Rightarrow> c = CHR ''0'' \<and> to_lower d = CHR ''x'' | _ \<Rightarrow> False)
       in case scan_mantissa hex (if hex then drop 2 body else body) False False 0 0 of (m, fd, sawdigits, rest) \<Rightarrow>
         if \<not> sawdigits then None
         else case parse_exponent hex rest of
           None \<Rightarrow> None
         | Some (e, rest') \<Rightarrow>
             if rest' \<noteq> [] \<or> (CHR ''_'' \<in> set s \<and> \<not> underscore_ok s) then None
             else
               let r = (if hex then of_int m * 2 powi (e - 4 * int fd) else of_int m * 10 powi (e - int fd));
                   x = round64 neg (if neg then - r else r)
               in if is_inf x then None else Some x)"

text \<open>\<^verbatim>\<open>%0.2f\<close>: the exact value rounded to hundredths, ties to even.\<close>

definition fmt_2f :: "float64 \<Rightarrow> string" where
  "fmt_2f x = (case x of
     NaN \<Rightarrow> ''NaN'' | PosInf \<Rightarrow> ''+Inf'' | NegInf \<Rightarrow> ''-Inf''
   | _ \<Rightarrow> (let n = nat (rne (\<bar>fval x\<bar> * 100)) in
       (if signbit x then ''-'' else '''') @ nat_digits (n div 100) @ ''.'' @
         [digit_char (n mod 100 div 10), digit_char (n mod 10)]))"

lemma digit_chars [go_eval]:
  "digit_char 0 = CHR ''0''" "digit_char 1 = CHR ''1''" "digit_char (Suc 0) = CHR ''1''"
  "digit_char 2 = CHR ''2''" "digit_char 3 = CHR ''3''" "digit_char 4 = CHR ''4''"
  "digit_char 5 = CHR ''5''" "digit_char 6 = CHR ''6''" "digit_char 7 = CHR ''7''"
  "digit_char 8 = CHR ''8''" "digit_char 9 = CHR ''9''"
  by (simp_all add: digit_char_def char_of_def bit_Suc_0_iff)

lemma nat_digits_eval [go_eval]:
  "nat_digits 0 = [digit_char 0]" "nat_digits (Suc 0) = [digit_char 1]"
  "nat_digits (numeral k) = (if numeral k < (10::nat) then [digit_char (numeral k)]
     else nat_digits (numeral k div 10) @ [digit_char (numeral k mod 10)])"
  by (simp_all add: nat_digits.simps)

lemmas strconv_eval [go_eval] =
  is_digit_def digit_val_def Itoa_def digits_val_def Atoi_def to_lower_def
  is_hex_letter_def hex_val_def underscore_ok_def parse_exponent_def ParseFloat_def fmt_2f_def

end
