(* ===== verification/Gpu_Manager.thy ===== *)
theory Gpu_Manager
  imports Shelf_Capacity Strconv
begin

text \<open>
  \<^verbatim>\<open>internal/controller/gpu_manager.go\<close>: a GPU with its shelf packer and memory account, and the
  operations that commit, reduce and give back a configuration. A method that changes the GPU and
  the configuration it is given returns both. The packer is owned by its GPU, so it is part of the
  record. A \<^verbatim>\<open>range\<close> over the map \<open>shelfItems\<close> takes the order in which Go visits the keys as an
  argument. \<open>AllocationType\<close> is a string type of the package \<^verbatim>\<open>types\<close>.
\<close>

section \<open>Data\<close>

record GPUInfo =
  virtual :: bool
  profileID :: "int option"
  smCount :: int
  allocationType :: string
  GPUType :: string
  gpu_UUID :: string
  TotalMemory :: int
  gpu_Name :: string
  ParentUUID :: string
  TotalSMPercentage :: int
  gpu_NodeName :: string
  Usage :: ShelfPacker
  SMAllocationGranularity :: int
  UsageMemory :: int
  costPerSecond :: int

text \<open>
  A configuration refers to its GPU by address (\<^verbatim>\<open>associatedGpu *GPUInfo\<close>): the map of a node and
  several configurations share one GPU.
\<close>

type_synonym gpu_addr = nat

record Config =
  cfg_AllocationType :: string
  cfg_UUID :: string
  QuotaReq :: float64
  QuotaLimit :: float64
  MemoryReq :: int
  SMPartition :: int
  cfg_NodeName :: string
  VGPUUUID :: string
  associatedGpu :: gpu_addr
  RequiredReplica :: int
  SatisfiableRPS :: float64
  QpsPerReplica :: float64
  Cost :: float64
  remainingRPS :: float64
  AllocatedReplica :: int
  AllocatedRPS :: float64
  shelfItems :: "(int, bool) fmap"
  efficiencyScore :: float64

section \<open>Operations\<close>

definition GetTypeShortName :: "GPUInfo \<Rightarrow> string" where
  "GetTypeShortName g =
    (if str_contains (GPUType g) ''A100'' then ''a100''
     else if str_contains (GPUType g) ''T1000'' then ''t1000''
     else if str_contains (GPUType g) ''V100'' then ''v100''
     else if str_contains (GPUType g) ''2080 Ti'' then ''rtx2080ti''
     else '''')"

definition AvailableMemory :: "GPUInfo \<Rightarrow> int" where
  "AvailableMemory g = wrap64 (TotalMemory g - UsageMemory g)"

text \<open>The loop that inserts one item per replica, with the number of successful insertions so far; the
  first failure gives back the memory of the replicas that are missing and ends the loop.\<close>

fun allocate_loop :: "nat \<Rightarrow> GPUInfo \<Rightarrow> Config \<Rightarrow> int \<Rightarrow> GPUInfo \<times> Config \<times> int" where
  "allocate_loop 0 g config successfulReplicas = (g, config, successfulReplicas)"
| "allocate_loop (Suc n) g config successfulReplicas =
     (case Insert (Usage g) (QuotaReq config) (SMPartition config) of
        (usage, Inl err) \<Rightarrow>
          (g\<lparr>Usage := usage, UsageMemory := wrap64 (UsageMemory g +
               wrap64 (MemoryReq config * wrap64 (RequiredReplica config - successfulReplicas)))\<rparr>,
           config, successfulReplicas)
      | (usage, Inr itemId) \<Rightarrow>
          allocate_loop n (g\<lparr>Usage := usage\<rparr>)
            (config\<lparr>shelfItems := fmupd itemId True (shelfItems config)\<rparr>) (successfulReplicas + 1))"

definition AllocateAndCommitConfig :: "GPUInfo \<Rightarrow> Config \<Rightarrow> GPUInfo \<times> Config \<times> bool" where
  "AllocateAndCommitConfig g config =
    (let g = g\<lparr>allocationType := cfg_AllocationType config\<rparr>;
         g = g\<lparr>UsageMemory := wrap64 (UsageMemory g - wrap64 (MemoryReq config * RequiredReplica config))\<rparr>;
         (g, config, successfulReplicas) = allocate_loop (nat (RequiredReplica config)) g config 0;
         config = config\<lparr>AllocatedReplica := successfulReplicas\<rparr>;
         config = config\<lparr>AllocatedRPS := QpsPerReplica config * float64_of_int (AllocatedReplica config)\<rparr>
     in (g, config, \<not> successfulReplicas < RequiredReplica config))"

fun deallocate_loop :: "int list \<Rightarrow> GPUInfo \<Rightarrow> Config \<Rightarrow> GPUInfo \<times> Config" where
  "deallocate_loop [] g config = (g, config)"
| "deallocate_loop (itemId # order) g config =
     deallocate_loop order (g\<lparr>Usage := fst (Remove (Usage g) itemId)\<rparr>)
       (config\<lparr>shelfItems := fmdrop itemId (shelfItems config)\<rparr>)"

definition DeallocateConfig :: "int list \<Rightarrow> GPUInfo \<Rightarrow> Config \<Rightarrow> GPUInfo \<times> Config \<times> bool" where
  "DeallocateConfig order g config =
    (let (g, config) = deallocate_loop order g config;
         g = g\<lparr>UsageMemory := wrap64 (UsageMemory g + wrap64 (MemoryReq config * AllocatedReplica config))\<rparr>
     in (g, config, IsEmpty (Usage g)))"

fun reduce_loop :: "int list \<Rightarrow> int \<Rightarrow> int \<Rightarrow> GPUInfo \<Rightarrow> Config \<Rightarrow> GPUInfo \<times> Config" where
  "reduce_loop [] replicaReduceCount removalCount g config = (g, config)"
| "reduce_loop (itemId # order) replicaReduceCount removalCount g config =
     (if removalCount < replicaReduceCount
      then reduce_loop order replicaReduceCount (removalCount + 1)
             (g\<lparr>Usage := fst (Remove (Usage g) itemId)\<rparr>)
             (config\<lparr>shelfItems := fmdrop itemId (shelfItems config)\<rparr>)
      else (g, config))"

definition ReduceConfig :: "int list \<Rightarrow> GPUInfo \<Rightarrow> Config \<Rightarrow> int \<Rightarrow> GPUInfo \<times> Config \<times> bool" where
  "ReduceConfig order g config newReplicaCount =
    (let replicaReduceCount = wrap64 (AllocatedReplica config - newReplicaCount) in
     if replicaReduceCount = 0 then (g, config, IsEmpty (Usage g))
     else
       let g = g\<lparr>UsageMemory := wrap64 (UsageMemory g - wrap64 (MemoryReq config * replicaReduceCount))\<rparr>;
           (g, config) = reduce_loop order replicaReduceCount 0 g config
       in (g, config, IsEmpty (Usage g)))"

definition costsPerSecondMap :: "(string \<times> int) list" where
  "costsPerSecondMap = [(''a100'', 12000), (''t1000'', 477), (''v100'', 4500), (''rtx2080ti'', 1000)]"

definition GetCost :: "string \<Rightarrow> int" where
  "GetCost shortName = (case map_of costsPerSecondMap shortName of None \<Rightarrow> 10000 | Some cost \<Rightarrow> cost)"

definition NewGPUDevInfo :: "string \<Rightarrow> string \<Rightarrow> bool \<Rightarrow> int option \<Rightarrow> string \<Rightarrow> int \<Rightarrow> int \<Rightarrow> int \<Rightarrow> GPUInfo" where
  "NewGPUDevInfo nodeName gpuType virt profile uuid mem totalSMPercentage smAllocationGranularity =
    (let gpuDevInfo = \<lparr>virtual = virt, profileID = profile, smCount = 0, allocationType = '''',
           GPUType = gpuType, gpu_UUID = uuid, TotalMemory = mem, gpu_Name = '''', ParentUUID = '''',
           TotalSMPercentage = totalSMPercentage, gpu_NodeName = nodeName,
           Usage = NewShelf totalSMPercentage, SMAllocationGranularity = smAllocationGranularity,
           UsageMemory = 0, costPerSecond = 0\<rparr>
     in gpuDevInfo\<lparr>costPerSecond := GetCost (GetTypeShortName gpuDevInfo)\<rparr>)"

definition FitsMemory :: "GPUInfo \<Rightarrow> int \<Rightarrow> bool" where
  "FitsMemory g memory \<longleftrightarrow> memory \<le> TotalMemory g"

definition FitsSM :: "GPUInfo \<Rightarrow> int \<Rightarrow> bool" where
  "FitsSM g smPercentage \<longleftrightarrow> smPercentage \<le> TotalSMPercentage g"

datatype fits_error = SMOver100 | MemoryShort | QuotaOver1 | ShelfError shelf_error | CannotFit

definition Fits :: "GPUInfo \<Rightarrow> int \<Rightarrow> float64 \<Rightarrow> int \<Rightarrow> fits_error + bool" where
  "Fits g smPercentage quota memory =
    (if smPercentage > 100 then Inl SMOver100
     else if memory > AvailableMemory g then Inl MemoryShort
     else if quota > f64 1 then Inl QuotaOver1
     else case CanFit (Usage g) quota smPercentage of
       Inl err \<Rightarrow> Inl (ShelfError err)
     | Inr canFit \<Rightarrow> if \<not> canFit then Inl CannotFit else Inr True)"

lemmas gpu_eval [go_eval] =
  GetTypeShortName_def AvailableMemory_def AllocateAndCommitConfig_def DeallocateConfig_def ReduceConfig_def
  costsPerSecondMap_def GetCost_def NewGPUDevInfo_def FitsMemory_def FitsSM_def Fits_def

section \<open>The loops in terms of the packer's\<close>

lemma wrap64_scaled: "wrap64 (u - m * r + m * wrap64 (r - k)) = wrap64 (u - m * k)"
proof -
  have "wrap64 (m * wrap64 x) = wrap64 (m * x)" for x
    unfolding wrap64_eq_iff by (metis mod_mult_right_eq wrap64_mod)
  then have "wrap64 (u - m * r + m * wrap64 (r - k)) = wrap64 (u - m * r + m * (r - k))"
    by (metis wrap64_add_right)
  then show ?thesis by (simp add: algebra_simps)
qed

definition add_ids :: "int list \<Rightarrow> (int, bool) fmap \<Rightarrow> (int, bool) fmap" where
  "add_ids is m = fold (\<lambda>i. fmupd i True) is m"

lemma add_ids_simps [simp]: "add_ids [] m = m" "add_ids (i # is) m = add_ids is (fmupd i True m)"
  by (simp_all add: add_ids_def)

lemma add_ids_lookup: "fmlookup (add_ids is m) i = (if i \<in> set is then Some True else fmlookup m i)"
  by (induction "is" arbitrary: m) auto

lemma allocate_loop_eq:
  "insert_loop (\<lambda>p. Insert p (QuotaReq c) (SMPartition c)) n (Usage g) = (p, is) \<Longrightarrow>
    allocate_loop n g c k =
      (g\<lparr>Usage := p, UsageMemory := (if length is < n then wrap64 (UsageMemory g + wrap64 (MemoryReq c *
          wrap64 (RequiredReplica c - (k + int (length is))))) else UsageMemory g)\<rparr>,
       c\<lparr>shelfItems := add_ids is (shelfItems c)\<rparr>, k + int (length is))"
proof (induction n arbitrary: g c k p "is")
  case (Suc n)
  obtain q r where q: "Insert (Usage g) (QuotaReq c) (SMPartition c) = (q, r)" by force
  show ?case
  proof (cases r)
    case (Inl e)
    then show ?thesis using Suc.prems q by simp
  next
    case (Inr i)
    obtain p2 is2 where l: "insert_loop (\<lambda>p. Insert p (QuotaReq c) (SMPartition c)) n q = (p2, is2)" by force
    then have "p = p2" "is = i # is2" using Suc.prems q Inr by auto
    then show ?thesis
      using Suc.IH [of "c\<lparr>shelfItems := fmupd i True (shelfItems c)\<rparr>" "g\<lparr>Usage := q\<rparr>" p2 is2 "k + 1"] l q Inr
      by (simp add: algebra_simps)
  qed
qed simp

lemma deallocate_loop_eq:
  "deallocate_loop order g c = (g\<lparr>Usage := remove_loop Remove order (Usage g)\<rparr>,
     c\<lparr>shelfItems := fold fmdrop order (shelfItems c)\<rparr>)"
  by (induction order arbitrary: g c) auto

lemma reduce_loop_eq:
  "reduce_loop order r k g c = (g\<lparr>Usage := remove_loop Remove (take (nat (r - k)) order) (Usage g)\<rparr>,
     c\<lparr>shelfItems := fold fmdrop (take (nat (r - k)) order) (shelfItems c)\<rparr>)"
proof (induction order arbitrary: k g c)
  case (Cons i order)
  show ?case
  proof (cases "k < r")
    case True
    then have "nat (r - k) = Suc (nat (r - (k + 1)))" by simp
    then show ?thesis using True Cons.IH by simp
  qed simp
qed simp

lemma fold_fmdrop_lookup: "fmlookup (fold fmdrop is m) i = (if i \<in> set is then None else fmlookup m i)"
  by (induction "is" arbitrary: m) (auto simp: fmdrop_lookup_if)

lemma range_order_length: "range_order ks m \<Longrightarrow> gm_len m = length ks"
  by (metis distinct_card fcard.rep_eq fset_of_list.rep_eq gm_len_def range_order_def)

lemma range_order_drop:
  assumes "range_order (ks @ ls) m" shows "range_order ls (fold fmdrop ks m)"
proof -
  have "fmdom (fold fmdrop ks m) = fset_of_list ls"
  proof (rule fset_eqI)
    fix x
    have "x |\<in>| fmdom m \<longleftrightarrow> x \<in> set ks \<or> x \<in> set ls" "\<not> (x \<in> set ks \<and> x \<in> set ls)"
      using assms by (auto simp: range_order_def fset_of_list_elem simp flip: fset_of_list_append)
    then show "x |\<in>| fmdom (fold fmdrop ks m) \<longleftrightarrow> x |\<in>| fset_of_list ls"
      by (simp add: fmlookup_dom_iff fold_fmdrop_lookup fset_of_list_elem)
  qed
  then show ?thesis using assms by (simp add: range_order_def)
qed

section \<open>Committing and giving back\<close>

text \<open>The items of a configuration are in its GPU's packer, with the configuration's size.\<close>

definition owns :: "GPUInfo \<Rightarrow> Config \<Rightarrow> bool" where
  "owns g c \<longleftrightarrow> (\<forall>i. i |\<in>| fmdom (shelfItems c) \<longrightarrow> placed (Usage g) i =
     Some \<lparr>item_ID = i, item_Width = QuotaReq c, item_Height = SMPartition c\<rparr>)"

text \<open>A call of \<open>AllocateAndCommitConfig\<close> that can happen: the packer is well-formed and has numbers left,
  the quota is a number and the replica count is not negative.\<close>

definition allocatable :: "GPUInfo \<Rightarrow> Config \<Rightarrow> bool" where
  "allocatable g c \<longleftrightarrow> wf_packer (Usage g) \<and> nat (RequiredReplica c) \<le> ids_left (Usage g) \<and>
     \<not> is_nan (QuotaReq c) \<and> 0 \<le> RequiredReplica c"

lemma Allocate_eq:
  assumes "allocatable g c"
    and L: "insert_loop (\<lambda>p. Insert p (QuotaReq c) (SMPartition c)) (nat (RequiredReplica c)) (Usage g) = (p, is)"
  shows "AllocateAndCommitConfig g c =
    (g\<lparr>allocationType := cfg_AllocationType c, Usage := p,
       UsageMemory := wrap64 (UsageMemory g - MemoryReq c * int (length is))\<rparr>,
     c\<lparr>shelfItems := add_ids is (shelfItems c), AllocatedReplica := int (length is),
       AllocatedRPS := QpsPerReplica c * float64_of_int (int (length is))\<rparr>,
     int (length is) = RequiredReplica c)"
proof -
  let ?g = "g\<lparr>allocationType := cfg_AllocationType c,
    UsageMemory := wrap64 (UsageMemory g - wrap64 (MemoryReq c * RequiredReplica c))\<rparr>"
  have "wf_packer (Usage g)" "nat (RequiredReplica c) \<le> ids_left (Usage g)" "legal_width (QuotaReq c)"
    and R: "0 \<le> RequiredReplica c" using assms(1) by (simp_all add: allocatable_def legal_width_def)
  then have le: "length is \<le> nat (RequiredReplica c)" using shelf.insert_loop_spec [OF _ _ _ L] by blast
  have "insert_loop (\<lambda>p. Insert p (QuotaReq c) (SMPartition c)) (nat (RequiredReplica c)) (Usage ?g) = (p, is)"
    using L by simp
  note A = allocate_loop_eq [OF this, of 0]
  have m: "(if length is < nat (RequiredReplica c)
      then wrap64 (UsageMemory ?g + wrap64 (MemoryReq c * wrap64 (RequiredReplica c - (0 + int (length is)))))
      else UsageMemory ?g) = wrap64 (UsageMemory g - MemoryReq c * int (length is))"
  proof (cases "length is < nat (RequiredReplica c)")
    case True
    then show ?thesis
      using wrap64_scaled [of "UsageMemory g" "MemoryReq c" "RequiredReplica c" "int (length is)"] by simp
  next
    case False
    then have "RequiredReplica c = int (length is)" using le R by simp
    then show ?thesis by simp
  qed
  have "int (length is) < RequiredReplica c \<longleftrightarrow> int (length is) \<noteq> RequiredReplica c" using le R by auto
  then show ?thesis using A [unfolded m] by (simp add: AllocateAndCommitConfig_def Let_def)
qed

lemma Allocate_loop_facts:
  assumes "allocatable g c"
    and "insert_loop (\<lambda>p. Insert p (QuotaReq c) (SMPartition c)) (nat (RequiredReplica c)) (Usage g) = (p, is)"
  shows "wf_packer p" "length is \<le> nat (RequiredReplica c)" "distinct is"
    "\<forall>i \<in> set is. placed (Usage g) i = None"
    "placed p = (\<lambda>i. if i \<in> set is then Some \<lparr>item_ID = i, item_Width = QuotaReq c, item_Height = SMPartition c\<rparr>
       else placed (Usage g) i)"
  using shelf.insert_loop_spec [OF _ _ _ assms(2)] assms(1)
  by (auto simp: allocatable_def legal_width_def)

lemma remove_loop_facts:
  assumes "wf_packer p"
  shows "wf_packer (remove_loop Remove is p)"
    "placed (remove_loop Remove is p) = (\<lambda>i. if i \<in> set is then None else placed p i)"
  using shelf.remove_loop_spec [OF assms] by auto

section \<open>An example\<close>

text \<open>A free GPU and a configuration of three half-quota replicas, for the concrete instances below.\<close>

definition example_gpu :: GPUInfo where
  "example_gpu = NewGPUDevInfo ''n1'' ''NVIDIA A100-PCIE-40GB'' False None ''gpu-1'' 40000000000 100 5"

definition example_config :: Config where
  "example_config = \<lparr>cfg_AllocationType = ''fastpod'', cfg_UUID = ''c1'', QuotaReq = f64 (1/2), QuotaLimit = f64 (4/5),
     MemoryReq = 1000000000, SMPartition = 10, cfg_NodeName = ''n1'', VGPUUUID = ''gpu-1'', associatedGpu = 0,
     RequiredReplica = 3, SatisfiableRPS = f64 30, QpsPerReplica = f64 10, Cost = f64 0, remainingRPS = f64 0,
     AllocatedReplica = 0, AllocatedRPS = f64 0, shelfItems = fmempty, efficiencyScore = f64 2\<rparr>"

lemma example_usage: "Usage example_gpu = NewShelf 100" "UsageMemory example_gpu = 0"
  by (simp_all add: example_gpu_def NewGPUDevInfo_def)

lemma example_allocatable: "allocatable example_gpu example_config"
  using wf_NewShelf [of 100]
  by (simp add: allocatable_def example_usage example_config_def ids_left_def NewShelf_def int64_def f64_eval)

lemma example_exact: "exact_size 1 (Usage example_gpu) (QuotaReq example_config) (SMPartition example_config)"
  by (simp add: exact_size_def example_usage example_config_def grid_packer_def NewShelf_def f64_eval on_grid_def)

text \<open>How much of a configuration is committed, on widths where floating point is exact.\<close>

lemma Allocate_count:
  assumes "allocatable g c" "exact_size k (Usage g) (QuotaReq c) (SMPartition c)"
    and "AllocateAndCommitConfig g c = (g', c', ok)"
  shows "AllocatedReplica c' =
      min (RequiredReplica c) (MaxInsertableItems (Usage g) (QuotaReq c) (SMPartition c)) \<and>
    (ok \<longleftrightarrow> RequiredReplica c \<le> MaxInsertableItems (Usage g) (QuotaReq c) (SMPartition c))"
proof -
  obtain p "is" where L: "insert_loop (\<lambda>p. Insert p (QuotaReq c) (SMPartition c)) (nat (RequiredReplica c))
      (Usage g) = (p, is)" by force
  have a: "wf_packer (Usage g)" "0 \<le> RequiredReplica c" "nat (RequiredReplica c) \<le> ids_left (Usage g)"
    using assms(1) by (simp_all add: allocatable_def)
  then have "nextItemID (Usage g) + int (nat (RequiredReplica c)) < 2 ^ 63"
    using wf_packerD(6) [OF a(1)] by (simp add: ids_left_def split: if_splits)
  then have "int (length is) = min (RequiredReplica c) (capacity (Usage g) (fval (QuotaReq c)) (SMPartition c))"
    using insert_loop_capacity [OF a(1) assms(2), of "nat (RequiredReplica c)"] a(2) L by simp
  then show ?thesis
    using Allocate_eq [OF assms(1) L] assms(3) MaxInsertableItems_capacity [OF a(1) assms(2)] by auto
qed

lemma example_max: "MaxInsertableItems (Usage example_gpu) (QuotaReq example_config) (SMPartition example_config) = 20"
proof -
  have "f64 (1/2) = Fin (1/2)" "int_of_float64 (Fin 1 / Fin (1/2)) = 2" by (simp_all add: f64_eval)
  then show ?thesis by (simp add: MaxInsertableItems_def NewShelf_def go_eval example_usage example_config_def)
qed

lemma example_commits: "AllocateAndCommitConfig example_gpu example_config = (g, c, ok) \<Longrightarrow> AllocatedReplica c = 3"
  using Allocate_count [OF example_allocatable example_exact] example_max by (simp add: example_config_def)

section \<open>Properties\<close>

text \<open>
  C27. \<open>AllocateAndCommitConfig\<close>: it commits as many replicas as the packer takes, reports an error
  exactly when that is fewer than required, and leaves the books consistent: each committed replica
  is one new item of the configuration's size in the packer, under a fresh number that is recorded
  in \<open>shelfItems\<close>; no other item moves; \<open>AllocatedReplica\<close> and \<open>AllocatedRPS\<close> are those of the committed
  replicas; the memory account changes by their memory alone, the share of the replicas that failed
  being rolled back.
\<close>

theorem Allocate_spec:
  assumes "allocatable g c"
  shows "\<exists>is g' c'. AllocateAndCommitConfig g c = (g', c', AllocatedReplica c' = RequiredReplica c) \<and>
    AllocatedReplica c' = int (length is) \<and> AllocatedReplica c' \<le> RequiredReplica c \<and> distinct is \<and>
    (\<forall>i. fmlookup (shelfItems c') i = (if i \<in> set is then Some True else fmlookup (shelfItems c) i)) \<and>
    wf_packer (Usage g') \<and> (\<forall>i \<in> set is. placed (Usage g) i = None) \<and>
    (\<forall>i. placed (Usage g') i = (if i \<in> set is
      then Some \<lparr>item_ID = i, item_Width = QuotaReq c, item_Height = SMPartition c\<rparr> else placed (Usage g) i)) \<and>
    UsageMemory g' = wrap64 (UsageMemory g - MemoryReq c * AllocatedReplica c') \<and>
    AllocatedRPS c' = QpsPerReplica c * float64_of_int (AllocatedReplica c') \<and>
    allocationType g' = cfg_AllocationType c"
proof -
  obtain p "is" where L: "insert_loop (\<lambda>p. Insert p (QuotaReq c) (SMPartition c)) (nat (RequiredReplica c))
      (Usage g) = (p, is)" by force
  have "0 \<le> RequiredReplica c" using assms by (simp add: allocatable_def)
  then show ?thesis
    using Allocate_loop_facts [OF assms L] Allocate_eq [OF assms L]
    by (intro exI [of _ "is"]) (simp add: add_ids_lookup)
qed

theorem Allocate_spec_witness:
  "\<exists>g' c'. AllocateAndCommitConfig example_gpu example_config =
      (g', c', AllocatedReplica c' = RequiredReplica example_config) \<and> wf_packer (Usage g')"
  using Allocate_spec [OF example_allocatable]
proof (elim exE conjE)
  fix g' c'
  assume "AllocateAndCommitConfig example_gpu example_config =
      (g', c', AllocatedReplica c' = RequiredReplica example_config)" "wf_packer (Usage g')"
  then show ?thesis by (intro exI conjI)
qed

text \<open>
  What \<open>MaxInsertableItems\<close> promised can be committed: on widths that are multiples of \<open>2^-k\<close>, a
  configuration that requires at most \<open>MaxInsertableItems\<close> replicas is committed completely, and one
  that requires more is committed up to that number and reported as an error.
\<close>

theorem Allocate_within_capacity:
  assumes "allocatable g c" "exact_size k (Usage g) (QuotaReq c) (SMPartition c)"
    and "AllocateAndCommitConfig g c = (g', c', ok)"
  shows "AllocatedReplica c' =
      min (RequiredReplica c) (MaxInsertableItems (Usage g) (QuotaReq c) (SMPartition c)) \<and>
    (ok \<longleftrightarrow> RequiredReplica c \<le> MaxInsertableItems (Usage g) (QuotaReq c) (SMPartition c))"
  using assms by (rule Allocate_count)

theorem Allocate_within_capacity_witness:
  "\<exists>g' c'. AllocateAndCommitConfig example_gpu example_config = (g', c', True) \<and> AllocatedReplica c' = 3"
proof -
  obtain g' c' ok where A: "AllocateAndCommitConfig example_gpu example_config = (g', c', ok)"
    using prod_cases3 by blast
  then show ?thesis
    using Allocate_within_capacity [OF example_allocatable example_exact A] example_max by (simp add: example_config_def)
qed

text \<open>
  C28. Giving a configuration back undoes committing it: whatever the order in which the map of items
  is visited, \<open>DeallocateConfig\<close> restores the content of the packer and the memory account, leaves no
  item recorded, and returns true exactly when nothing is left on the GPU.
\<close>

theorem Allocate_Deallocate_roundtrip:
  assumes "allocatable g c" "shelfItems c = fmempty" "int64 (UsageMemory g)"
    and "AllocateAndCommitConfig g c = (g1, c1, ok)" "range_order order (shelfItems c1)"
    and "DeallocateConfig order g1 c1 = (g2, c2, isEmpty)"
  shows "placed (Usage g2) = placed (Usage g) \<and> wf_packer (Usage g2) \<and> UsageMemory g2 = UsageMemory g \<and>
    shelfItems c2 = fmempty \<and> (isEmpty \<longleftrightarrow> placed (Usage g) = Map.empty)"
proof -
  obtain p "is" where L: "insert_loop (\<lambda>p. Insert p (QuotaReq c) (SMPartition c)) (nat (RequiredReplica c))
      (Usage g) = (p, is)" by force
  note F = Allocate_loop_facts [OF assms(1) L] and E = Allocate_eq [OF assms(1) L]
  have c1: "shelfItems c1 = add_ids is fmempty" "Usage g1 = p"
      "UsageMemory g1 = wrap64 (UsageMemory g - MemoryReq c * int (length is))"
      "MemoryReq c1 = MemoryReq c" "AllocatedReplica c1 = int (length is)"
    using E assms(2,4) by auto
  have s: "i \<in> set order \<longleftrightarrow> i \<in> set is" for i
    using range_order_mem [OF assms(5)] by (auto simp: c1 add_ids_lookup)
  note R = remove_loop_facts [OF F(1), of order]
  have pl: "placed (remove_loop Remove order p) = placed (Usage g)"
    unfolding R(2) F(5) using F(4) s by (auto simp: fun_eq_iff)
  have "fold fmdrop order (shelfItems c1) = fmempty"
    by (rule fmap_ext) (simp add: fold_fmdrop_lookup s c1 add_ids_lookup)
  moreover have "wrap64 (UsageMemory g) = UsageMemory g" using assms(3) by (rule wrap64_id)
  ultimately show ?thesis
    using assms(6) R(1) pl IsEmpty_iff [OF R(1)]
    by (auto simp: DeallocateConfig_def deallocate_loop_eq Let_def c1)
qed

theorem Allocate_Deallocate_roundtrip_witness:
  "\<exists>order g1 c1 ok g2 c2. AllocateAndCommitConfig example_gpu example_config = (g1, c1, ok) \<and>
    range_order order (shelfItems c1) \<and> DeallocateConfig order g1 c1 = (g2, c2, True) \<and> UsageMemory g2 = 0"
proof -
  obtain g1 c1 ok where A: "AllocateAndCommitConfig example_gpu example_config = (g1, c1, ok)"
    using prod_cases3 by blast
  obtain order where o: "range_order order (shelfItems c1)"
    unfolding range_order_def by (metis finite_distinct_list finite_fset fset_inject fset_of_list.rep_eq)
  obtain g2 c2 e where D: "DeallocateConfig order g1 c1 = (g2, c2, e)" using prod_cases3 by blast
  have "placed (Usage example_gpu) = Map.empty" by (auto simp: placed_def example_usage NewShelf_def)
  then show ?thesis
    using Allocate_Deallocate_roundtrip [OF example_allocatable _ _ A o D] A o D
    by (auto simp: example_usage example_config_def int64_def)
qed

text \<open>
  C29. \<open>ReduceConfig\<close> takes away exactly the replicas that are too many: of the items recorded for the
  configuration as many stay as the new count says, they stay placed, the others leave the packer
  and the record, and no item of another configuration is touched.
\<close>

theorem ReduceConfig_spec:
  assumes "wf_packer (Usage g)" "owns g c" "range_order order (shelfItems c)"
    and "AllocatedReplica c = int (gm_len (shelfItems c))" "int64 (AllocatedReplica c)"
    and "0 \<le> n" "n \<le> AllocatedReplica c" "ReduceConfig order g c n = (g', c', isEmpty)"
  shows "int (gm_len (shelfItems c')) = n \<and> owns g' c' \<and> wf_packer (Usage g') \<and>
    fmdom (shelfItems c') |\<subseteq>| fmdom (shelfItems c) \<and>
    (\<forall>i. placed (Usage g') i = (if i |\<in>| fmdom (shelfItems c) |-| fmdom (shelfItems c') then None
       else placed (Usage g) i)) \<and>
    (isEmpty \<longleftrightarrow> placed (Usage g') = Map.empty)"
proof -
  let ?d = "AllocatedReplica c - n" and ?gone = "take (nat (AllocatedReplica c - n)) order"
  have w: "wrap64 ?d = ?d" using assms(5-7) by (intro wrap64_id) (simp add: int64_def)
  have len: "length order = gm_len (shelfItems c)" using range_order_length [OF assms(3)] by simp
  note R = remove_loop_facts [OF assms(1), of ?gone]
  have g': "Usage g' = remove_loop Remove ?gone (Usage g)"
      "shelfItems c' = fold fmdrop ?gone (shelfItems c)" "isEmpty = IsEmpty (Usage g')"
      "QuotaReq c' = QuotaReq c" "SMPartition c' = SMPartition c"
    using assms(8) w by (auto simp: ReduceConfig_def reduce_loop_eq Let_def split: if_splits)
  have ro: "range_order (drop (nat ?d) order) (shelfItems c')"
    unfolding g' by (rule range_order_drop) (simp add: assms(3))
  have n: "int (gm_len (shelfItems c')) = n"
    using range_order_length [OF ro] len assms(4,6,7) by simp
  have dom: "i |\<in>| fmdom (shelfItems c') \<longleftrightarrow> i |\<in>| fmdom (shelfItems c) \<and> i \<notin> set ?gone" for i
    by (simp add: fmlookup_dom_iff g' fold_fmdrop_lookup)
  have sub: "i |\<in>| fmdom (shelfItems c)" if "i \<in> set ?gone" for i
    using range_order_mem [OF assms(3)] set_take_subset that by (metis fmlookup_dom_iff subsetD)
  have pl: "placed (Usage g') i = (if i |\<in>| fmdom (shelfItems c) |-| fmdom (shelfItems c') then None
      else placed (Usage g) i)" for i
    unfolding g' R(2) using dom [unfolded g'] sub by auto
  have "owns g' c'" using assms(2) pl dom by (simp add: owns_def g'(4,5))
  moreover have "wf_packer (Usage g')" unfolding g' by (rule R(1))
  ultimately show ?thesis using n pl dom IsEmpty_iff g'(3) by blast
qed

theorem ReduceConfig_spec_witness:
  "\<exists>g c g' c' e. ReduceConfig [1, 2] g c 1 = (g', c', e) \<and> int (gm_len (shelfItems c')) = 1 \<and> owns g' c'"
proof -
  let ?c = "example_config\<lparr>RequiredReplica := 2\<rparr>"
  have L: "insert_loop (\<lambda>p. Insert p (QuotaReq ?c) (SMPartition ?c)) (nat (RequiredReplica ?c)) (Usage example_gpu) =
      (fst (insert_loop (\<lambda>p. Insert p (QuotaReq ?c) (SMPartition ?c)) 2 (NewShelf 100)), [1, 2])"
    by (simp add: example_usage example_config_def numeral_2_eq_2 go_eval f64_eval)
  have "allocatable example_gpu ?c" using example_allocatable by (simp add: allocatable_def example_config_def)
  note F = Allocate_loop_facts [OF this L]
  let ?p = "fst (insert_loop (\<lambda>p. Insert p (QuotaReq ?c) (SMPartition ?c)) 2 (NewShelf 100))"
  let ?g = "example_gpu\<lparr>Usage := ?p\<rparr>" and ?d = "?c\<lparr>shelfItems := add_ids [1, 2] fmempty, AllocatedReplica := 2\<rparr>"
  have "wf_packer (Usage ?g)" using F(1) by simp
  moreover have "owns ?g ?d" using F(5) by (simp add: owns_def example_usage)
  moreover have "range_order [1, 2] (shelfItems ?d)" by (auto simp: range_order_def)
  moreover have "AllocatedReplica ?d = int (gm_len (shelfItems ?d))" by (simp add: gm_len_upd)
  moreover have "int64 (AllocatedReplica ?d)" "(0::int) \<le> 1" "1 \<le> AllocatedReplica ?d" by (simp_all add: int64_def)
  moreover obtain g' c' e where R: "ReduceConfig [1, 2] ?g ?d 1 = (g', c', e)" using prod_cases3 by blast
  ultimately have "int (gm_len (shelfItems c')) = 1 \<and> owns g' c'" using ReduceConfig_spec by blast
  with R show ?thesis by blast
qed

text \<open>
  C30. \<open>Fits\<close> and \<open>Insert\<close> agree: for a positive quota that is not NaN and a percentage between 1 and 100 within the GPU's
  height, \<open>Fits\<close> answers true exactly when the memory is available and inserting one item of that
  size into the GPU's packer succeeds; in particular it never answers false without an error.
\<close>

theorem Fits_iff_Insert:
  assumes "wf_packer (Usage g)" "nextItemID (Usage g) < 2 ^ 63 - 1" "\<not> is_nan quota"
    and "\<not> quota \<le> f64 0" "0 < sm" "sm \<le> 100" "sm \<le> MaxHeight (Usage g)"
  shows "(Fits g sm quota memory = Inr True \<longleftrightarrow>
      memory \<le> AvailableMemory g \<and> (\<exists>p i. Insert (Usage g) quota sm = (p, Inr i))) \<and>
    Fits g sm quota memory \<noteq> Inr False"
proof -
  show ?thesis
    using assms(1-3)
  proof (cases rule: Insert_cases [of "Usage g" quota sm])
    case (old n)
    then have "\<exists>s \<in> set (Shelves (Usage g)). fits_shelf quota sm s" using nth_mem by blast
    then show ?thesis using old(1,7) assms by (simp add: Fits_def CanFit_iff)
  qed (use assms in \<open>auto simp: Fits_def CanFit_iff\<close>)
qed

theorem Fits_iff_Insert_witness:
  "Fits example_gpu 10 (f64 (1/2)) 1000 = Inr True"
proof -
  have "wf_packer (Usage example_gpu)" using example_allocatable by (simp add: allocatable_def)
  moreover have "nextItemID (Usage example_gpu) < 2 ^ 63 - 1" "(10::int) \<le> MaxHeight (Usage example_gpu)"
    by (simp_all add: example_usage NewShelf_def)
  moreover have "\<exists>p i. Insert (Usage example_gpu) (f64 (1/2)) 10 = (p, Inr i)"
    by (simp add: example_usage go_eval f64_eval)
  moreover have "1000 \<le> AvailableMemory example_gpu"
    by (simp add: AvailableMemory_def example_gpu_def NewGPUDevInfo_def wrap64_eval)
  ultimately show ?thesis
    using Fits_iff_Insert [of example_gpu "f64 (1/2)" 10 1000] by (simp add: f64_eval)
qed

text \<open>
  The memory account runs the wrong way: committing a configuration lowers \<open>UsageMemory\<close>, so the
  memory that \<open>AvailableMemory\<close> reports as free grows by the memory of every committed replica instead
  of shrinking, and the memory test of \<open>Fits\<close> accepts more the fuller the GPU is.
\<close>

theorem AvailableMemory_grows:
  assumes "allocatable g c" "AllocateAndCommitConfig g c = (g', c', ok)"
  shows "AvailableMemory g' = wrap64 (AvailableMemory g + MemoryReq c * AllocatedReplica c')"
proof -
  obtain p "is" where L: "insert_loop (\<lambda>p. Insert p (QuotaReq c) (SMPartition c)) (nat (RequiredReplica c))
      (Usage g) = (p, is)" by force
  have "UsageMemory g' = wrap64 (UsageMemory g - MemoryReq c * AllocatedReplica c')" "TotalMemory g' = TotalMemory g"
    using Allocate_eq [OF assms(1) L] assms(2) by auto
  moreover have "TotalMemory g - (UsageMemory g - m) = TotalMemory g - UsageMemory g + m" for m by simp
  ultimately show ?thesis by (simp only: AvailableMemory_def wrap64_diff_right wrap64_add_left)
qed

theorem AvailableMemory_grows_witness:
  "\<exists>g' c'. AllocateAndCommitConfig example_gpu example_config = (g', c', True) \<and> AvailableMemory g' = 43000000000"
proof -
  obtain g' c' ok where A: "AllocateAndCommitConfig example_gpu example_config = (g', c', ok)"
    using prod_cases3 by blast
  have R: "RequiredReplica example_config = 3" "MemoryReq example_config = 1000000000"
    by (simp_all add: example_config_def)
  obtain p where L: "insert_loop (\<lambda>p. Insert p (QuotaReq example_config) (SMPartition example_config))
      (nat (RequiredReplica example_config)) (Usage example_gpu) = (p, [1, 2, 3])"
    by (simp add: example_usage example_config_def numeral_3_eq_3 go_eval f64_eval)
  have "AllocatedReplica c' = 3" "ok" using Allocate_eq [OF example_allocatable L] A R by auto
  moreover have "AvailableMemory example_gpu = 40000000000"
    by (simp add: AvailableMemory_def example_gpu_def NewGPUDevInfo_def wrap64_eval)
  ultimately show ?thesis
    using AvailableMemory_grows [OF example_allocatable A] A R by (simp add: wrap64_eval)
qed

text \<open>
  Reducing a configuration and then giving it back does not restore the memory account:
  \<open>ReduceConfig\<close> charges the memory of the replicas it removes a second time and keeps \<open>AllocatedReplica\<close>
  as it was, so after a commit of \<open>n\<close> replicas, a reduction to \<open>m\<close> and \<open>DeallocateConfig\<close>, \<open>UsageMemory\<close>
  is off by the memory of \<open>n - m\<close> replicas although no item of the configuration is left.
\<close>

theorem Reduce_Deallocate_drift:
  assumes "allocatable g c" "AllocateAndCommitConfig g c = (g1, c1, ok)" "int64 (AllocatedReplica c1)"
    and "0 \<le> m" "m \<le> AllocatedReplica c1"
    and "ReduceConfig order1 g1 c1 m = (g2, c2, e2)" "DeallocateConfig order2 g2 c2 = (g3, c3, e3)"
  shows "UsageMemory g3 = wrap64 (UsageMemory g - MemoryReq c * (AllocatedReplica c1 - m))"
proof -
  obtain p "is" where L: "insert_loop (\<lambda>p. Insert p (QuotaReq c) (SMPartition c)) (nat (RequiredReplica c))
      (Usage g) = (p, is)" by force
  have c1: "MemoryReq c1 = MemoryReq c"
      "UsageMemory g1 = wrap64 (UsageMemory g - MemoryReq c * AllocatedReplica c1)"
    using Allocate_eq [OF assms(1) L] assms(2) by auto
  have w: "wrap64 (AllocatedReplica c1 - m) = AllocatedReplica c1 - m"
    using assms(3-5) by (intro wrap64_id) (simp add: int64_def)
  have c2: "MemoryReq c2 = MemoryReq c" "AllocatedReplica c2 = AllocatedReplica c1"
      "wrap64 (UsageMemory g2) = wrap64 (UsageMemory g1 - MemoryReq c * (AllocatedReplica c1 - m))"
    using assms(6) w c1 by (auto simp: ReduceConfig_def reduce_loop_eq Let_def split: if_splits)
  have "UsageMemory g3 = wrap64 (UsageMemory g2 + MemoryReq c * AllocatedReplica c1)"
    using assms(7) by (auto simp: DeallocateConfig_def deallocate_loop_eq Let_def c2(1,2))
  also have "\<dots> = wrap64 (wrap64 (UsageMemory g2) + MemoryReq c * AllocatedReplica c1)"
    by (rule wrap64_add_left [symmetric])
  also have "\<dots> = wrap64 (UsageMemory g1 - MemoryReq c * (AllocatedReplica c1 - m) + MemoryReq c * AllocatedReplica c1)"
    unfolding c2(3) by (rule wrap64_add_left)
  also have "\<dots> = wrap64 (UsageMemory g1 + (MemoryReq c * AllocatedReplica c1 - MemoryReq c * (AllocatedReplica c1 - m)))"
    by (rule arg_cong [of _ _ wrap64]) simp
  also have "\<dots> = wrap64 (UsageMemory g - MemoryReq c * (AllocatedReplica c1 - m))"
    unfolding c1(2) wrap64_add_left by (rule arg_cong [of _ _ wrap64]) simp
  finally show ?thesis .
qed

theorem Reduce_Deallocate_drift_witness:
  "\<exists>g1 c1 ok g2 c2 e2 g3 c3 e3. AllocateAndCommitConfig example_gpu example_config = (g1, c1, ok) \<and>
    ReduceConfig [1, 2, 3] g1 c1 1 = (g2, c2, e2) \<and> DeallocateConfig [3] g2 c2 = (g3, c3, e3) \<and>
    UsageMemory g3 = - 2000000000"
proof -
  obtain g1 c1 ok where A: "AllocateAndCommitConfig example_gpu example_config = (g1, c1, ok)"
    using prod_cases3 by blast
  obtain p where L: "insert_loop (\<lambda>p. Insert p (QuotaReq example_config) (SMPartition example_config))
      (nat (RequiredReplica example_config)) (Usage example_gpu) = (p, [1, 2, 3])"
    by (simp add: example_usage example_config_def numeral_3_eq_3 go_eval f64_eval)
  have c1: "AllocatedReplica c1 = 3" using Allocate_eq [OF example_allocatable L] A by auto
  obtain g2 c2 e2 where R: "ReduceConfig [1, 2, 3] g1 c1 1 = (g2, c2, e2)" using prod_cases3 by blast
  obtain g3 c3 e3 where D: "DeallocateConfig [3] g2 c2 = (g3, c3, e3)" using prod_cases3 by blast
  have "UsageMemory g3 = wrap64 (UsageMemory example_gpu - MemoryReq example_config * (AllocatedReplica c1 - 1))"
    using c1 by (intro Reduce_Deallocate_drift [OF example_allocatable A _ _ _ R D]) (simp_all add: int64_def)
  also have "\<dots> = - 2000000000" by (simp add: c1 example_usage example_config_def wrap64_eval)
  finally show ?thesis using A R D by blast
qed

end
