(* ===== verification/Profile.thy ===== *)
theory Profile
  imports Strconv
begin

text \<open>
  \<^verbatim>\<open>internal/profiling/profiling_retrieve.go\<close>: the table of measured requests per second, by
  model, GPU type, SM percentage and time quota. The table is a Go map whose key holds a
  \<^verbatim>\<open>float64\<close>, so keys are compared with Go's \<open>==\<close>: a key with a NaN quota equals no key, the two
  zeros are equal. The map is a list of entries in no significant order, at most one per key.
\<close>

section \<open>Data\<close>

record ProfileKey =
  key_ModelName :: string
  key_GPUType :: string
  SMPercentage :: int
  Quota :: float64

record QPSStore =
  data :: "(ProfileKey \<times> float64) list"

definition key_eq :: "ProfileKey \<Rightarrow> ProfileKey \<Rightarrow> bool" where
  "key_eq k l \<longleftrightarrow> key_ModelName k = key_ModelName l \<and> key_GPUType k = key_GPUType l \<and>
     SMPercentage k = SMPercentage l \<and> float64_eq (Quota k) (Quota l)"

fun gm_get :: "(ProfileKey \<times> float64) list \<Rightarrow> ProfileKey \<Rightarrow> float64 option" where
  "gm_get [] k = None"
| "gm_get ((l, v) # m) k = (if key_eq l k then Some v else gm_get m k)"

fun gm_put :: "(ProfileKey \<times> float64) list \<Rightarrow> ProfileKey \<Rightarrow> float64 \<Rightarrow> (ProfileKey \<times> float64) list" where
  "gm_put [] k v = [(k, v)]"
| "gm_put ((l, w) # m) k v = (if key_eq l k then (l, v) # m else (l, w) # gm_put m k v)"

section \<open>Operations\<close>

definition NewEmptyQPSStore :: QPSStore where
  "NewEmptyQPSStore = \<lparr>data = []\<rparr>"

definition NewRPSStoreFromMap :: "(ProfileKey \<times> float64) list \<Rightarrow> QPSStore" where
  "NewRPSStoreFromMap m = \<lparr>data = m\<rparr>"

text \<open>Both \<open>Set\<close> and \<open>Get\<close> round the quota to hundredths.\<close>

definition round_quota :: "float64 \<Rightarrow> float64" where
  "round_quota quota = math_Round (quota * f64 100) / f64 100"

definition Set :: "QPSStore \<Rightarrow> string \<Rightarrow> string \<Rightarrow> int \<Rightarrow> float64 \<Rightarrow> float64 \<Rightarrow> QPSStore \<times> bool" where
  "Set s modelName gpuType smPercentage quota qps =
    (let quota = round_quota quota in
     if qps \<le> f64 0 then (s, False)
     else
       let key = \<lparr>key_ModelName = modelName, key_GPUType = gpuType, SMPercentage = smPercentage,
                  Quota = quota\<rparr>
       in (s\<lparr>data := gm_put (data s) key qps\<rparr>, True))"

definition Get :: "QPSStore \<Rightarrow> string \<Rightarrow> string \<Rightarrow> int \<Rightarrow> float64 \<Rightarrow> float64 \<times> bool" where
  "Get s modelName gpuTypeShortName smPercentage quota =
    (let quota = round_quota quota;
         key = \<lparr>key_ModelName = modelName, key_GPUType = gpuTypeShortName,
                SMPercentage = smPercentage, Quota = quota\<rparr>
     in case gm_get (data s) key of
          None \<Rightarrow> (f64 0, False)
        | Some qps \<Rightarrow> if qps \<le> f64 0 then (f64 0, False) else (qps, True))"

definition GetQPS :: "QPSStore \<Rightarrow> string \<Rightarrow> string \<Rightarrow> int \<Rightarrow> float64 \<Rightarrow> int \<Rightarrow> float64" where
  "GetQPS s modelName gpuType smPercentage quota roundBy =
    (let (qps, exists) = Get s modelName gpuType smPercentage quota in
     if exists then (if qps \<le> f64 0 then f64 0 else qps)
     else if roundBy \<noteq> 0 then
       let lower = wrap64 (wrap64 (go_div smPercentage roundBy) * roundBy);
           upper = (if go_mod smPercentage roundBy \<noteq> 0 then wrap64 (lower + roundBy) else lower);
           (qpsLower, foundLower) = Get s modelName gpuType lower quota;
           (qpsUpper, foundUpper) = Get s modelName gpuType upper quota;
           validLower = (foundLower \<and> qpsLower > f64 0);
           validUpper = (foundUpper \<and> qpsUpper > f64 0)
       in if validLower \<and> validUpper then (qpsLower + qpsUpper) / f64 2
          else if validLower then qpsLower
          else if validUpper then qpsUpper
          else f64 0
     else f64 0)"

text \<open>
  Loading the embedded files. What reading one of them gives is an argument: it cannot be opened
  (the program panics), its CSV is malformed (the file is skipped), or its records.
\<close>

datatype csv_file = OpenFails | ReadFails | Records "string list list"

text \<open>A record that reaches the table: at least five fields, three of which parse, and a positive rate.\<close>

definition parse_record :: "string list \<Rightarrow> (ProfileKey \<times> float64) option" where
  "parse_record rec =
    (if length rec < 5 then None
     else case (ParseFloat (rec ! 2), Atoi (rec ! 3), ParseFloat (rec ! 4)) of
       (Some quota, Some sm, Some qps) \<Rightarrow>
         if qps \<le> f64 0 then None
         else Some (\<lparr>key_ModelName = rec ! 1, key_GPUType = rec ! 0, SMPercentage = sm,
                     Quota = quota\<rparr>, qps)
     | _ \<Rightarrow> None)"

definition keep_greater :: "(ProfileKey \<times> float64) list \<Rightarrow> ProfileKey \<times> float64 \<Rightarrow> (ProfileKey \<times> float64) list" where
  "keep_greater m row = (case row of (key, qps) \<Rightarrow>
     case gm_get m key of
       None \<Rightarrow> gm_put m key qps
     | Some existing \<Rightarrow> if qps > existing then gm_put m key qps else m)"

definition load_record :: "(ProfileKey \<times> float64) list \<Rightarrow> string list \<Rightarrow> (ProfileKey \<times> float64) list" where
  "load_record m rec = (case parse_record rec of None \<Rightarrow> m | Some row \<Rightarrow> keep_greater m row)"

fun load_files :: "(string \<Rightarrow> csv_file) \<Rightarrow> string list \<Rightarrow> (ProfileKey \<times> float64) list \<Rightarrow>
    (ProfileKey \<times> float64) list option" where
  "load_files open_read [] m = Some m"
| "load_files open_read (csvFile # rest) m =
     (case open_read csvFile of
        OpenFails \<Rightarrow> None
      | ReadFails \<Rightarrow> load_files open_read rest m
      | Records records \<Rightarrow> load_files open_read rest (foldl load_record m (tl records)))"

definition csvFiles :: "string list" where
  "csvFiles = [''data/a100.csv'', ''data/v100.csv'', ''data/rtx2080ti.csv'', ''data/a100_mig.csv'']"

definition NewRPSStore :: "(string \<Rightarrow> csv_file) \<Rightarrow> QPSStore option" where
  "NewRPSStore open_read = map_option NewRPSStoreFromMap (load_files open_read csvFiles [])"

lemmas profile_eval [go_eval] =
  key_eq_def NewEmptyQPSStore_def NewRPSStoreFromMap_def round_quota_def Set_def Get_def GetQPS_def
  parse_record_def keep_greater_def load_record_def csvFiles_def NewRPSStore_def

section \<open>The map's contract\<close>

text \<open>
  A table with a partial equivalence on keys: what is put under a key is found under every equal
  key, and nothing else changes. Loading rows while keeping the greater value is a client.
\<close>

locale keyed_table =
  fixes get :: "'m \<Rightarrow> 'k \<Rightarrow> 'v option"
    and put :: "'m \<Rightarrow> 'k \<Rightarrow> 'v \<Rightarrow> 'm"
    and eq :: "'k \<Rightarrow> 'k \<Rightarrow> bool"
    and lt :: "'v \<Rightarrow> 'v \<Rightarrow> bool"
  assumes get_put: "get (put m k v) l = (if eq k l then Some v else get m l)"
    and get_eq: "eq k l \<Longrightarrow> get m k = get m l"
    and lt_irrefl: "\<not> lt v v"
    and lt_trans: "lt u v \<Longrightarrow> lt v w \<Longrightarrow> lt u w"
begin

definition keep :: "'m \<Rightarrow> 'k \<times> 'v \<Rightarrow> 'm" where
  "keep m row = (case row of (k, v) \<Rightarrow>
     case get m k of None \<Rightarrow> put m k v | Some w \<Rightarrow> if lt w v then put m k v else m)"

text \<open>A value that is at least as good as \<open>u\<close> stays in the table once there is one.\<close>

lemma keep_bound:
  assumes "get m l = Some w" "\<not> lt w u" shows "\<exists>v. get (keep m row) l = Some v \<and> \<not> lt v u"
proof -
  obtain k v where row: "row = (k, v)" by force
  show ?thesis
    using assms lt_trans get_eq [of k l m]
    by (cases "eq k l"; cases "get m k") (auto simp: keep_def row get_put)
qed

lemma keep_new: "eq k l \<Longrightarrow> \<exists>u. get (keep m (k, v)) l = Some u \<and> \<not> lt u v"
  using lt_irrefl get_eq [of k l m] by (cases "get m l") (auto simp: keep_def get_put)

lemma keep_from: "get (keep m (k, v)) l = Some u \<Longrightarrow> get m l = Some u \<or> eq k l \<and> u = v"
  by (cases "get m k") (auto simp: keep_def get_put split: if_splits)

lemma keeps_bound:
  "get m l = Some w \<Longrightarrow> \<not> lt w u \<Longrightarrow> \<exists>v. get (foldl keep m rows) l = Some v \<and> \<not> lt v u"
proof (induction rows arbitrary: m w)
  case (Cons row rows)
  obtain v where "get (keep m row) l = Some v" "\<not> lt v u" using keep_bound [OF Cons.prems] by blast
  then show ?case using Cons.IH by simp
qed auto

lemma keeps_best:
  "(k, v) \<in> set rows \<Longrightarrow> eq k l \<Longrightarrow> \<exists>u. get (foldl keep m rows) l = Some u \<and> \<not> lt u v"
proof (induction rows arbitrary: m)
  case (Cons row rows)
  show ?case
  proof (cases "row = (k, v)")
    case True
    then show ?thesis using keep_new [OF Cons.prems(2), of m v] keeps_bound by auto
  next
    case False
    then show ?thesis using Cons by simp
  qed
qed simp

lemma keeps_from:
  "get (foldl keep m rows) l = Some u \<Longrightarrow> get m l = Some u \<or> (\<exists>k. (k, u) \<in> set rows \<and> eq k l)"
proof (induction rows arbitrary: m)
  case (Cons row rows)
  obtain k v where row: "row = (k, v)" by force
  show ?case using Cons.IH [of "keep m row"] Cons.prems keep_from [of m k v l u] by (auto simp: row)
qed simp

end

lemma float64_eq_sym: "float64_eq x y \<Longrightarrow> float64_eq y x"
  by (simp add: float64_eq_def)

lemma float64_eq_trans: "float64_eq x y \<Longrightarrow> float64_eq y z \<Longrightarrow> float64_eq x z"
  by (auto simp: float64_eq_def intro: float_le_trans)

lemma key_eq_sym: "key_eq k l \<Longrightarrow> key_eq l k"
  by (auto simp: key_eq_def intro: float64_eq_sym)

lemma key_eq_trans: "key_eq k l \<Longrightarrow> key_eq l n \<Longrightarrow> key_eq k n"
  by (auto simp: key_eq_def intro: float64_eq_trans)

lemma gm_get_put: "gm_get (gm_put m k v) l = (if key_eq k l then Some v else gm_get m l)"
proof (induction m k v rule: gm_put.induct)
  case (2 n w m k v)
  then show ?case by (auto intro: key_eq_sym key_eq_trans)
qed simp

lemma gm_get_eq: "key_eq k l \<Longrightarrow> gm_get m k = gm_get m l"
proof (induction m)
  case (Cons e m)
  have "key_eq (fst e) k \<longleftrightarrow> key_eq (fst e) l" using Cons.prems by (blast intro: key_eq_sym key_eq_trans)
  then show ?case using Cons by (cases e) simp
qed simp

lemma float64_less_irrefl: "\<not> x < (x :: float64)"
  by (simp add: less_float64_def)

lemma float64_less_trans: "x < y \<Longrightarrow> y < z \<Longrightarrow> x < (z :: float64)"
  by (auto simp: less_float64_def intro: float_le_trans)

interpretation profile: keyed_table gm_get gm_put key_eq "(<) :: float64 \<Rightarrow> float64 \<Rightarrow> bool"
  by unfold_locales
    (auto simp: gm_get_put float64_less_irrefl intro: gm_get_eq float64_less_trans)

lemma keep_greater_eq: "keep_greater = profile.keep"
  by (simp add: keep_greater_def profile.keep_def fun_eq_iff)

section \<open>Loading\<close>

text \<open>The rows of the files that could be read, in order, without those that are skipped.\<close>

definition good_rows :: "string list list \<Rightarrow> (ProfileKey \<times> float64) list" where
  "good_rows records = List.map_filter parse_record (tl records)"

fun file_rows :: "csv_file \<Rightarrow> (ProfileKey \<times> float64) list" where
  "file_rows (Records records) = good_rows records"
| "file_rows _ = []"

lemma foldl_load_record:
  "foldl load_record m recs = foldl keep_greater m (List.map_filter parse_record recs)"
  by (induction recs arbitrary: m) (auto simp: load_record_def map_filter_simps split: option.splits)

lemma load_files_rows:
  "load_files open_read files m =
    (if OpenFails \<in> open_read ` set files then None
     else Some (foldl keep_greater m (concat (map (\<lambda>f. file_rows (open_read f)) files))))"
  by (induction files arbitrary: m) (auto simp: foldl_load_record good_rows_def split: csv_file.splits)

lemma file_rows_pos: "(k, v) \<in> set (file_rows f) \<Longrightarrow> \<not> v \<le> f64 0"
  by (cases f)
    (auto simp: good_rows_def List.map_filter_def parse_record_def split: if_splits option.splits)

section \<open>Rounding of quotas\<close>

lemma math_Round_near:
  assumes "is_finite x" "\<bar>fval x - of_int k\<bar> < 1 / 2" "1 \<le> k"
  shows "math_Round x = Fin (of_int k)"
proof -
  have k: "(1::rat) \<le> of_int k" using assms(3) by simp
  then have "1 / 2 < fval x" using assms(2) by linarith
  then obtain r where r: "x = Fin r" and r0: "1 / 2 < r" by (cases x) auto
  have "\<lfloor>r + 1 / 2\<rfloor> = k" using assms(2) unfolding r fval.simps abs_less_iff by (intro floor_unique) linarith+
  then show ?thesis using r r0 by (simp add: math_Round_def)
qed

lemma f64_100: "is_finite (f64 100)" "fval (f64 100) = 100"
  by (simp_all add: f64_eval)

text \<open>A quota within a quarter of a hundredth of \<open>k / 100\<close> is looked up as \<open>k / 100\<close>.\<close>

lemma round_quota_near:
  assumes "is_finite x" "\<bar>fval x * 100 - of_int k\<bar> \<le> 1 / 4" "1 \<le> k" "k \<le> 2 ^ 40"
  shows "round_quota x = f64 (of_int k / 100)"
proof -
  have "(1::rat) \<le> of_int k" using assms(3) by simp
  moreover have "(of_int k :: rat) \<le> of_int (2 ^ 40)" using assms(4) by (simp only: of_int_le_iff)
  ultimately have b: "\<bar>fval x * 100\<bar> < 2 powi (40 + 1)"
    using assms(2) unfolding abs_less_iff abs_le_iff by simp
  then have "\<bar>fval x * fval (f64 100)\<bar> \<le> 2 ^ 1023"
  proof -
    have "(2::rat) powi (40 + 1) \<le> 2 powi 1023" by (simp only: powi2_le)
    then have "(2::rat) powi (40 + 1) \<le> 2 ^ 1023" by (simp only: power_int_numeral)
    with b show ?thesis unfolding f64_100(2) by linarith
  qed
  note T = times_finite [OF assms(1) f64_100(1) this]
  have "\<bar>fl (fval x * 100) - fval x * 100\<bar> \<le> 2 powi (40 - 53)" using b by (rule fl_err) simp
  also have "\<dots> < 1 / 4" by (simp add: f64_eval)
  finally have "\<bar>fval (x * f64 100) - of_int k\<bar> < 1 / 2"
    using T(2) assms(2) unfolding f64_100(2) abs_less_iff abs_le_iff by linarith
  then have "round_quota x = Fin (of_int k) / f64 100"
    unfolding round_quota_def by (simp only: math_Round_near [OF T(1) _ assms(3)])
  also have "\<dots> = f64 (of_int k / 100)"
  proof -
    have "f64 100 = Fin 100" by (simp add: f64_eval)
    then show ?thesis using assms(3) by (simp add: divide_float64_def is_zero_def f64_def)
  qed
  finally show ?thesis .
qed

lemma f64_hundredth:
  assumes "1 \<le> k" "k \<le> 2 ^ 40"
  shows "is_finite (f64 (of_int k / 100))" "\<bar>fval (f64 (of_int k / 100)) * 100 - of_int k\<bar> \<le> 1 / 4"
proof -
  let ?r = "of_int k / 100 :: rat"
  have "(1::rat) \<le> of_int k" using assms(1) by simp
  moreover have "(of_int k :: rat) \<le> of_int (2 ^ 40)" using assms(2) by (simp only: of_int_le_iff)
  ultimately have b: "\<bar>?r\<bar> < 2 powi (39 + 1)" by simp
  have "(2::rat) powi (39 + 1) \<le> 2 powi 1023" by (simp only: powi2_le)
  then have "(2::rat) powi (39 + 1) \<le> 2 ^ 1023" by (simp only: power_int_numeral)
  with b have "\<bar>?r\<bar> \<le> 2 ^ 1023" by linarith
  note F = round64_finite [OF this, of False]
  show "is_finite (f64 ?r)" using F(1) by (simp only: f64_def)
  have "\<bar>fl ?r - ?r\<bar> \<le> 2 powi (39 - 53)" using b by (rule fl_err) simp
  also have "\<dots> \<le> 1 / 400" by (simp add: f64_eval)
  finally have "\<bar>fval (f64 ?r) - ?r\<bar> \<le> 1 / 400" using F(2) by (simp only: f64_def)
  then show "\<bar>fval (f64 ?r) * 100 - of_int k\<bar> \<le> 1 / 4" unfolding abs_le_iff by linarith
qed

section \<open>The mean of two rates\<close>

lemma fl_twice: "fl a = a \<Longrightarrow> fl (2 * a) = 2 * a"
proof -
  assume "fl a = a"
  then obtain m e where a: "\<bar>m\<bar> \<le> 2 ^ 53" "-1074 \<le> e" "a = of_int m * 2 powi e"
    using fl_form [of a] by metis
  then have "2 * a = of_int m * 2 powi (e + 1)" by (simp add: powi2_add)
  then show ?thesis using fl_dyadic [OF a(1), of "e + 1"] a(2) by simp
qed

lemma mean_between:
  assumes "is_finite a" "is_finite b" "fl (fval a) = fval a" "fl (fval b) = fval b"
    "0 \<le> fval a" "fval a \<le> fval b" "fval b \<le> 2 ^ 1022"
  shows "a \<le> (a + b) / f64 2" "(a + b) / f64 2 \<le> b"
proof -
  have two: "is_finite (f64 2)" "fval (f64 2) = 2" by (simp_all add: f64_eval)
  have p: "(2::rat) * 2 ^ 1022 = 2 ^ 1023" by (simp only: power_Suc [symmetric]) simp
  have "\<bar>fval a + fval b\<bar> \<le> 2 ^ 1023" using assms(5-7) unfolding p [symmetric] by linarith
  note S = plus_finite [OF assms(1,2) this]
  have s: "2 * fval a \<le> fval (a + b)" "fval (a + b) \<le> 2 * fval b"
    unfolding S(2) using assms(3-6) by (auto intro!: fl.rnd_ge fl.rnd_le fl_twice)
  have "\<bar>fval (a + b) / fval (f64 2)\<bar> \<le> 2 ^ 1023"
    using s assms(5-7) p unfolding two(2) by (simp add: abs_le_iff del: power_numeral)
  note D = divide_finite [OF S(1) two(1) _ this]
  have "fval a \<le> fval ((a + b) / f64 2)" "fval ((a + b) / f64 2) \<le> fval b"
    using D(2) s assms(3,4) unfolding two(2) by (auto intro!: fl.rnd_ge fl.rnd_le)
  then show "a \<le> (a + b) / f64 2" "(a + b) / f64 2 \<le> b"
    using assms(1,2) D(1) unfolding two(2) by auto
qed

section \<open>Properties\<close>

text \<open>
  What \<open>Set\<close> stores \<open>Get\<close> finds, and nothing else changes: a rate that is not positive is refused;
  otherwise every later lookup with the same model, GPU type and percentage and with a quota that
  rounds to the same hundredth returns the new rate, and every other lookup returns what it
  returned before. A quota that is NaN is never found.
\<close>

theorem Set_then_Get:
  "Set s m g sm q qps =
    (if qps \<le> f64 0 then (s, False) else (fst (Set s m g sm q qps), True)) \<and>
   Get (fst (Set s m g sm q qps)) m' g' sm' q' =
    (if \<not> qps \<le> f64 0 \<and> m' = m \<and> g' = g \<and> sm' = sm \<and> float64_eq (round_quota q) (round_quota q')
     then (qps, True) else Get s m' g' sm' q')"
  by (auto simp: Set_def Get_def Let_def gm_get_put key_eq_def)

text \<open>
  Quotas are matched by hundredths: looking up any quota within a quarter of a hundredth of \<open>k/100\<close>
  (as the running sums of a loop over quotas are) reads the entry whose quota is the number
  written \<open>k/100\<close> in the table.
\<close>

lemma Get_hundredths:
  assumes "is_finite q" "\<bar>fval q * 100 - of_int k\<bar> \<le> 1 / 4" "1 \<le> k" "k \<le> 2 ^ 40"
  shows "Get s m g sm q =
    (case gm_get (data s) \<lparr>key_ModelName = m, key_GPUType = g, SMPercentage = sm,
        Quota = f64 (of_int k / 100)\<rparr> of
       None \<Rightarrow> (f64 0, False)
     | Some qps \<Rightarrow> if qps \<le> f64 0 then (f64 0, False) else (qps, True)) \<and>
    Get s m g sm (f64 (of_int k / 100)) = Get s m g sm q"
  using round_quota_near [OF assms] round_quota_near [OF f64_hundredth [OF assms(3,4)] assms(3,4)]
  by (simp add: Get_def)

text \<open>
  C33. The table \<open>NewRPSStore\<close> builds: it exists unless a file cannot be opened; under a key it holds
  the rate of some row with that key, and no row of any file with that key has a greater rate; a
  key of a valid row is always present; and every rate in it is one that is not \<open>\<le> 0\<close>.
\<close>

theorem NewRPSStore_greatest:
  assumes "\<forall>f \<in> set csvFiles. open_read f \<noteq> OpenFails"
  shows "\<exists>s. NewRPSStore open_read = Some s \<and>
    (\<forall>f k v l. f \<in> set csvFiles \<and> (k, v) \<in> set (file_rows (open_read f)) \<and> key_eq k l \<longrightarrow>
      (\<exists>u. gm_get (data s) l = Some u \<and> \<not> u < v)) \<and>
    (\<forall>l u. gm_get (data s) l = Some u \<longrightarrow>
      (\<exists>f k. f \<in> set csvFiles \<and> (k, u) \<in> set (file_rows (open_read f)) \<and> key_eq k l \<and> \<not> u \<le> f64 0))"
proof -
  let ?rows = "concat (map (\<lambda>f. file_rows (open_read f)) csvFiles)"
  have "OpenFails \<notin> open_read ` set csvFiles" using assms by auto
  then have s: "NewRPSStore open_read = Some \<lparr>data = foldl profile.keep [] ?rows\<rparr>"
    by (simp add: NewRPSStore_def load_files_rows NewRPSStoreFromMap_def keep_greater_eq)
  have a: "\<exists>u. gm_get (foldl profile.keep [] ?rows) l = Some u \<and> \<not> u < v"
    if "f \<in> set csvFiles" "(k, v) \<in> set (file_rows (open_read f))" "key_eq k l" for f k v l
    using that by (intro profile.keeps_best [of k v]) auto
  have b: "\<exists>f k. f \<in> set csvFiles \<and> (k, u) \<in> set (file_rows (open_read f)) \<and> key_eq k l \<and> \<not> u \<le> f64 0"
    if g: "gm_get (foldl profile.keep [] ?rows) l = Some u" for l u
  proof -
    obtain k where "(k, u) \<in> set ?rows" "key_eq k l"
      using profile.keeps_from [OF g] by auto
    then show ?thesis using file_rows_pos by fastforce
  qed
  show ?thesis using a b unfolding s by (intro exI conjI refl) auto
qed

theorem NewRPSStore_greatest_witness:
  "\<exists>s. NewRPSStore (\<lambda>f. Records [[''gpuName'', ''model'', ''quota'', ''sm'', ''qps''],
      [''a100'', ''bert'', ''0.5'', ''24'', ''9.5'']]) = Some s"
  using NewRPSStore_greatest [of "\<lambda>f. Records [[''gpuName'', ''model'', ''quota'', ''sm'', ''qps''],
      [''a100'', ''bert'', ''0.5'', ''24'', ''9.5'']]"] by auto



end
