(* ===== verification/Node_Manager.thy ===== *)
theory Node_Manager
  imports Gpu_Manager Profile
begin

text \<open>
  \<^verbatim>\<open>internal/controller/node_manager.go\<close>: the nodes the autoscaler knows, their heartbeats, and the
  life of a node's TCP connection. Every access to the map of nodes holds \<^verbatim>\<open>nodesMtx\<close>, so an
  operation is one step; connections of several nodes, or several connections of one node,
  interleave step by step (\<open>nm_step\<close>). Times are nanoseconds of the monotonic clock.
\<close>

section \<open>Data\<close>

text \<open>What a node's configurator reports of its GPUs (messages of the package \<^verbatim>\<open>seti\<close>).\<close>

record ProvisionedGPU =
  pg_Uuid :: string
  pg_MemoryBytes :: int
  pg_ParentUuid :: string

record VirtualGPU =
  vg_Id :: string
  IsProvisioned :: bool
  ProvisionedGpu :: "ProvisionedGPU option"
  PhysicalGpuType :: string
  SmPercentage :: int
  vg_MemoryBytes :: int
  Profileid :: "int option"

datatype NodeStatus = NodeReady | NodeNotReady

text \<open>The gRPC client of a node is a handle; its calls are arguments of the operations that make them.
  The GPUs in \<open>physicalGPUsMap\<close> are addresses.\<close>

record Node =
  node_IP :: string
  GrpcPort :: int
  Status :: NodeStatus
  GrpcClient :: nat
  LastHeartbeat :: int
  NodeName :: string
  availableGPUs :: "VirtualGPU list"
  physicalGPUsMap :: "(string, gpu_addr) fmap"

record NodeManager =
  nodes :: "(string, Node) fmap"
  qpsStore :: QPSStore
  checkTickerItv :: int

section \<open>Operations\<close>

definition second :: int where
  "second = 1000000000"

text \<open>\<^verbatim>\<open>Time.Sub\<close> saturates; \<^verbatim>\<open>Duration.Seconds\<close> adds whole seconds and the fraction as floats.\<close>

definition time_Sub :: "int \<Rightarrow> int \<Rightarrow> int" where
  "time_Sub t u = max (- (2 ^ 63)) (min (2 ^ 63 - 1) (t - u))"

definition duration_Seconds :: "int \<Rightarrow> float64" where
  "duration_Seconds d =
     float64_of_int (go_div d second) + float64_of_int (go_mod d second) / f64 1000000000"

definition NewNodeManager :: "int \<Rightarrow> QPSStore \<Rightarrow> NodeManager" where
  "NewNodeManager checkInterval store =
    (let interval = wrap64 (checkInterval * second);
         interval = (if interval < 10 * second then 10 * second else interval)
     in \<lparr>nodes = fmempty, qpsStore = store,
         checkTickerItv = int_of_float64 (duration_Seconds interval)\<rparr>)"

definition UpdateHeartbeat :: "NodeManager \<Rightarrow> string \<Rightarrow> int \<Rightarrow> NodeManager \<times> bool" where
  "UpdateHeartbeat nm nodeName now =
    (case fmlookup (nodes nm) nodeName of
       Some node \<Rightarrow>
         (nm\<lparr>nodes := fmupd nodeName (node\<lparr>Status := NodeReady, LastHeartbeat := now\<rparr>) (nodes nm)\<rparr>, True)
     | None \<Rightarrow> (nm, False))"

definition CheckNodeLiveness :: "NodeManager \<Rightarrow> int \<Rightarrow> NodeManager" where
  "CheckNodeLiveness nm curTime = nm\<lparr>nodes := fmmap (\<lambda>node.
     if duration_Seconds (time_Sub curTime (LastHeartbeat node)) > float64_of_int (checkTickerItv nm)
     then node\<lparr>Status := NodeNotReady\<rparr> else node) (nodes nm)\<rparr>"

definition GetNodeStatus :: "NodeManager \<Rightarrow> string \<Rightarrow> NodeStatus" where
  "GetNodeStatus nm nodeName =
    (case fmlookup (nodes nm) nodeName of Some node \<Rightarrow> Status node | None \<Rightarrow> NodeNotReady)"

definition ListNodes :: "NodeManager \<Rightarrow> (string, Node) fmap" where
  "ListNodes nm = nodes nm"

subsection \<open>A connection\<close>

text \<open>
  What the environment gives a new connection: the peer's address; the hello message (None when it
  cannot be read or decoded); the daemon pod's node name and host address (empty when there is no
  such pod); whether the acknowledgement is encoded and sent; the health answer (None on error);
  the GPU list (None on error); the handle of the client.
\<close>

record hello_env =
  remoteAddr :: string
  hello :: "(string \<times> int) option"
  podNodeName :: string
  podHostIP :: string
  ackOk :: bool
  health :: "bool option"
  gpuList :: "VirtualGPU list option"
  client :: nat

text \<open>The handshake: None when the connection is dropped, otherwise the node is registered under its
  name, replacing what was there.\<close>

definition handshake :: "NodeManager \<Rightarrow> hello_env \<Rightarrow> int \<Rightarrow> (NodeManager \<times> string) option" where
  "handshake nm env now =
    (let nodeIP = takeWhile (\<lambda>c. c \<noteq> CHR '':'') (remoteAddr env) in
     case hello env of
       None \<Rightarrow> None
     | Some (hostname, grpcPort) \<Rightarrow>
         let nodeName = (if podNodeName env \<noteq> [] then podNodeName env else hostname);
             nodeIP = (if podNodeName env \<noteq> [] then podHostIP env else nodeIP)
         in if \<not> ackOk env then None
            else case health env of
              None \<Rightarrow> None
            | Some healthy \<Rightarrow>
                if \<not> healthy then None
                else case gpuList env of
                  None \<Rightarrow> None
                | Some gpus \<Rightarrow>
                    Some (nm\<lparr>nodes := fmupd nodeName
                      \<lparr>node_IP = nodeIP, GrpcPort = grpcPort, Status = NodeReady, GrpcClient = client env,
                       LastHeartbeat = now, NodeName = nodeName, availableGPUs = gpus,
                       physicalGPUsMap = fmempty\<rparr> (nodes nm)\<rparr>, nodeName))"

text \<open>One round of the heartbeat loop; the flag says whether the loop goes on.\<close>

datatype heartbeat = ReadError | DecodeError | Beat bool

definition mark_not_ready :: "NodeManager \<Rightarrow> string \<Rightarrow> NodeManager" where
  "mark_not_ready nm nodeName =
    (case fmlookup (nodes nm) nodeName of
       Some node \<Rightarrow> nm\<lparr>nodes := fmupd nodeName (node\<lparr>Status := NodeNotReady\<rparr>) (nodes nm)\<rparr>
     | None \<Rightarrow> nm)"

definition heartbeat_round :: "NodeManager \<Rightarrow> string \<Rightarrow> heartbeat \<Rightarrow> int \<Rightarrow> NodeManager \<times> bool" where
  "heartbeat_round nm nodeName msg now =
    (case msg of
       ReadError \<Rightarrow> (mark_not_ready nm nodeName, False)
     | DecodeError \<Rightarrow> (mark_not_ready nm nodeName, False)
     | Beat alive \<Rightarrow>
         if \<not> alive then (mark_not_ready nm nodeName, False)
         else (fst (UpdateHeartbeat nm nodeName now), True))"

lemmas node_eval [go_eval] =
  second_def time_Sub_def duration_Seconds_def NewNodeManager_def UpdateHeartbeat_def CheckNodeLiveness_def
  GetNodeStatus_def ListNodes_def handshake_def mark_not_ready_def heartbeat_round_def

section \<open>The system of connections\<close>

text \<open>The manager, the clock and the open connections, each with the name of the node it serves.\<close>

record nm_state =
  mgr :: NodeManager
  clock :: int
  conns :: "(nat, string) fmap"

inductive nm_step :: "nm_state \<Rightarrow> nm_state \<Rightarrow> bool" where
  connect: "fmlookup (conns s) c = None \<Longrightarrow> handshake (mgr s) env (clock s) = Some (nm, nodeName) \<Longrightarrow>
    nm_step s (s\<lparr>mgr := nm, conns := fmupd c nodeName (conns s)\<rparr>)"
| refuse: "handshake (mgr s) env (clock s) = None \<Longrightarrow> nm_step s s"
| beat: "fmlookup (conns s) c = Some nodeName \<Longrightarrow> heartbeat_round (mgr s) nodeName msg (clock s) = (nm, True) \<Longrightarrow>
    nm_step s (s\<lparr>mgr := nm\<rparr>)"
| close: "fmlookup (conns s) c = Some nodeName \<Longrightarrow> heartbeat_round (mgr s) nodeName msg (clock s) = (nm, False) \<Longrightarrow>
    nm_step s (s\<lparr>mgr := nm, conns := fmdrop c (conns s)\<rparr>)"
| check: "nm_step s (s\<lparr>mgr := CheckNodeLiveness (mgr s) (clock s)\<rparr>)"
| tick: "clock s \<le> t \<Longrightarrow> t < 2 ^ 63 \<Longrightarrow> nm_step s (s\<lparr>clock := t\<rparr>)"

inductive_cases nm_stepE: "nm_step s t"

inductive nm_reachable :: "int \<Rightarrow> QPSStore \<Rightarrow> nm_state \<Rightarrow> bool" for itv :: int and store :: QPSStore where
  start: "0 \<le> t \<Longrightarrow> t < 2 ^ 63 \<Longrightarrow>
    nm_reachable itv store \<lparr>mgr = NewNodeManager itv store, clock = t, conns = fmempty\<rparr>"
| step: "nm_reachable itv store s \<Longrightarrow> nm_step s s' \<Longrightarrow> nm_reachable itv store s'"

definition nm_inv :: "int \<Rightarrow> nm_state \<Rightarrow> bool" where
  "nm_inv itv s \<longleftrightarrow> 0 \<le> clock s \<and> clock s < 2 ^ 63 \<and> checkTickerItv (mgr s) = itv \<and>
     (\<forall>n node. fmlookup (nodes (mgr s)) n = Some node \<longrightarrow>
        NodeName node = n \<and> 0 \<le> LastHeartbeat node \<and> LastHeartbeat node \<le> clock s) \<and>
     (\<forall>c n. fmlookup (conns s) c = Some n \<longrightarrow> n |\<in>| fmdom (nodes (mgr s)))"

lemma nodes_mark [simp]:
  "fmlookup (nodes (mark_not_ready nm n)) m =
    (if m = n then map_option (\<lambda>node. node\<lparr>Status := NodeNotReady\<rparr>) (fmlookup (nodes nm) n)
     else fmlookup (nodes nm) m)"
  "checkTickerItv (mark_not_ready nm n) = checkTickerItv nm"
  by (auto simp: mark_not_ready_def split: option.splits)

lemma nodes_update [simp]:
  "fmlookup (nodes (fst (UpdateHeartbeat nm n t))) m =
    (if m = n then map_option (\<lambda>node. node\<lparr>Status := NodeReady, LastHeartbeat := t\<rparr>) (fmlookup (nodes nm) n)
     else fmlookup (nodes nm) m)"
  "checkTickerItv (fst (UpdateHeartbeat nm n t)) = checkTickerItv nm"
  by (auto simp: UpdateHeartbeat_def split: option.splits)

lemma handshake_cases:
  assumes "handshake nm env t = Some (nm', n)"
  obtains node where "nm' = nm\<lparr>nodes := fmupd n node (nodes nm)\<rparr>" "NodeName node = n" "LastHeartbeat node = t"
    "Status node = NodeReady" "physicalGPUsMap node = fmempty" "gpuList env = Some (availableGPUs node)"
proof -
  have "\<exists>ip port g. gpuList env = Some g \<and> nm' = nm\<lparr>nodes := fmupd n \<lparr>node_IP = ip, GrpcPort = port,
      Status = NodeReady, GrpcClient = client env, LastHeartbeat = t, NodeName = n, availableGPUs = g,
      physicalGPUsMap = fmempty\<rparr> (nodes nm)\<rparr>"
    using assms by (auto simp: handshake_def Let_def split: option.splits prod.splits if_splits)
  then show thesis by (elim exE conjE) (rule that, assumption, simp_all)
qed

lemma round_cases:
  "heartbeat_round nm n msg t = (nm', True) \<Longrightarrow> nm' = fst (UpdateHeartbeat nm n t) \<and> msg = Beat True"
  "heartbeat_round nm n msg t = (nm', False) \<Longrightarrow> nm' = mark_not_ready nm n"
  by (auto simp: heartbeat_round_def split: heartbeat.splits if_splits)

lemma nm_inv_step:
  assumes "nm_inv itv s" "nm_step s s'" shows "nm_inv itv s'"
  using assms(2)
proof (cases rule: nm_step.cases)
  case (connect c env nm nodeName)
  show ?thesis
    using connect(3) by (rule handshake_cases) (use assms(1) connect(1) in \<open>auto simp: nm_inv_def\<close>)
next
  case (beat c nodeName msg nm)
  then show ?thesis using assms(1) round_cases(1) [OF beat(3)]
    by (auto simp: nm_inv_def fmlookup_dom_iff split: if_splits)
next
  case (close c nodeName msg nm)
  then show ?thesis using assms(1) round_cases(2) [OF close(3)]
    by (auto simp: nm_inv_def fmlookup_dom_iff fmdrop_lookup_if split: if_splits)
next
  case check
  then show ?thesis using assms(1) by (auto simp: nm_inv_def CheckNodeLiveness_def split: if_splits)
qed (use assms(1) in \<open>force simp: nm_inv_def\<close>)+

lemma nm_inv_reachable:
  assumes "nm_reachable itv store s" shows "nm_inv (checkTickerItv (NewNodeManager itv store)) s"
  using assms
proof (induction rule: nm_reachable.induct)
  case (start t)
  then show ?case by (simp add: nm_inv_def NewNodeManager_def Let_def)
next
  case (step s s')
  then show ?case by (blast intro: nm_inv_step)
qed

section \<open>Durations\<close>

lemma float64_of_int_exact:
  assumes "\<bar>n\<bar> \<le> 2 ^ 53" shows "is_finite (float64_of_int n)" "fval (float64_of_int n) = of_int n"
proof -
  have "\<bar>of_int n :: rat\<bar> \<le> of_int (2 ^ 53)" using assms by (simp only: of_int_abs [symmetric] of_int_le_iff)
  also have "of_int (2 ^ 53) \<le> (2::rat) ^ 1023"
  proof -
    have "(2::rat) ^ 53 \<le> 2 ^ 1023" by (rule power_increasing) simp_all
    then show ?thesis by (simp only: of_int_power of_int_numeral)
  qed
  finally have "\<bar>of_int n :: rat\<bar> \<le> 2 ^ 1023" .
  note F = round64_finite [OF this, of False]
  show "is_finite (float64_of_int n)" using F(1) by (simp only: float64_of_int_def)
  show "fval (float64_of_int n) = of_int n"
    using F(2) fl_of_int [OF assms] by (simp only: float64_of_int_def)
qed

lemma f64_giga: "is_finite (f64 1000000000)" "fval (f64 1000000000) = 1000000000"
proof -
  have e: "f64 1000000000 = float64_of_int 1000000000" by (simp add: f64_def float64_of_int_def)
  show "is_finite (f64 1000000000)" "fval (f64 1000000000) = 1000000000"
    unfolding e using float64_of_int_exact [of 1000000000] by simp_all
qed

text \<open>The fraction of a second as a float.\<close>

lemma nanos:
  assumes "0 \<le> ns" "ns < 1000000000"
  defines "x \<equiv> float64_of_int ns / f64 1000000000"
  shows "is_finite x" "0 \<le> fval x" "fval x \<le> 1" "ns = 0 \<Longrightarrow> fval x = 0" "0 < ns \<Longrightarrow> 1 / 2 ^ 30 \<le> fval x"
proof -
  have "\<bar>ns\<bar> \<le> 2 ^ 53" using assms by simp
  note n = float64_of_int_exact [OF this]
  have r: "(0::rat) \<le> of_int ns" "of_int ns < (1000000000::rat)"
    using assms(1,2) by (simp, metis of_int_less_iff of_int_numeral)
  then have b: "0 \<le> of_int ns / (1000000000::rat)" "of_int ns / (1000000000::rat) \<le> 1" by simp_all
  then have "\<bar>fval (float64_of_int ns) / fval (f64 1000000000)\<bar> \<le> 2 ^ 1023"
    unfolding n f64_giga by (intro two_less_big) simp
  note D = divide_finite [OF n(1) f64_giga(1) _ this]
  show "is_finite x" unfolding x_def using D(1) f64_giga(2) by simp
  have v: "fval x = fl (of_int ns / 1000000000)" unfolding x_def using D(2) f64_giga(2) n(2) by simp
  show "0 \<le> fval x" "fval x \<le> 1" unfolding v using b by (auto intro: fl_nonneg fl.rnd_le)
  show "ns = 0 \<Longrightarrow> fval x = 0" unfolding v by simp
  assume "0 < ns"
  then have "(1::rat) \<le> of_int ns" by simp
  then have "1 / 2 ^ 30 \<le> of_int ns / (1000000000::rat)" by simp
  moreover have "fl (1 / 2 ^ 30) = 1 / 2 ^ 30"
    using fl_dyadic [of 1 "-30"] by (simp add: powi_minus_numeral)
  ultimately show "1 / 2 ^ 30 \<le> fval x" unfolding v by (rule fl.rnd_ge)
qed

text \<open>Comparing a duration in float seconds with a whole number of seconds is exact to the nanosecond.\<close>

lemma duration_exceeds:
  assumes "0 \<le> d" "d < 2 ^ 63" "0 \<le> itv" "itv \<le> 2 ^ 20"
  shows "duration_Seconds d > float64_of_int itv \<longleftrightarrow> itv * second < d"
proof -
  let ?s = "d div second" and ?n = "d mod second" and ?x = "float64_of_int (d mod second) / f64 1000000000"
  have n: "0 \<le> ?n" "?n < 1000000000" by (simp_all add: second_def)
  note N = nanos [OF n]
  have d: "d = ?s * second + ?n" by simp
  have s0: "0 \<le> ?s" using assms(1) by (simp add: second_def pos_imp_zdiv_nonneg_iff)
  have s1: "?s \<le> 2 ^ 34" using assms(2) d n(1) by (simp add: second_def)
  have "\<bar>?s\<bar> \<le> 2 ^ 53" "\<bar>itv\<bar> \<le> 2 ^ 53" using s0 s1 assms(3,4) by simp_all
  note S = float64_of_int_exact [OF this(1)] and I = float64_of_int_exact [OF this(2)]
  have sr: "(0::rat) \<le> of_int ?s" "of_int ?s \<le> (2::rat) ^ 34"
    using s0 s1 by (simp_all add: of_int_le_numeral_power_cancel_iff del: power_numeral)
  have "(2::rat) ^ 34 + 1 \<le> 2 ^ 35" by simp
  also have "(2::rat) ^ 35 \<le> 2 ^ 1023" by (rule power_increasing) simp_all
  finally have "\<bar>fval (float64_of_int ?s) + fval ?x\<bar> \<le> 2 ^ 1023"
    unfolding S(2) abs_le_iff using sr N(2,3) by linarith
  note P = plus_finite [OF S(1) N(1) this]
  have "go_div d second = ?s" using assms(1) by (intro go_div_pos) (simp_all add: second_def)
  moreover have "go_mod d second = ?n"
    using calculation by (simp add: go_mod_def minus_mult_div_eq_mod)
  ultimately have D: "is_finite (duration_Seconds d)" "fval (duration_Seconds d) = fl (of_int ?s + fval ?x)"
    using P S(2) by (simp_all add: duration_Seconds_def)
  have gt: "duration_Seconds d > float64_of_int itv \<longleftrightarrow> of_int itv < fl (of_int ?s + fval ?x)"
    using D I by simp
  have fi: "fl (of_int itv) = of_int itv" "fl (of_int ?s) = of_int ?s"
    using \<open>\<bar>itv\<bar> \<le> 2 ^ 53\<close> \<open>\<bar>?s\<bar> \<le> 2 ^ 53\<close> by (simp_all only: fl_of_int)
  consider "?s < itv" | "?s = itv" "?n = 0" | "?s = itv" "0 < ?n" | "itv < ?s" using n by linarith
  then show ?thesis
  proof cases
    case 1
    then have "(of_int (?s + 1) :: rat) \<le> of_int itv" by (simp only: of_int_le_iff)
    then have "(of_int ?s :: rat) + 1 \<le> of_int itv" by simp
    then have "fl (of_int ?s + fval ?x) \<le> of_int itv" using N(3) fi(1) by (intro fl.rnd_le) auto
    moreover have "d \<le> itv * second"
      using 1 d n mult_right_mono [of "?s + 1" itv second] by (simp add: second_def)
    ultimately show ?thesis unfolding gt by simp
  next
    case 2
    then show ?thesis unfolding gt using N(4) fi d by simp
  next
    case 3
    have "\<bar>itv * 2 ^ 30 + 1\<bar> \<le> 2 ^ 53" using assms(3,4) by simp
    then have f: "fl (of_int (itv * 2 ^ 30 + 1) * 2 powi (- 30)) = of_int (itv * 2 ^ 30 + 1) * 2 powi (- 30)"
      by (rule fl_dyadic) simp
    have e: "of_int (itv * 2 ^ 30 + 1) * 2 powi (- 30) = (of_int itv + 1 / 2 ^ 30 :: rat)"
      by (simp add: powi_minus_numeral add_divide_distrib)
    have "of_int itv + 1 / 2 ^ 30 \<le> fl (of_int itv + fval ?x)"
      by (rule fl.rnd_ge [OF add_left_mono [OF N(5) [OF 3(2)]] f [unfolded e]])
    moreover have "(0::rat) < 1 / 2 ^ 30" by simp
    ultimately have "of_int itv < fl (of_int itv + fval ?x)" by linarith
    then show ?thesis unfolding gt using 3 d by simp
  next
    case 4
    then have "(of_int itv :: rat) < of_int ?s" by simp
    also have "of_int ?s \<le> fl (of_int ?s + fval ?x)" using N(2) fi(2) by (intro fl.rnd_ge) auto
    finally have "of_int itv < fl (of_int ?s + fval ?x)" .
    moreover have "itv * second < d"
      using 4 d n mult_right_mono [of "itv + 1" ?s second] by (simp add: second_def)
    ultimately show ?thesis unfolding gt by simp
  qed
qed

lemma duration_whole:
  assumes "0 \<le> n" "n \<le> 2 ^ 20" shows "int_of_float64 (duration_Seconds (n * second)) = n"
proof -
  have "\<bar>n\<bar> \<le> 2 ^ 53" using assms by simp
  note F = float64_of_int_exact [OF this] and Z = nanos [of 0]
  have "(of_int n :: rat) \<le> of_int (2 ^ 20)" using assms(2) by (simp only: of_int_le_iff)
  also have "of_int (2 ^ 20) \<le> (2::rat) ^ 1023"
  proof -
    have "(2::rat) ^ 20 \<le> 2 ^ 1023" by (rule power_increasing) simp_all
    then show ?thesis by (simp only: of_int_power of_int_numeral)
  qed
  finally have b: "\<bar>fval (float64_of_int n) + fval (float64_of_int 0 / f64 1000000000)\<bar> \<le> 2 ^ 1023"
    using F(2) Z(4) assms(1) by (simp del: power_numeral)
  have d: "go_div (n * second) second = n" "go_mod (n * second) second = 0"
    using assms(1) by (simp_all add: go_mod_def go_div_pos second_def)
  have "is_finite (float64_of_int 0 / f64 1000000000)" using Z(1) by simp
  note P = plus_finite [OF F(1) this b]
  have "is_finite (duration_Seconds (n * second))" "fval (duration_Seconds (n * second)) = of_int n"
    using P F(2) Z(4) fl_of_int [OF \<open>\<bar>n\<bar> \<le> 2 ^ 53\<close>] by (simp_all add: duration_Seconds_def d)
  then show ?thesis using assms by (simp add: int_of_float64_def trunc_def int64_def)
qed

lemma checkTickerItv_New:
  assumes "0 \<le> itv" "itv \<le> 2 ^ 20"
  shows "checkTickerItv (NewNodeManager itv store) = max 10 itv"
proof -
  have w: "wrap64 (itv * second) = itv * second"
    using assms by (intro wrap64_id) (simp add: int64_def second_def)
  show ?thesis
  proof (cases "itv < 10")
    case True
    then show ?thesis using duration_whole [of 10] w by (simp add: NewNodeManager_def Let_def second_def)
  next
    case False
    then show ?thesis using duration_whole [OF assms] w by (simp add: NewNodeManager_def Let_def second_def)
  qed
qed

section \<open>Properties\<close>

text \<open>
  C32. In every reachable state of the node manager, whatever the interleaving of connections, beats,
  disconnections and liveness checks: a node is registered under its own name, its last heartbeat
  is not in the future, and every open connection serves a registered node.
\<close>

theorem nodes_consistent:
  assumes "nm_reachable itv store s"
  shows "(\<forall>n node. fmlookup (ListNodes (mgr s)) n = Some node \<longrightarrow>
      NodeName node = n \<and> LastHeartbeat node \<le> clock s) \<and>
    (\<forall>c n. fmlookup (conns s) c = Some n \<longrightarrow> n |\<in>| fmdom (ListNodes (mgr s)))"
  using nm_inv_reachable [OF assms] by (simp add: nm_inv_def ListNodes_def)

text \<open>A node that connects with one unprovisioned GPU, for concrete runs.\<close>

definition example_env :: hello_env where
  "example_env = \<lparr>remoteAddr = ''10.0.0.7:51234'', hello = Some (''n1'', 5000), podNodeName = [], podHostIP = [],
     ackOk = True, health = Some True, gpuList = Some [\<lparr>vg_Id = ''v1'', IsProvisioned = False, ProvisionedGpu = None,
       PhysicalGpuType = ''NVIDIA A100-PCIE-40GB'', SmPercentage = 100, vg_MemoryBytes = 40000000000,
       Profileid = None\<rparr>], client = 1\<rparr>"

definition example_state :: "nat list \<Rightarrow> nm_state" where
  "example_state cs = \<lparr>mgr = fst (the (handshake (NewNodeManager 5 NewEmptyQPSStore) example_env 0)), clock = 0,
     conns = fmap_of_list (map (\<lambda>c. (c, ''n1'')) cs)\<rparr>"

lemma example_handshake:
  "handshake (mgr (example_state cs)) example_env 0 = Some (mgr (example_state cs), ''n1'')"
  "handshake (NewNodeManager 5 NewEmptyQPSStore) example_env 0 = Some (mgr (example_state cs), ''n1'')"
  by (simp_all add: example_state_def handshake_def example_env_def)

lemma example_reachable:
  "nm_reachable 5 NewEmptyQPSStore (example_state [1])" "nm_reachable 5 NewEmptyQPSStore (example_state [2, 1])"
proof -
  let ?s0 = "\<lparr>mgr = NewNodeManager 5 NewEmptyQPSStore, clock = 0, conns = fmempty\<rparr>"
  have "nm_reachable 5 NewEmptyQPSStore ?s0" by (rule nm_reachable.start) simp_all
  moreover have "nm_step ?s0 (?s0\<lparr>mgr := mgr (example_state [1]), conns := fmupd 1 ''n1'' (conns ?s0)\<rparr>)"
    using example_handshake(2) by (intro nm_step.connect) simp_all
  ultimately show r: "nm_reachable 5 NewEmptyQPSStore (example_state [1])"
    using nm_reachable.step by (fastforce simp: example_state_def)
  have "nm_step (example_state [1]) ((example_state [1])\<lparr>mgr := mgr (example_state [1]),
      conns := fmupd 2 ''n1'' (conns (example_state [1]))\<rparr>)"
    using example_handshake(1) [of "[1]"] by (intro nm_step.connect) (simp_all add: example_state_def)
  with r show "nm_reachable 5 NewEmptyQPSStore (example_state [2, 1])"
    using nm_reachable.step by (fastforce simp: example_state_def)
qed

theorem nodes_consistent_witness:
  "\<exists>node. fmlookup (ListNodes (mgr (example_state [1]))) ''n1'' = Some node \<and> NodeName node = ''n1''"
  using nodes_consistent [OF example_reachable(1)]
  by (simp add: example_state_def handshake_def example_env_def ListNodes_def)

text \<open>
  \<open>CheckNodeLiveness\<close> is exact to the nanosecond, although it compares floating-point seconds: a
  node keeps its status if its last heartbeat is at most the check interval ago (the interval given
  to \<open>NewNodeManager\<close>, but at least 10 seconds), and is not ready otherwise.
\<close>

theorem CheckNodeLiveness_exact:
  assumes "nm_reachable itv store s" "0 \<le> itv" "itv \<le> 2 ^ 20"
  shows "GetNodeStatus (CheckNodeLiveness (mgr s) (clock s)) n =
    (case fmlookup (nodes (mgr s)) n of
       None \<Rightarrow> NodeNotReady
     | Some node \<Rightarrow>
         if clock s - LastHeartbeat node \<le> max 10 itv * second then Status node else NodeNotReady)"
proof (cases "fmlookup (nodes (mgr s)) n")
  case None
  then show ?thesis by (simp add: GetNodeStatus_def CheckNodeLiveness_def)
next
  case (Some node)
  have I: "nm_inv (max 10 itv) s" using nm_inv_reachable [OF assms(1)] checkTickerItv_New [OF assms(2,3)] by simp
  then have "0 \<le> LastHeartbeat node" "LastHeartbeat node \<le> clock s" "clock s < 2 ^ 63"
    using Some by (auto simp: nm_inv_def)
  then have b: "0 \<le> clock s - LastHeartbeat node" "clock s - LastHeartbeat node < 2 ^ 63" by linarith+
  then have "time_Sub (clock s) (LastHeartbeat node) = clock s - LastHeartbeat node" by (simp add: time_Sub_def)
  moreover have "duration_Seconds (clock s - LastHeartbeat node) > float64_of_int (max 10 itv) \<longleftrightarrow>
      max 10 itv * second < clock s - LastHeartbeat node"
    using b assms(2,3) by (intro duration_exceeds) auto
  ultimately show ?thesis
    using Some I by (auto simp: GetNodeStatus_def CheckNodeLiveness_def nm_inv_def)
qed

theorem CheckNodeLiveness_exact_witness:
  "GetNodeStatus (CheckNodeLiveness (mgr (example_state [1])) (clock (example_state [1]))) ''n1'' = NodeReady"
  using CheckNodeLiveness_exact [OF example_reachable(1), of "''n1''"]
  by (simp add: example_state_def handshake_def example_env_def second_def)

text \<open>
  A connection is registered exactly when the hello can be read, the acknowledgement is sent, the
  node is healthy and its GPU list arrives; the node is then ready as of now, with the GPUs it
  reported and no GPU in use, and every other node is as before. A beat that says alive makes a
  registered node ready as of now; a read error, a message that cannot be decoded or a beat that
  says not alive makes it not ready and ends the connection; nothing else changes.
\<close>

theorem connection_steps:
  "(case handshake nm env now of
      None \<Rightarrow> \<not> (hello env \<noteq> None \<and> ackOk env \<and> health env = Some True \<and> gpuList env \<noteq> None)
    | Some (nm', n) \<Rightarrow> hello env \<noteq> None \<and> ackOk env \<and> health env = Some True \<and>
        (\<exists>node. nodes nm' = fmupd n node (nodes nm) \<and> NodeName node = n \<and> Status node = NodeReady \<and>
          LastHeartbeat node = now \<and> physicalGPUsMap node = fmempty \<and>
          gpuList env = Some (availableGPUs node))) \<and>
   (case heartbeat_round nm n msg now of (nm', goes_on) \<Rightarrow>
      goes_on = (msg = Beat True) \<and>
      GetNodeStatus nm' m = (if m = n \<and> n |\<in>| fmdom (nodes nm) then (if goes_on then NodeReady else NodeNotReady)
        else GetNodeStatus nm m) \<and>
      fmdom (nodes nm') = fmdom (nodes nm))"
proof
  show "case handshake nm env now of
      None \<Rightarrow> \<not> (hello env \<noteq> None \<and> ackOk env \<and> health env = Some True \<and> gpuList env \<noteq> None)
    | Some (nm', n) \<Rightarrow> hello env \<noteq> None \<and> ackOk env \<and> health env = Some True \<and>
        (\<exists>node. nodes nm' = fmupd n node (nodes nm) \<and> NodeName node = n \<and> Status node = NodeReady \<and>
          LastHeartbeat node = now \<and> physicalGPUsMap node = fmempty \<and>
          gpuList env = Some (availableGPUs node))"
  proof (cases "handshake nm env now")
    case (Some r)
    obtain nm' n where r: "r = (nm', n)" by force
    obtain node where "nm' = nm\<lparr>nodes := fmupd n node (nodes nm)\<rparr>" "NodeName node = n" "LastHeartbeat node = now"
        "Status node = NodeReady" "physicalGPUsMap node = fmempty" "gpuList env = Some (availableGPUs node)"
      using Some r handshake_cases by metis
    moreover have "hello env \<noteq> None \<and> ackOk env \<and> health env = Some True"
      using Some by (auto simp: handshake_def Let_def split: option.splits prod.splits if_splits)
    ultimately show ?thesis using Some r by auto
  qed (auto simp: handshake_def Let_def split: option.splits prod.splits if_splits)
  have dom: "fmdom (nodes (mark_not_ready nm n)) = fmdom (nodes nm)"
      "fmdom (nodes (fst (UpdateHeartbeat nm n now))) = fmdom (nodes nm)"
    by (rule fset_eqI; auto simp: fmlookup_dom_iff)+
  then show "case heartbeat_round nm n msg now of (nm', goes_on) \<Rightarrow>
      goes_on = (msg = Beat True) \<and>
      GetNodeStatus nm' m = (if m = n \<and> n |\<in>| fmdom (nodes nm) then (if goes_on then NodeReady else NodeNotReady)
        else GetNodeStatus nm m) \<and>
      fmdom (nodes nm') = fmdom (nodes nm)"
    by (auto simp: heartbeat_round_def GetNodeStatus_def fmlookup_dom_iff split: heartbeat.splits option.splits)
qed

text \<open>
  A stale connection takes a live node down: when a node has reconnected and the connection it had
  before then fails, the node is marked not ready although its new connection is open; only the next
  beat of the new connection makes it ready again.
\<close>

theorem stale_close_marks_down:
  assumes "nm_reachable itv store s" "fmlookup (conns s) old = Some n" "fmlookup (conns s) new = Some n" "old \<noteq> new"
  shows "\<exists>s'. nm_step s s' \<and> fmlookup (conns s') new = Some n \<and> GetNodeStatus (mgr s') n = NodeNotReady \<and>
    (\<exists>s''. nm_step s' s'' \<and> GetNodeStatus (mgr s'') n = NodeReady)"
proof -
  let ?s' = "s\<lparr>mgr := mark_not_ready (mgr s) n, conns := fmdrop old (conns s)\<rparr>"
  let ?s'' = "?s'\<lparr>mgr := fst (UpdateHeartbeat (mgr ?s') n (clock s))\<rparr>"
  have "n |\<in>| fmdom (nodes (mgr s))" using nm_inv_reachable [OF assms(1)] assms(2) by (simp add: nm_inv_def)
  then obtain node where node: "fmlookup (nodes (mgr s)) n = Some node" by (auto simp: fmlookup_dom_iff)
  have 1: "nm_step s ?s'"
    using assms(2) by (rule nm_step.close [where msg = ReadError]) (simp add: heartbeat_round_def)
  have new: "fmlookup (conns ?s') new = Some n" using assms(3,4) by (simp add: fmdrop_lookup_if)
  have 2: "nm_step ?s' ?s''"
    using new by (rule nm_step.beat [where msg = "Beat True"]) (simp add: heartbeat_round_def)
  show ?thesis
    using 1 2 new node by (intro exI [of _ ?s'] conjI exI [of _ ?s'']) (simp_all add: GetNodeStatus_def)
qed

theorem stale_close_marks_down_witness:
  "\<exists>s'. nm_step (example_state [2, 1]) s' \<and> fmlookup (conns s') 2 = Some ''n1'' \<and>
    GetNodeStatus (mgr s') ''n1'' = NodeNotReady"
  using stale_close_marks_down [OF example_reachable(2), of 1 "''n1''" 2] by (auto simp: example_state_def)

end
