(* ===== verification/Gpu_Sort.thy ===== *)
theory Gpu_Sort
  imports Node_Manager "HOL-Library.Product_Lexorder" "HOL-Library.Multiset"
begin

text \<open>
  \<^verbatim>\<open>internal/controller/gpu_sort.go\<close>: the order in which GPUs are tried. \<^verbatim>\<open>sort.Slice\<close> does not
  promise which of several orders it produces, so the sorting routine is an argument of
  \<open>sortGPUInfos\<close> with the contract \<open>slice_sort\<close>; the insertion sort that Go uses on short slices
  satisfies it. The comparison function is the source's, on floating-point scores.
\<close>

section \<open>Data and operations\<close>

record ResourceRequest =
  req_ModelName :: string
  req_QPS :: float64
  req_AllocationType :: string
  PreferredGPU :: string

text \<open>The scores of one GPU: rate per cost, imbalance of SM and memory use, free SMs, free memory.\<close>

definition gpu_efficiency :: "QPSStore \<Rightarrow> ResourceRequest \<Rightarrow> GPUInfo \<Rightarrow> float64" where
  "gpu_efficiency store req g =
     GetQPS store (req_ModelName req) (GetTypeShortName g) (TotalSMPercentage g) (f64 1) 0 /
     float64_of_int (costPerSecond g)"

definition gpu_balance :: "GPUInfo \<Rightarrow> float64" where
  "gpu_balance g =
    (let memUtil = float64_of_int (UsageMemory g) / float64_of_int (TotalMemory g);
         smUtil = float64_of_int (UsedHeight (Usage g)) / float64_of_int (MaxHeight (Usage g))
     in math_Abs (smUtil - memUtil))"

definition gpu_freeSM :: "GPUInfo \<Rightarrow> float64" where
  "gpu_freeSM g = float64_of_int (wrap64 (MaxHeight (Usage g) - UsedHeight (Usage g)))"

definition gpu_freeMem :: "GPUInfo \<Rightarrow> float64" where
  "gpu_freeMem g = float64_of_int (wrap64 (TotalMemory g - UsageMemory g))"

definition gpu_before :: "QPSStore \<Rightarrow> ResourceRequest \<Rightarrow> GPUInfo \<Rightarrow> GPUInfo \<Rightarrow> bool" where
  "gpu_before store req gi gj =
    (let iTypeMatch = (allocationType gi = req_AllocationType req);
         jTypeMatch = (allocationType gj = req_AllocationType req)
     in if iTypeMatch \<noteq> jTypeMatch then iTypeMatch
        else if \<not> float64_eq (gpu_efficiency store req gi) (gpu_efficiency store req gj)
        then gpu_efficiency store req gi > gpu_efficiency store req gj
        else if \<not> float64_eq (gpu_balance gi) (gpu_balance gj) then gpu_balance gi < gpu_balance gj
        else if \<not> float64_eq (gpu_freeSM gi) (gpu_freeSM gj) then gpu_freeSM gi > gpu_freeSM gj
        else gpu_freeMem gi < gpu_freeMem gj)"

type_synonym slice_sorter = "(gpu_addr \<Rightarrow> gpu_addr \<Rightarrow> bool) \<Rightarrow> gpu_addr list \<Rightarrow> gpu_addr list"

definition sortGPUInfos ::
  "slice_sorter \<Rightarrow> QPSStore \<Rightarrow> GPUInfo list \<Rightarrow> gpu_addr list \<Rightarrow> ResourceRequest \<Rightarrow> gpu_addr list" where
  "sortGPUInfos sort_Slice store heap gpuInfos req =
     sort_Slice (\<lambda>i j. gpu_before store req (heap ! i) (heap ! j)) gpuInfos"

lemmas sort_eval [go_eval] =
  gpu_efficiency_def gpu_balance_def gpu_freeSM_def gpu_freeMem_def gpu_before_def sortGPUInfos_def

section \<open>The contract of a sorting routine\<close>

definition strict_weak :: "'a set \<Rightarrow> ('a \<Rightarrow> 'a \<Rightarrow> bool) \<Rightarrow> bool" where
  "strict_weak A lss \<longleftrightarrow> (\<forall>x \<in> A. \<not> lss x x) \<and>
     (\<forall>x \<in> A. \<forall>y \<in> A. \<forall>z \<in> A. lss x y \<and> lss y z \<longrightarrow> lss x z) \<and>
     (\<forall>x \<in> A. \<forall>y \<in> A. \<forall>z \<in> A. \<not> lss x y \<and> \<not> lss y z \<longrightarrow> \<not> lss x z)"

text \<open>
  The documented behaviour: the slice is permuted, and if the comparison is a strict weak order on its
  elements, no later element is less than an earlier one.
\<close>

locale slice_sort =
  fixes sort_Slice :: "('a \<Rightarrow> 'a \<Rightarrow> bool) \<Rightarrow> 'a list \<Rightarrow> 'a list"
  assumes permutes: "mset (sort_Slice lss xs) = mset xs"
    and sorts: "strict_weak (set xs) lss \<Longrightarrow> sorted_wrt (\<lambda>x y. \<not> lss y x) (sort_Slice lss xs)"
begin

lemma same_elements [simp]: "set (sort_Slice lss xs) = set xs"
  using permutes by (metis set_mset_mset)

text \<open>Elements with a property that decides the comparison come first.\<close>

lemma preferred_first:
  assumes "strict_weak (set xs) lss" "\<And>x y. x \<in> set xs \<Longrightarrow> y \<in> set xs \<Longrightarrow> P y \<Longrightarrow> \<not> P x \<Longrightarrow> lss y x"
    and "i < j" "j < length xs" "P (sort_Slice lss xs ! j)"
  shows "P (sort_Slice lss xs ! i)"
proof (rule ccontr)
  assume "\<not> P (sort_Slice lss xs ! i)"
  have len: "length (sort_Slice lss xs) = length xs" using permutes by (metis size_mset)
  then have "sort_Slice lss xs ! i \<in> set xs" "sort_Slice lss xs ! j \<in> set xs"
    using assms(3,4) same_elements [of lss xs] nth_mem [of i "sort_Slice lss xs"] nth_mem [of j "sort_Slice lss xs"] by auto
  then have "lss (sort_Slice lss xs ! j) (sort_Slice lss xs ! i)"
    using assms(2,5) \<open>\<not> P (sort_Slice lss xs ! i)\<close> by blast
  then show False using sorts [OF assms(1)] assms(3,4) len by (auto simp: sorted_wrt_iff_nth_less)
qed

end

text \<open>Go's \<^verbatim>\<open>insertionSort\<close>: each element moves left past the elements it is less than.\<close>

fun insert_left :: "('a \<Rightarrow> 'a \<Rightarrow> bool) \<Rightarrow> 'a \<Rightarrow> 'a list \<Rightarrow> 'a list" where
  "insert_left lss x [] = [x]"
| "insert_left lss x (y # ys) = (if lss x y then y # insert_left lss x ys else x # y # ys)"

definition insertionSort :: "('a \<Rightarrow> 'a \<Rightarrow> bool) \<Rightarrow> 'a list \<Rightarrow> 'a list" where
  "insertionSort lss xs = rev (foldl (\<lambda>ys x. insert_left lss x ys) [] xs)"

lemma mset_insert_left [simp]: "mset (insert_left lss x ys) = add_mset x (mset ys)"
  by (induction ys) auto

lemma set_insert_left [simp]: "set (insert_left lss x ys) = insert x (set ys)"
  by (metis mset_insert_left set_mset_add_mset_insert set_mset_mset)

lemma mset_foldl_insert: "mset (foldl (\<lambda>ys x. insert_left lss x ys) ys xs) = mset ys + mset xs"
  by (induction xs arbitrary: ys) auto

lemma strict_weak_asym: "strict_weak A lss \<Longrightarrow> x \<in> A \<Longrightarrow> y \<in> A \<Longrightarrow> lss x y \<Longrightarrow> \<not> lss y x"
  unfolding strict_weak_def by metis

lemma sorted_insert_left:
  assumes "strict_weak A lss" "insert x (set ys) \<subseteq> A" "sorted_wrt (\<lambda>a b. \<not> lss a b) ys"
  shows "sorted_wrt (\<lambda>a b. \<not> lss a b) (insert_left lss x ys)"
  using assms(2,3)
proof (induction ys)
  case (Cons y ys)
  have y: "\<forall>z \<in> set ys. \<not> lss y z" using Cons.prems(2) by simp
  show ?case
  proof (cases "lss x y")
    case True
    then have "\<not> lss y x" using strict_weak_asym [OF assms(1), of x y] Cons.prems(1) by simp
    then show ?thesis using True Cons y by auto
  next
    case False
    have "\<not> lss x z" if "z \<in> set ys" for z
      using assms(1) False y that Cons.prems(1) unfolding strict_weak_def
      by (metis insert_subset list.simps(15) subsetD)
    then show ?thesis using False Cons.prems(2) by auto
  qed
qed simp

lemma sorted_foldl_insert:
  assumes "strict_weak A lss"
  shows "set ys \<union> set xs \<subseteq> A \<Longrightarrow> sorted_wrt (\<lambda>a b. \<not> lss a b) ys \<Longrightarrow>
    sorted_wrt (\<lambda>a b. \<not> lss a b) (foldl (\<lambda>ys x. insert_left lss x ys) ys xs)"
proof (induction xs arbitrary: ys)
  case (Cons x xs)
  then show ?case using sorted_insert_left [OF assms, of x ys] by simp
qed simp

interpretation insertion: slice_sort insertionSort
proof unfold_locales
  fix lss :: "'a \<Rightarrow> 'a \<Rightarrow> bool" and xs
  show "mset (insertionSort lss xs) = mset xs"
    by (simp add: insertionSort_def mset_foldl_insert)
  assume "strict_weak (set xs) lss"
  from sorted_foldl_insert [OF this, of "[]" xs] show "sorted_wrt (\<lambda>x y. \<not> lss y x) (insertionSort lss xs)"
    by (simp add: insertionSort_def sorted_wrt_rev)
qed

section \<open>The comparison is an order\<close>

text \<open>A number's place in the order of the floats without NaN, in which the two zeros are one.\<close>

definition place :: "float64 \<Rightarrow> int \<times> rat" where
  "place x = (case x of NegInf \<Rightarrow> (-1, 0) | PosInf \<Rightarrow> (1, 0) | _ \<Rightarrow> (0, fval x))"

lemma place_less: "\<not> is_nan x \<Longrightarrow> \<not> is_nan y \<Longrightarrow> x < y \<longleftrightarrow> place x < place y"
  by (cases x; cases y) (auto simp: place_def less_float64_def less_eq_float64_def)

lemma place_eq: "\<not> is_nan x \<Longrightarrow> \<not> is_nan y \<Longrightarrow> float64_eq x y \<longleftrightarrow> place x = place y"
  by (cases x; cases y) (auto simp: place_def float64_eq_def less_eq_float64_def)

lemma place_uminus: "\<not> is_nan x \<Longrightarrow> \<not> is_nan y \<Longrightarrow> place (- x) < place (- y) \<longleftrightarrow> place y < place x"
  by (cases x; cases y) (auto simp: place_def uminus_float64_def)

lemma place_uminus_eq: "\<not> is_nan x \<Longrightarrow> \<not> is_nan y \<Longrightarrow> place (- x) = place (- y) \<longleftrightarrow> place x = place y"
  by (cases x; cases y) (auto simp: place_def uminus_float64_def split: if_splits)

definition gpu_key :: "QPSStore \<Rightarrow> ResourceRequest \<Rightarrow> GPUInfo \<Rightarrow>
    bool \<times> (int \<times> rat) \<times> (int \<times> rat) \<times> (int \<times> rat) \<times> (int \<times> rat)" where
  "gpu_key store req g = (allocationType g \<noteq> req_AllocationType req, place (- gpu_efficiency store req g),
     place (gpu_balance g), place (- gpu_freeSM g), place (gpu_freeMem g))"

definition comparable :: "QPSStore \<Rightarrow> ResourceRequest \<Rightarrow> GPUInfo \<Rightarrow> bool" where
  "comparable store req g \<longleftrightarrow> \<not> is_nan (gpu_efficiency store req g) \<and> \<not> is_nan (gpu_balance g)"

lemma round64_not_nan [simp]: "\<not> is_nan (round64 neg r)"
  by (simp add: round64_def Let_def)

lemma float64_of_int_not_nan [simp]: "\<not> is_nan (float64_of_int n)"
  by (simp add: float64_of_int_def)

lemma lex_step: "(p, q) < (p', q') \<longleftrightarrow> (if p \<noteq> p' then p < p' else q < (q' :: 'b :: linorder))"
  for p :: "'a :: linorder"
  by (auto simp: less_le)

lemma free_not_nan [simp]: "\<not> is_nan (gpu_freeSM g)" "\<not> is_nan (gpu_freeMem g)"
  by (simp_all add: gpu_freeSM_def gpu_freeMem_def)

lemma gpu_before_key:
  assumes "comparable store req a" "comparable store req b"
  shows "gpu_before store req a b \<longleftrightarrow> gpu_key store req a < gpu_key store req b"
proof -
  let ?e = "gpu_efficiency store req"
  have n: "\<not> is_nan (?e a)" "\<not> is_nan (?e b)" "\<not> is_nan (gpu_balance a)" "\<not> is_nan (gpu_balance b)"
    using assms by (simp_all add: comparable_def)
  have E: "float64_eq (?e a) (?e b) \<longleftrightarrow> place (- ?e a) = place (- ?e b)"
      "?e b < ?e a \<longleftrightarrow> place (- ?e a) < place (- ?e b)"
    using n by (simp_all add: place_eq place_less place_uminus place_uminus_eq)
  have B: "float64_eq (gpu_balance a) (gpu_balance b) \<longleftrightarrow> place (gpu_balance a) = place (gpu_balance b)"
      "gpu_balance a < gpu_balance b \<longleftrightarrow> place (gpu_balance a) < place (gpu_balance b)"
    using n by (simp_all add: place_eq place_less)
  have S: "float64_eq (gpu_freeSM a) (gpu_freeSM b) \<longleftrightarrow> place (- gpu_freeSM a) = place (- gpu_freeSM b)"
      "gpu_freeSM b < gpu_freeSM a \<longleftrightarrow> place (- gpu_freeSM a) < place (- gpu_freeSM b)"
    by (simp_all add: place_eq place_less place_uminus place_uminus_eq)
  have M: "gpu_freeMem a < gpu_freeMem b \<longleftrightarrow> place (gpu_freeMem a) < place (gpu_freeMem b)"
    by (simp add: place_less)
  show ?thesis
    unfolding gpu_key_def lex_step gpu_before_def Let_def E B S M less_bool_def by auto
qed

lemma strict_weak_key: "(\<And>x y. x \<in> A \<Longrightarrow> y \<in> A \<Longrightarrow> lss x y \<longleftrightarrow> key x < (key y :: 'b :: linorder)) \<Longrightarrow> strict_weak A lss"
  by (auto simp: strict_weak_def)

lemma float64_of_int_pos: "0 < n \<Longrightarrow> n \<le> 2 ^ 53 \<Longrightarrow> float64_of_int n = Fin (of_int n)"
  using float64_of_int_exact [of n] by (cases "float64_of_int n") auto

lemma zero_div: "0 < r \<Longrightarrow> Fin 0 / Fin r = Fin 0"
  by (simp add: divide_float64_def is_zero_def round64_def)

lemma example_comparable:
  "comparable NewEmptyQPSStore \<lparr>req_ModelName = m, req_QPS = q, req_AllocationType = t, PreferredGPU = p\<rparr> example_gpu"
proof -
  have "costPerSecond example_gpu = 12000" "UsageMemory example_gpu = 0" "TotalMemory example_gpu = 40000000000"
    by (simp_all add: example_gpu_def NewGPUDevInfo_def GetCost_def costsPerSecondMap_def GetTypeShortName_def)
  moreover have "float64_of_int 0 = Fin 0" by (simp add: float64_of_int_def round64_def)
  moreover have "GetQPS NewEmptyQPSStore m' g sm qq 0 = Fin 0" for m' g sm qq
    by (simp add: GetQPS_def Get_def NewEmptyQPSStore_def Let_def)
  moreover have "Fin 0 - Fin 0 = Fin 0" by (simp add: minus_float64_def uminus_float64_def plus_float64_def round64_def)
  ultimately show ?thesis
    by (simp add: comparable_def gpu_efficiency_def gpu_balance_def float64_of_int_pos zero_div example_usage NewShelf_def
        math_Abs_def Let_def)
qed

section \<open>Properties\<close>



end
