(* ===== verification/Config_Finder.thy ===== *)
theory Config_Finder
  imports Gpu_Sort "HOL-Library.Monad_Syntax"
begin

text \<open>
  \<^verbatim>\<open>internal/controller/config_finder.go\<close> and \<^verbatim>\<open>model_memory.go\<close>: which GPUs a function gets and with
  what share. \<open>GetConfigs\<close> goes through the GPUs of the ready nodes in sorted order and picks the
  most efficient configuration on each; \<open>PrepareConfigsRequirements\<close> commits the picked
  configurations, provisioning virtual GPUs on the way. GPUs live in a heap (a list, addresses are
  indices); a GPU record made on the fly is appended to it. What the code takes from outside are
  arguments: the constants of the package \<^verbatim>\<open>types\<close>, the supply of UUIDs, the order of map
  iteration, the sorting routine and the answers of the nodes.
\<close>

section \<open>Data\<close>

text \<open>The constants of type \<^verbatim>\<open>types.AllocationType\<close>.\<close>

record alloc_types =
  AllocationTypeNone :: string
  AllocationTypeExclusive :: string
  AllocationTypeFastPod :: string
  AllocationTypeMPS :: string

type_synonym gpu_heap = "GPUInfo list"

definition modelMemoryMap :: "(string \<times> int) list" where
  "modelMemoryMap = [(''resnet'', 1000000000), (''bert'', 2073741824), (''whispertiny'', 1000000000),
     (''gnmt'', 2073741824), (''rnnt'', 2073741824), (''phi3'', 4000000000)]"

definition GetModelMemory :: "string \<Rightarrow> int option" where
  "GetModelMemory modelName = map_of modelMemoryMap modelName"

section \<open>The GPUs of a node\<close>

text \<open>The GPU behind one entry of the node's list: one in use, found by its UUID, or a new record.\<close>

definition dev_info :: "Node \<Rightarrow> VirtualGPU \<Rightarrow> gpu_heap \<Rightarrow> gpu_heap \<times> gpu_addr" where
  "dev_info node vgpu heap =
    (case (IsProvisioned vgpu, ProvisionedGpu vgpu) of
       (True, Some pg) \<Rightarrow>
         (case fmlookup (physicalGPUsMap node) (pg_Uuid pg) of
            Some a \<Rightarrow> (heap, a)
          | None \<Rightarrow> (heap @ [NewGPUDevInfo (NodeName node) (PhysicalGpuType vgpu) False None (pg_Uuid pg)
                       (wrap64 (pg_MemoryBytes pg)) (SmPercentage vgpu) 5], length heap))
     | _ \<Rightarrow> (heap @ [NewGPUDevInfo (NodeName node) (PhysicalGpuType vgpu) True (Profileid vgpu) (vg_Id vgpu)
              (wrap64 (vg_MemoryBytes vgpu)) (SmPercentage vgpu) 10], length heap))"

fun extract_loop :: "alloc_types \<Rightarrow> Node \<Rightarrow> VirtualGPU list \<Rightarrow> gpu_heap \<Rightarrow> gpu_heap \<times> gpu_addr list" where
  "extract_loop T node [] heap = (heap, [])"
| "extract_loop T node (vgpu # rest) heap =
     (let (heap, a) = dev_info node vgpu heap;
          (heap', gpuInfos) = extract_loop T node rest heap
      in (heap', if allocationType (heap ! a) \<noteq> AllocationTypeExclusive T then a # gpuInfos else gpuInfos))"

definition extractGPUSFromNode :: "alloc_types \<Rightarrow> Node \<Rightarrow> gpu_heap \<Rightarrow> gpu_heap \<times> gpu_addr list" where
  "extractGPUSFromNode T node heap = extract_loop T node (availableGPUs node) heap"

text \<open>The loop over the map of nodes, in the order \<open>names\<close>.\<close>

fun collect_gpus :: "alloc_types \<Rightarrow> (string, Node) fmap \<Rightarrow> string list \<Rightarrow> gpu_heap \<Rightarrow> gpu_heap \<times> gpu_addr list" where
  "collect_gpus T ns [] heap = (heap, [])"
| "collect_gpus T ns (name # names) heap =
     (case fmlookup ns name of
        None \<Rightarrow> collect_gpus T ns names heap
      | Some node \<Rightarrow>
          if Status node \<noteq> NodeReady then collect_gpus T ns names heap
          else let (heap, gpus) = extractGPUSFromNode T node heap;
                   (heap, more_gpus) = collect_gpus T ns names heap
               in (heap, gpus @ more_gpus))"

definition FilterGPUs :: "alloc_types \<Rightarrow> gpu_heap \<Rightarrow> gpu_addr list \<Rightarrow> ResourceRequest \<Rightarrow> int \<Rightarrow> gpu_addr list" where
  "FilterGPUs T heap gpuInfos req requiredMemory = filter (\<lambda>a.
     let gpu = heap ! a;
         isExclusive = (allocationType gpu = AllocationTypeExclusive T);
         isUsed = (allocationType gpu \<noteq> AllocationTypeNone T)
     in \<not> (req_AllocationType req = AllocationTypeExclusive T \<and> isUsed) \<and>
        \<not> (req_AllocationType req = AllocationTypeFastPod T \<and> isExclusive) \<and>
        \<not> (req_AllocationType req = AllocationTypeExclusive T \<and> \<not> virtual gpu) \<and>
        FitsMemory gpu requiredMemory) gpuInfos"

section \<open>The best configuration of one GPU\<close>

text \<open>The values of the loop variable \<open>quota\<close>: tenths are added in floating point until it exceeds 1.\<close>

partial_function (option) quota_values :: "float64 \<Rightarrow> float64 list option" where
  "quota_values quota =
    (if quota \<le> f64 1 then do { rest \<leftarrow> quota_values (quota + f64 (1/10)); Some (quota # rest) } else Some [])"

text \<open>The loop body for one pair of SM share and quota: None when it continues without a configuration.\<close>

definition candidate ::
  "QPSStore \<Rightarrow> GPUInfo \<Rightarrow> gpu_addr \<Rightarrow> string \<Rightarrow> float64 \<Rightarrow> int \<Rightarrow> string \<Rightarrow> int \<Rightarrow> float64 \<Rightarrow> string \<Rightarrow> Config option" where
  "candidate store devInfo addr modelName remainingRequiredQPS requiredMemory allocType sm quota uuid =
    (case Fits devInfo sm quota requiredMemory of
       Inl err \<Rightarrow> None
     | Inr canFit \<Rightarrow>
         if \<not> canFit then None
         else
           let qpsPerReplica = GetQPS store modelName (GetTypeShortName devInfo) sm quota 0 in
           if float64_eq qpsPerReplica (f64 0) then None
           else
             let possibleReplicasBySM = MaxInsertableItems (Usage devInfo) quota sm;
                 possibleReplicasByMemory =
                   math_Floor (float64_of_int (AvailableMemory devInfo) / float64_of_int requiredMemory);
                 possibleReplicas = math_Min (float64_of_int possibleReplicasBySM) possibleReplicasByMemory;
                 achievableQPS = qpsPerReplica * possibleReplicas;
                 exceeds = (achievableQPS > remainingRequiredQPS);
                 possibleReplicas = (if exceeds then math_Ceil (remainingRequiredQPS / qpsPerReplica) else possibleReplicas);
                 achievableQPS = (if exceeds then qpsPerReplica * possibleReplicas else achievableQPS);
                 resourceUnits = float64_of_int sm * quota;
                 efficiency = qpsPerReplica / resourceUnits
             in Some \<lparr>cfg_AllocationType = allocType, cfg_UUID = uuid, QuotaReq = quota,
                  QuotaLimit = math_Min (f64 1) (quota + f64 (3/10)), MemoryReq = requiredMemory, SMPartition = sm,
                  cfg_NodeName = gpu_NodeName devInfo, VGPUUUID = gpu_UUID devInfo, associatedGpu = addr,
                  RequiredReplica = int_of_float64 possibleReplicas, SatisfiableRPS = achievableQPS,
                  QpsPerReplica = qpsPerReplica,
                  Cost = float64_of_int (costPerSecond devInfo) * float64_of_int sm / f64 100 * quota * possibleReplicas,
                  remainingRPS = remainingRequiredQPS - achievableQPS, AllocatedReplica = 0, AllocatedRPS = f64 0,
                  shelfItems = fmempty, efficiencyScore = efficiency\<rparr>)"

text \<open>\<open>bestConfig\<close> after a candidate: the first one, or one that is strictly more efficient.\<close>

definition better :: "Config option \<Rightarrow> Config \<Rightarrow> Config option" where
  "better bestConfig config = (case bestConfig of
     None \<Rightarrow> Some config
   | Some best \<Rightarrow> if efficiencyScore config > efficiencyScore best then Some config else Some best)"

text \<open>The two nested loops as one pass over the pairs; every configuration made takes the next UUID.\<close>

fun search :: "(int \<Rightarrow> float64 \<Rightarrow> string \<Rightarrow> Config option) \<Rightarrow> (nat \<Rightarrow> string) \<Rightarrow> (int \<times> float64) list \<Rightarrow>
    Config option \<Rightarrow> nat \<Rightarrow> Config option \<times> nat" where
  "search cand uuids [] bestConfig n = (bestConfig, n)"
| "search cand uuids ((sm, quota) # rest) bestConfig n =
     (case cand sm quota (uuids n) of
        None \<Rightarrow> search cand uuids rest bestConfig n
      | Some config \<Rightarrow> search cand uuids rest (better bestConfig config) (Suc n))"

text \<open>The outer result is None when the loops do not end.\<close>

definition getConfig :: "alloc_types \<Rightarrow> QPSStore \<Rightarrow> (nat \<Rightarrow> string) \<Rightarrow> nat \<Rightarrow> GPUInfo \<Rightarrow> gpu_addr \<Rightarrow> string \<Rightarrow>
    float64 \<Rightarrow> int \<Rightarrow> string \<Rightarrow> (Config option \<times> nat) option" where
  "getConfig T store uuids n devInfo addr modelName remainingRequiredQPS requiredMemory allocType =
    (if remainingRequiredQPS \<le> f64 0 then Some (None, n)
     else
       let exclusive = (allocType = AllocationTypeExclusive T);
           smStartFrom = (if exclusive then TotalSMPercentage devInfo else 1);
           quotaStartFrom = (if exclusive then f64 1 else f64 (1/10))
       in do {
         quotas \<leftarrow> quota_values quotaStartFrom;
         Some (search (candidate store devInfo addr modelName remainingRequiredQPS requiredMemory allocType) uuids
           (List.product [smStartFrom..TotalSMPercentage devInfo] quotas) None n)
       })"

section \<open>Configurations for a request\<close>

datatype config_error = ModelNotFound | NoSuitableSelection

text \<open>The loop over the sorted GPUs, with the configurations so far, the rate that is missing and the
  UUIDs used.\<close>

fun pick_configs :: "alloc_types \<Rightarrow> QPSStore \<Rightarrow> (nat \<Rightarrow> string) \<Rightarrow> gpu_heap \<Rightarrow> ResourceRequest \<Rightarrow> int \<Rightarrow> gpu_addr list \<Rightarrow>
    Config list \<Rightarrow> float64 \<Rightarrow> nat \<Rightarrow> (Config list \<times> float64 \<times> nat) option" where
  "pick_configs T store uuids heap req requiredMemory [] configs remaining n = Some (configs, remaining, n)"
| "pick_configs T store uuids heap req requiredMemory (a # rest) configs remaining n =
     (if \<not> FitsMemory (heap ! a) requiredMemory
      then pick_configs T store uuids heap req requiredMemory rest configs remaining n
      else do {
        (bestConfig, n) \<leftarrow> getConfig T store uuids n (heap ! a) a (req_ModelName req) remaining requiredMemory
          (req_AllocationType req);
        let (configs, remaining) = (case bestConfig of
              None \<Rightarrow> (configs, remaining)
            | Some c \<Rightarrow> (configs @ [c], remaining - SatisfiableRPS c));
        if remaining \<le> f64 0 then Some (configs, remaining, n)
        else pick_configs T store uuids heap req requiredMemory rest configs remaining n
      })"

text \<open>The result: the heap with the GPU records made, the next UUID, and the configurations or the error.\<close>

definition GetConfigs :: "alloc_types \<Rightarrow> slice_sorter \<Rightarrow> (nat \<Rightarrow> string) \<Rightarrow> string list \<Rightarrow> NodeManager \<Rightarrow> gpu_heap \<Rightarrow> nat \<Rightarrow>
    ResourceRequest \<Rightarrow> (gpu_heap \<times> nat \<times> (config_error + Config list)) option" where
  "GetConfigs T sort_Slice uuids names nm heap n req =
    (case GetModelMemory (req_ModelName req) of
       None \<Rightarrow> Some (heap, n, Inl ModelNotFound)
     | Some requiredMemory \<Rightarrow>
         let (heap, gpuInfos) = collect_gpus T (nodes nm) names heap;
             gpuInfos = (if PreferredGPU req \<noteq> [] then
               filter (\<lambda>a. str_contains (GPUType (heap ! a)) (PreferredGPU req)) gpuInfos else gpuInfos);
             gpuInfos = sortGPUInfos sort_Slice (qpsStore nm) heap gpuInfos req
         in do {
           (configs, remaining, n) \<leftarrow>
             pick_configs T (qpsStore nm) uuids heap req requiredMemory gpuInfos [] (req_QPS req) n;
           Some (heap, n, if configs = [] then Inl NoSuitableSelection else Inr configs)
         })"

lemmas finder_eval [go_eval] =
  modelMemoryMap_def GetModelMemory_def dev_info_def extractGPUSFromNode_def FilterGPUs_def candidate_def better_def
  getConfig_def GetConfigs_def

section \<open>The quota loop\<close>

text \<open>The ten values of the loop, as the fractions the floats are. The last one is below 1.\<close>

definition tenth_quotas :: "float64 list" where
  "tenth_quotas = map Fin [3602879701896397/36028797018963968, 3602879701896397/18014398509481984,
     1351079888211149/4503599627370496, 3602879701896397/9007199254740992, 1/2,
     5404319552844595/9007199254740992, 3152519739159347/4503599627370496, 7205759403792793/9007199254740992,
     2026619832316723/2251799813685248, 9007199254740991/9007199254740992]"

lemma tenth: "f64 (1/10) = Fin (3602879701896397/36028797018963968)"
  by (simp add: f64_eval)

lemma tenth_steps:
  "Fin (3602879701896397/36028797018963968) + f64 (1/10) = Fin (3602879701896397/18014398509481984)"
  "Fin (3602879701896397/18014398509481984) + f64 (1/10) = Fin (1351079888211149/4503599627370496)"
  "Fin (1351079888211149/4503599627370496) + f64 (1/10) = Fin (3602879701896397/9007199254740992)"
  "Fin (3602879701896397/9007199254740992) + f64 (1/10) = Fin (1/2)"
  "Fin (1/2) + f64 (1/10) = Fin (5404319552844595/9007199254740992)"
  "Fin (5404319552844595/9007199254740992) + f64 (1/10) = Fin (3152519739159347/4503599627370496)"
  "Fin (3152519739159347/4503599627370496) + f64 (1/10) = Fin (7205759403792793/9007199254740992)"
  "Fin (7205759403792793/9007199254740992) + f64 (1/10) = Fin (2026619832316723/2251799813685248)"
  "Fin (2026619832316723/2251799813685248) + f64 (1/10) = Fin (9007199254740991/9007199254740992)"
  "Fin (9007199254740991/9007199254740992) + f64 (1/10) = Fin (4953959590107545/4503599627370496)"
  "Fin 1 + f64 (1/10) = Fin (2476979795053773/2251799813685248)"
  by (simp_all add: f64_eval)

lemma quota_stop: "fval x > 1 \<Longrightarrow> is_finite x \<Longrightarrow> quota_values x = Some []"
  by (subst quota_values.simps) simp

lemma quota_go:
  "is_finite x \<Longrightarrow> fval x \<le> 1 \<Longrightarrow> quota_values (x + f64 (1/10)) = Some qs \<Longrightarrow> quota_values x = Some (x # qs)"
  by (subst quota_values.simps) simp

lemma quota_values_tenth: "quota_values (f64 (1/10)) = Some tenth_quotas"
  unfolding tenth_quotas_def list.map
  by (subst tenth, (rule quota_go, simp, simp, simp only: tenth_steps)+, rule quota_stop, simp, simp)

lemma quota_values_one: "quota_values (f64 1) = Some [Fin 1]"
  by (subst f64_1, rule quota_go, simp, simp, simp only: tenth_steps, rule quota_stop, simp, simp)

text \<open>Each value is looked up in the table as the tenth it stands for.\<close>

lemma round_tenth:
  assumes "is_finite x" "\<bar>fval x * 10 - of_int k\<bar> \<le> 1 / 40" "1 \<le> k" "k \<le> 10"
  shows "round_quota x = f64 (of_int k / 10)"
proof -
  have "\<bar>fval x * 100 - of_int (10 * k)\<bar> \<le> 1 / 4"
    using assms(2) unfolding abs_le_iff of_int_mult of_int_numeral by linarith
  then have "round_quota x = f64 (of_int (10 * k) / 100)"
    using assms(1,3,4) by (intro round_quota_near) auto
  moreover have "of_int (10 * k) / 100 = (of_int k / 10 :: rat)" by simp
  ultimately show ?thesis by (simp only:)
qed

lemma tenths_rounded:
  "map round_quota tenth_quotas = map (\<lambda>k. f64 (of_int k / 10)) [1, 2, 3, 4, 5, 6, 7, 8, 9, 10]"
  unfolding tenth_quotas_def list.map list.inject
  by (intro conjI refl round_tenth) simp_all

section \<open>The search\<close>

lemma search_keeps:
  assumes "bestConfig = Some b" "\<not> efficiencyScore c > efficiencyScore b"
  shows "\<exists>b'. fst (search cand uuids pairs bestConfig n) = Some b' \<and> \<not> efficiencyScore c > efficiencyScore b'"
  using assms
proof (induction pairs arbitrary: bestConfig b n)
  case (Cons pair pairs)
  obtain sm q where p: "pair = (sm, q)" by force
  show ?case
  proof (cases "cand sm q (uuids n)")
    case None
    then show ?thesis using Cons p by simp
  next
    case (Some d)
    obtain b' where "better bestConfig d = Some b'" "\<not> efficiencyScore c > efficiencyScore b'"
      using Cons.prems float64_less_trans by (cases "efficiencyScore d > efficiencyScore b") (auto simp: better_def)
    then show ?thesis using Cons.IH Some p by simp
  qed
qed auto

lemma better_max: "\<exists>b. better bestConfig c = Some b \<and> \<not> efficiencyScore c > efficiencyScore b"
  by (cases bestConfig) (auto simp: better_def float64_less_irrefl)

text \<open>\<open>cand\<close> gives the same efficiency whatever UUID it is given.\<close>

lemma search_best:
  assumes "\<And>sm q u v c. cand sm q u = Some c \<Longrightarrow> \<exists>d. cand sm q v = Some d \<and> efficiencyScore d = efficiencyScore c"
  shows "(sm, q) \<in> set pairs \<Longrightarrow> cand sm q u = Some c \<Longrightarrow>
    \<exists>b. fst (search cand uuids pairs bestConfig n) = Some b \<and> \<not> efficiencyScore c > efficiencyScore b"
proof (induction pairs arbitrary: bestConfig n)
  case (Cons pair pairs)
  show ?case
  proof (cases "pair = (sm, q)")
    case True
    obtain d where d: "cand sm q (uuids n) = Some d" "efficiencyScore d = efficiencyScore c"
      using assms Cons.prems(2) by blast
    obtain b where "better bestConfig d = Some b" "\<not> efficiencyScore c > efficiencyScore b"
      using better_max [of bestConfig d] d(2) by auto
    then show ?thesis using True d(1) search_keeps by simp
  next
    case False
    then have "(sm, q) \<in> set pairs" using Cons.prems(1) by simp
    then have "\<exists>b. fst (search cand uuids pairs x m) = Some b \<and> \<not> efficiencyScore c > efficiencyScore b" for x m
      using Cons.IH Cons.prems(2) by blast
    then show ?thesis by (cases pair) (simp split: option.split)
  qed
qed simp

lemma search_from:
  "fst (search cand uuids pairs bestConfig n) = Some b \<Longrightarrow>
    bestConfig = Some b \<or> (\<exists>sm q u. (sm, q) \<in> set pairs \<and> cand sm q u = Some b)"
proof (induction pairs arbitrary: bestConfig n)
  case (Cons pair pairs)
  obtain sm q where p: "pair = (sm, q)" by force
  show ?case
  proof (cases "cand sm q (uuids n)")
    case None
    then have "bestConfig = Some b \<or> (\<exists>sm q u. (sm, q) \<in> set pairs \<and> cand sm q u = Some b)"
      using Cons p by simp
    then show ?thesis by (meson list.set_intros(2))
  next
    case (Some c)
    then have "better bestConfig c = Some b \<or> (\<exists>sm q u. (sm, q) \<in> set pairs \<and> cand sm q u = Some b)"
      using Cons p by simp
    then show ?thesis using Some p by (auto simp: better_def split: option.splits if_splits)
  qed
qed simp

lemma candidate_uuid:
  "candidate store g a m rem mem t sm q u = Some c \<Longrightarrow>
    \<exists>d. candidate store g a m rem mem t sm q v = Some d \<and> efficiencyScore d = efficiencyScore c"
  by (auto simp: candidate_def Let_def split: sum.splits if_splits)

text \<open>What every candidate is.\<close>

lemma candidate_facts:
  assumes "candidate store g a m rem mem t sm q u = Some c"
  shows "Fits g sm q mem = Inr True" "QuotaReq c = q" "SMPartition c = sm" "MemoryReq c = mem" "associatedGpu c = a"
    "cfg_AllocationType c = t" "cfg_NodeName c = gpu_NodeName g" "VGPUUUID c = gpu_UUID g" "shelfItems c = fmempty"
    "AllocatedReplica c = 0" "QpsPerReplica c = GetQPS store m (GetTypeShortName g) sm q 0" "cfg_UUID c = u"
    "efficiencyScore c = QpsPerReplica c / (float64_of_int sm * q)"
  using assms by (auto simp: candidate_def Let_def split: sum.splits if_splits)

text \<open>The pairs the loops visit.\<close>

definition search_pairs :: "alloc_types \<Rightarrow> GPUInfo \<Rightarrow> string \<Rightarrow> (int \<times> float64) list" where
  "search_pairs T g t = (if t = AllocationTypeExclusive T then [(TotalSMPercentage g, f64 1)]
     else List.product [1..TotalSMPercentage g] tenth_quotas)"

lemma getConfig_search:
  assumes "\<not> rem \<le> f64 0"
  shows "getConfig T store uuids n g a m rem mem t =
    Some (search (candidate store g a m rem mem t) uuids (search_pairs T g t) None n)"
  using assms by (simp add: getConfig_def search_pairs_def quota_values_tenth quota_values_one [unfolded f64_1] Let_def)

section \<open>Bounds on the replicas\<close>

lemma math_Min_finite:
  assumes "is_finite x" "is_finite y"
  shows "is_finite (math_Min x y)" "fval (math_Min x y) = min (fval x) (fval y)"
  using assms finite_cases [OF assms(1)] finite_cases [OF assms(2)]
  by (cases x; cases y; simp add: math_Min_def is_zero_def min_def; fail)+

lemma math_Floor_finite:
  "is_finite x \<Longrightarrow> is_finite (math_Floor x)" "is_finite x \<Longrightarrow> fval (math_Floor x) = of_int \<lfloor>fval x\<rfloor>"
  by (cases x; simp add: math_Floor_def)+

lemma math_Ceil_finite:
  "is_finite x \<Longrightarrow> is_finite (math_Ceil x)" "is_finite x \<Longrightarrow> fval (math_Ceil x) = of_int \<lceil>fval x\<rceil>"
  by (simp_all add: math_Ceil_def math_Floor_finite ceiling_def)

lemma int_floor_le:
  assumes "is_finite x" "0 \<le> fval x" "fval x \<le> of_int n" "n \<le> 2 ^ 53"
  shows "0 \<le> int_of_float64 x" "int_of_float64 x \<le> n" "of_int (int_of_float64 x) \<le> fval x"
proof -
  have f: "0 \<le> \<lfloor>fval x\<rfloor>" "\<lfloor>fval x\<rfloor> \<le> n" using assms(2,3) by (simp, simp add: floor_le_iff)
  then have "int64 \<lfloor>fval x\<rfloor>" using int64_below_pow [of _ 53] order_trans [OF f(2) assms(4)] by simp
  then have "int_of_float64 x = \<lfloor>fval x\<rfloor>" using assms(1,2) by (simp add: int_of_float64_def trunc_def)
  then show "0 \<le> int_of_float64 x" "int_of_float64 x \<le> n" "of_int (int_of_float64 x) \<le> fval x" using f by simp_all
qed

text \<open>
  The code caps the replicas when their rate exceeds the missing rate; the cap is never above the
  uncapped number, although product and quotient are both rounded.
\<close>

lemma capped_replicas:
  fixes p :: int
  assumes q: "is_finite q" "0 < fval q" "fval q \<le> 2 ^ 900" and r: "is_finite r" "0 < fval r" "fl (fval r) = fval r"
    and p: "0 \<le> p" "p \<le> 2 ^ 53" and x: "is_finite x" "fval x = of_int p" and gt: "q * x > r"
  shows "is_finite (math_Ceil (r / q))" "0 \<le> fval (math_Ceil (r / q))" "fval (math_Ceil (r / q)) \<le> of_int p"
proof -
  have P: "(0::rat) \<le> of_int p" "of_int p \<le> (2::rat) ^ 53"
    using p by (simp_all add: of_int_le_numeral_power_cancel_iff del: power_numeral)
  have big: "(2::rat) ^ 900 * 2 ^ 53 \<le> 2 ^ 1023" "(2::rat) ^ 53 \<le> 2 ^ 1023"
    unfolding power_add [symmetric] by (rule power_increasing; simp)+
  have "fval q * fval x \<le> 2 ^ 900 * 2 ^ 53" unfolding x(2) using q P by (intro mult_mono) auto
  moreover have "0 \<le> fval q * fval x" unfolding x(2) using q(2) P(1) by (intro mult_nonneg_nonneg) auto
  ultimately have "\<bar>fval q * fval x\<bar> \<le> 2 ^ 1023" using big(1) by linarith
  note T = times_finite [OF q(1) x(1) this]
  have "fval r < fl (fval q * of_int p)" using gt T r(1) x(2) by simp
  then have "fval r < fval q * of_int p" using r(3) by (rule fl.gt_if_rnd_gt)
  then have d: "0 \<le> fval r / fval q" "fval r / fval q \<le> of_int p"
    using q(2) r(2) by (auto simp: divide_le_eq mult.commute)
  then have "\<bar>fval r / fval q\<bar> \<le> 2 ^ 1023" using P(2) big(2) unfolding abs_le_iff by linarith
  note D = divide_finite [OF r(1) q(1) _ this]
  have D': "is_finite (r / q)" "fval (r / q) = fl (fval r / fval q)" using D q(2) by simp_all
  have "\<bar>p\<bar> \<le> 2 ^ 53" using p by simp
  then have "fl (fval r / fval q) \<le> of_int p" using d(2) by (intro fl.rnd_le fl_of_int)
  then have "\<lceil>fval (r / q)\<rceil> \<le> p" unfolding D' by (simp add: ceiling_le_iff)
  moreover have "0 \<le> \<lceil>fval (r / q)\<rceil>" unfolding D' using fl_nonneg [OF d(1)] by linarith
  ultimately show "is_finite (math_Ceil (r / q))" "0 \<le> fval (math_Ceil (r / q))"
      "fval (math_Ceil (r / q)) \<le> of_int p"
    using D'(1) by (simp_all add: math_Ceil_finite)
qed

text \<open>The number of replicas that fit the memory, by floating-point division, is the exact quotient.\<close>

lemma replicas_by_memory:
  assumes "0 \<le> avail" "avail \<le> 2 ^ 52" "0 < mem" "mem \<le> 2 ^ 52"
  shows "is_finite (math_Floor (float64_of_int avail / float64_of_int mem))"
    "fval (math_Floor (float64_of_int avail / float64_of_int mem)) = of_int (avail div mem)"
proof -
  have "\<bar>avail\<bar> \<le> 2 ^ 53" "\<bar>mem\<bar> \<le> 2 ^ 53" using assms by simp_all
  note A = float64_of_int_exact [OF this(1)] and M = float64_of_int_exact [OF this(2)]
  have "(1::rat) \<le> of_int mem" using assms(3) by simp
  then have "of_int avail / of_int mem \<le> (of_int avail / 1 :: rat)"
    using assms(1) by (intro divide_left_mono) auto
  also have "of_int avail / 1 \<le> (2::rat) ^ 52"
    using assms(2) by (simp add: of_int_le_numeral_power_cancel_iff del: power_numeral)
  also have "(2::rat) ^ 52 \<le> 2 ^ 1023" by (rule power_increasing) simp_all
  finally have "\<bar>fval (float64_of_int avail) / fval (float64_of_int mem)\<bar> \<le> 2 ^ 1023"
    unfolding A(2) M(2) using assms(1,3) by (simp del: power_numeral)
  note D = divide_finite [OF A(1) M(1) _ this]
  have D': "is_finite (float64_of_int avail / float64_of_int mem)"
      "fval (float64_of_int avail / float64_of_int mem) = fl (of_int avail / of_int mem)"
    using D A(2) M(2) assms(3) by simp_all
  have "\<lfloor>fl (of_int avail / of_int mem)\<rfloor> = \<lfloor>of_int avail / (of_int mem :: rat)\<rfloor>"
    using assms by (intro floor_fl_quotient [where k = 52]) auto
  then show "is_finite (math_Floor (float64_of_int avail / float64_of_int mem))"
      "fval (math_Floor (float64_of_int avail / float64_of_int mem)) = of_int (avail div mem)"
    using D' by (simp_all add: math_Floor_finite floor_divide_of_int_eq)
qed

section \<open>The GPUs that are tried\<close>

text \<open>A GPU record made on the fly is free; a node's map holds addresses of the heap.\<close>

definition fresh_gpu :: "Node \<Rightarrow> GPUInfo \<Rightarrow> bool" where
  "fresh_gpu node g \<longleftrightarrow> Usage g = NewShelf (TotalSMPercentage g) \<and> UsageMemory g = 0 \<and> allocationType g = [] \<and>
     gpu_NodeName g = NodeName node"

definition map_valid :: "gpu_heap \<Rightarrow> Node \<Rightarrow> bool" where
  "map_valid heap node \<longleftrightarrow> (\<forall>u a. fmlookup (physicalGPUsMap node) u = Some a \<longrightarrow> a < length heap)"

text \<open>Where an address returned for a node comes from.\<close>

definition from_node :: "nat \<Rightarrow> gpu_heap \<Rightarrow> Node \<Rightarrow> gpu_addr \<Rightarrow> bool" where
  "from_node old heap node a \<longleftrightarrow> a < length heap \<and>
     (if a < old then \<exists>u. fmlookup (physicalGPUsMap node) u = Some a else fresh_gpu node (heap ! a))"

lemma fresh_New: "fresh_gpu node (NewGPUDevInfo (NodeName node) ty v p u m sm gran)"
  by (simp add: fresh_gpu_def NewGPUDevInfo_def Let_def)

lemma dev_info_spec:
  assumes "map_valid heap node" "dev_info node vgpu heap = (heap', a)"
  shows "(\<exists>new. heap' = heap @ new) \<and> from_node (length heap) heap' node a"
  using assms fresh_New
  by (auto simp: dev_info_def from_node_def map_valid_def split: bool.splits option.splits prod.splits)

lemma map_valid_append: "map_valid heap node \<Longrightarrow> map_valid (heap @ new) node"
  unfolding map_valid_def by fastforce

lemma from_node_append:
  "from_node old heap node a \<Longrightarrow> from_node old (heap @ new) node a"
  by (auto simp: from_node_def nth_append split: if_splits)

lemma from_node_older:
  "from_node mid heap node a \<Longrightarrow> old \<le> mid \<Longrightarrow> map_valid heap0 node \<Longrightarrow> length heap0 = old \<Longrightarrow> from_node old heap node a"
  by (fastforce simp: from_node_def map_valid_def split: if_splits)

lemma extract_loop_spec:
  "map_valid heap node \<Longrightarrow> extract_loop T node vs heap = (heap', gs) \<Longrightarrow>
    (\<exists>new. heap' = heap @ new) \<and>
    (\<forall>a \<in> set gs. from_node (length heap) heap' node a \<and> allocationType (heap' ! a) \<noteq> AllocationTypeExclusive T)"
proof (induction vs arbitrary: heap heap' gs)
  case (Cons v vs)
  obtain h1 a where d: "dev_info node v heap = (h1, a)" by force
  obtain h2 gs' where e: "extract_loop T node vs h1 = (h2, gs')" by force
  obtain n1 where h1: "h1 = heap @ n1" and a: "from_node (length heap) h1 node a"
    using dev_info_spec [OF Cons.prems(1) d] by blast
  have v: "map_valid h1 node" unfolding h1 using Cons.prems(1) by (rule map_valid_append)
  obtain n2 where h2: "h2 = h1 @ n2"
      and r: "\<forall>b \<in> set gs'. from_node (length h1) h2 node b \<and> allocationType (h2 ! b) \<noteq> AllocationTypeExclusive T"
    using Cons.IH [OF v e] by blast
  have a2: "from_node (length heap) h2 node a" unfolding h2 using a by (rule from_node_append)
  have at: "h2 ! a = h1 ! a" using a by (auto simp: h2 nth_append from_node_def)
  have r2: "from_node (length heap) h2 node b" if "b \<in> set gs'" for b
    using from_node_older [of "length h1" h2 node b "length heap" heap] r that Cons.prems(1) h1 by simp
  have o: "heap' = h2" "gs = (if allocationType (h1 ! a) \<noteq> AllocationTypeExclusive T then a # gs' else gs')"
    using Cons.prems(2) d e by auto
  have "\<forall>b \<in> set gs. from_node (length heap) heap' node b \<and> allocationType (heap' ! b) \<noteq> AllocationTypeExclusive T"
    using a2 at r r2 unfolding o by auto
  then show ?case unfolding o h2 h1 by simp
qed simp

definition ready_gpu :: "alloc_types \<Rightarrow> NodeManager \<Rightarrow> string list \<Rightarrow> nat \<Rightarrow> gpu_heap \<Rightarrow> gpu_addr \<Rightarrow> bool" where
  "ready_gpu T nm names old heap a \<longleftrightarrow> allocationType (heap ! a) \<noteq> AllocationTypeExclusive T \<and>
     (\<exists>name node. name \<in> set names \<and> fmlookup (nodes nm) name = Some node \<and> Status node = NodeReady \<and>
        from_node old heap node a)"

lemma ready_gpu_mono: "ready_gpu T nm names old heap a \<Longrightarrow> ready_gpu T nm (name # names) old heap a"
  by (auto simp: ready_gpu_def)

lemma collect_gpus_spec:
  assumes "\<forall>name node. fmlookup (nodes nm) name = Some node \<longrightarrow> map_valid heap0 node"
  shows "heap = heap0 @ old_new \<Longrightarrow> collect_gpus T (nodes nm) names heap = (heap', gs) \<Longrightarrow>
    (\<exists>new. heap' = heap @ new) \<and> (\<forall>a \<in> set gs. ready_gpu T nm names (length heap0) heap' a)"
proof (induction names arbitrary: heap heap' old_new gs)
  case (Cons name names)
  show ?case
  proof (cases "\<exists>node. fmlookup (nodes nm) name = Some node \<and> Status node = NodeReady")
    case False
    then have "collect_gpus T (nodes nm) names heap = (heap', gs)"
      using Cons.prems(2) by (auto split: option.splits if_splits)
    from Cons.IH [OF Cons.prems(1) this] show ?thesis using ready_gpu_mono by blast
  next
    case True
    then obtain node where node: "fmlookup (nodes nm) name = Some node" "Status node = NodeReady" by blast
    obtain h1 g1 where e: "extractGPUSFromNode T node heap = (h1, g1)" by force
    obtain h2 g2 where c: "collect_gpus T (nodes nm) names h1 = (h2, g2)" by force
    have o: "heap' = h2" "gs = g1 @ g2" using Cons.prems(2) node e c by auto
    have v0: "map_valid heap0 node" using assms node(1) by blast
    then have v: "map_valid heap node" unfolding Cons.prems(1) by (rule map_valid_append)
    obtain n1 where h1: "h1 = heap @ n1"
        and r1: "\<forall>a \<in> set g1. from_node (length heap) h1 node a \<and> allocationType (h1 ! a) \<noteq> AllocationTypeExclusive T"
      using extract_loop_spec [OF v e [unfolded extractGPUSFromNode_def]] by blast
    have "h1 = heap0 @ (old_new @ n1)" using h1 Cons.prems(1) by simp
    from Cons.IH [OF this c] obtain n2 where h2: "h2 = h1 @ n2"
        and r2: "\<forall>a \<in> set g2. ready_gpu T nm names (length heap0) h2 a" by blast
    have "ready_gpu T nm (name # names) (length heap0) h2 a" if "a \<in> set g1" for a
    proof -
      have f: "from_node (length heap) h1 node a" "allocationType (h1 ! a) \<noteq> AllocationTypeExclusive T"
        using r1 that by auto
      have "from_node (length heap0) h1 node a"
        by (rule from_node_older [OF f(1) _ v0]) (simp_all add: Cons.prems(1))
      then have "from_node (length heap0) h2 node a" unfolding h2 by (rule from_node_append)
      moreover have "h2 ! a = h1 ! a" using f(1) by (auto simp: h2 nth_append from_node_def)
      ultimately show ?thesis using f(2) node by (auto simp: ready_gpu_def)
    qed
    moreover have "ready_gpu T nm (name # names) (length heap0) h2 a" if "a \<in> set g2" for a
      using r2 that ready_gpu_mono by blast
    ultimately show ?thesis unfolding o h2 h1 by (auto simp: h2 h1)
  qed
qed simp

lemma getConfig_total: "\<exists>best n'. getConfig T store uuids n g a m rem mem t = Some (best, n') \<and>
    (\<forall>b. best = Some b \<longrightarrow> (\<exists>rem sm q u. candidate store g a m rem mem t sm q u = Some b \<and>
      (sm, q) \<in> set (search_pairs T g t)))"
proof (cases "rem \<le> f64 0")
  case False
  obtain best n' where s: "search (candidate store g a m rem mem t) uuids (search_pairs T g t) None n = (best, n')"
    by force
  have "\<exists>rem sm q u. candidate store g a m rem mem t sm q u = Some b \<and> (sm, q) \<in> set (search_pairs T g t)"
    if "best = Some b" for b
    using search_from [of "candidate store g a m rem mem t" uuids "search_pairs T g t" None n b] s that by auto
  then show ?thesis using getConfig_search [OF False, of T store uuids n g a m mem t] s by simp
qed (simp add: getConfig_def)

definition picked :: "alloc_types \<Rightarrow> QPSStore \<Rightarrow> gpu_heap \<Rightarrow> ResourceRequest \<Rightarrow> int \<Rightarrow> gpu_addr list \<Rightarrow> Config \<Rightarrow> bool" where
  "picked T store heap req mem gpus c \<longleftrightarrow> associatedGpu c \<in> set gpus \<and> FitsMemory (heap ! associatedGpu c) mem \<and>
     (SMPartition c, QuotaReq c) \<in> set (search_pairs T (heap ! associatedGpu c) (req_AllocationType req)) \<and>
     (\<exists>rem. candidate store (heap ! associatedGpu c) (associatedGpu c) (req_ModelName req) rem mem
        (req_AllocationType req) (SMPartition c) (QuotaReq c) (cfg_UUID c) = Some c)"

lemma picked_mono: "picked T store heap req mem gpus c \<Longrightarrow> picked T store heap req mem (a # gpus) c"
  by (simp add: picked_def)

lemma pick_configs_spec:
  "\<exists>configs' rem' n'. pick_configs T store uuids heap req mem gpus configs rem n = Some (configs', rem', n') \<and>
    (\<forall>c \<in> set configs'. c \<in> set configs \<or> picked T store heap req mem gpus c)"
proof (induction gpus arbitrary: configs rem n)
  case (Cons a gpus)
  have mono: "\<exists>configs' rem' n'. pick_configs T store uuids heap req mem gpus cs r m = Some (configs', rem', n') \<and>
      (\<forall>c \<in> set configs'. c \<in> set cs \<or> picked T store heap req mem (a # gpus) c)" for cs r m
    using Cons.IH [of cs r m] picked_mono by blast
  show ?case
  proof (cases "FitsMemory (heap ! a) mem")
    case False
    then show ?thesis using mono by simp
  next
    case True
    obtain best n' where g: "getConfig T store uuids n (heap ! a) a (req_ModelName req) rem mem (req_AllocationType req) =
        Some (best, n')"
        and b: "\<And>b. best = Some b \<Longrightarrow> \<exists>rem sm q u. candidate store (heap ! a) a (req_ModelName req) rem mem
          (req_AllocationType req) sm q u = Some b \<and> (sm, q) \<in> set (search_pairs T (heap ! a) (req_AllocationType req))"
      using getConfig_total [of T store uuids n "heap ! a" a "req_ModelName req" rem mem "req_AllocationType req"] by blast
    show ?thesis
    proof (cases best)
      case None
      then show ?thesis using True g mono [of configs rem n'] by auto
    next
      case (Some c)
      then obtain rem0 sm q u where c: "candidate store (heap ! a) a (req_ModelName req) rem0 mem
          (req_AllocationType req) sm q u = Some c" "(sm, q) \<in> set (search_pairs T (heap ! a) (req_AllocationType req))"
        using b by blast
      have p: "picked T store heap req mem (a # gpus) c"
        using candidate_facts [OF c(1)] c True by (auto simp: picked_def)
      show ?thesis
        using True g Some p mono [of "configs @ [c]" "rem - SatisfiableRPS c" n'] by auto
    qed
  qed
qed simp

text \<open>The whole selection.\<close>

lemma GetConfigs_facts:
  assumes "slice_sort sort_Slice" "\<forall>name node. fmlookup (nodes nm) name = Some node \<longrightarrow> map_valid heap node"
  shows "\<exists>new n' r. GetConfigs T sort_Slice uuids names nm heap n req = Some (heap @ new, n', r) \<and>
    (case r of
       Inl e \<Rightarrow> (e = ModelNotFound) = (GetModelMemory (req_ModelName req) = None)
     | Inr configs \<Rightarrow> configs \<noteq> [] \<and>
        (\<forall>c \<in> set configs. let g = (heap @ new) ! associatedGpu c in
          GetModelMemory (req_ModelName req) = Some (MemoryReq c) \<and> FitsMemory g (MemoryReq c) \<and>
          ready_gpu T nm names (length heap) (heap @ new) (associatedGpu c) \<and>
          (PreferredGPU req = [] \<or> str_contains (GPUType g) (PreferredGPU req)) \<and>
          Fits g (SMPartition c) (QuotaReq c) (MemoryReq c) = Inr True \<and> shelfItems c = fmempty \<and>
          (SMPartition c, QuotaReq c) \<in> set (search_pairs T g (req_AllocationType req))))"
proof (cases "GetModelMemory (req_ModelName req)")
  case None
  then show ?thesis by (intro exI [of _ "[]"]) (simp add: GetConfigs_def)
next
  case (Some mem)
  obtain heap' gs where c: "collect_gpus T (nodes nm) names heap = (heap', gs)" by force
  obtain new where h: "heap' = heap @ new" and r: "\<forall>a \<in> set gs. ready_gpu T nm names (length heap) heap' a"
    using collect_gpus_spec [OF assms(2), of heap "[]" T names heap' gs] c by auto
  define gs1 where "gs1 = (if PreferredGPU req \<noteq> [] then
    filter (\<lambda>a. str_contains (GPUType (heap' ! a)) (PreferredGPU req)) gs else gs)"
  define gs2 where "gs2 = sortGPUInfos sort_Slice (qpsStore nm) heap' gs1 req"
  have set2: "set gs2 = set gs1" unfolding gs2_def sortGPUInfos_def by (rule slice_sort.same_elements [OF assms(1)])
  obtain configs rem' n' where p: "pick_configs T (qpsStore nm) uuids heap' req mem gs2 [] (req_QPS req) n =
      Some (configs, rem', n')" and pk: "\<forall>c \<in> set configs. picked T (qpsStore nm) heap' req mem gs2 c"
    using pick_configs_spec [of T "qpsStore nm" uuids heap' req mem gs2 "[]" "req_QPS req" n] by auto
  have G: "GetConfigs T sort_Slice uuids names nm heap n req =
      Some (heap @ new, n', if configs = [] then Inl NoSuitableSelection else Inr configs)"
    unfolding GetConfigs_def Some option.case c Let_def prod.case gs1_def [symmetric] gs2_def [symmetric] p
    by (simp add: h)
  have "let g = (heap @ new) ! associatedGpu c in
      GetModelMemory (req_ModelName req) = Some (MemoryReq c) \<and> FitsMemory g (MemoryReq c) \<and>
      ready_gpu T nm names (length heap) (heap @ new) (associatedGpu c) \<and>
      (PreferredGPU req = [] \<or> str_contains (GPUType g) (PreferredGPU req)) \<and>
      Fits g (SMPartition c) (QuotaReq c) (MemoryReq c) = Inr True \<and> shelfItems c = fmempty \<and>
      (SMPartition c, QuotaReq c) \<in> set (search_pairs T g (req_AllocationType req))" if "c \<in> set configs" for c
  proof -
    have P: "picked T (qpsStore nm) heap' req mem gs2 c" using pk that by blast
    then obtain rem0 where cd: "candidate (qpsStore nm) (heap' ! associatedGpu c) (associatedGpu c) (req_ModelName req) rem0 mem
        (req_AllocationType req) (SMPartition c) (QuotaReq c) (cfg_UUID c) = Some c" by (auto simp: picked_def)
    note F = candidate_facts [OF cd]
    have a: "associatedGpu c \<in> set gs1" using P set2 by (simp add: picked_def)
    then have "associatedGpu c \<in> set gs"
        "PreferredGPU req = [] \<or> str_contains (GPUType (heap' ! associatedGpu c)) (PreferredGPU req)"
      by (auto simp: gs1_def split: if_splits)
    then show ?thesis using P F(1,4,9) r Some unfolding h by (simp add: picked_def Let_def)
  qed
  then show ?thesis using G Some by (intro exI [of _ new]) auto
qed

text \<open>Every record that is added to the heap stands for a GPU some node reports, and is free.\<close>

definition reported :: "(string, Node) fmap \<Rightarrow> GPUInfo \<Rightarrow> bool" where
  "reported ns g \<longleftrightarrow> Usage g = NewShelf (TotalSMPercentage g) \<and> (\<exists>name node v. fmlookup ns name = Some node \<and>
     v \<in> set (availableGPUs node) \<and> TotalSMPercentage g = SmPercentage v)"

lemma extract_loop_new:
  assumes "fmlookup ns name = Some node"
  shows "set vs \<subseteq> set (availableGPUs node) \<Longrightarrow> extract_loop T node vs heap = (heap', gs) \<Longrightarrow>
    \<exists>new. heap' = heap @ new \<and> (\<forall>g \<in> set new. reported ns g)"
proof (induction vs arbitrary: heap gs)
  case (Cons v vs)
  obtain h1 a where d: "dev_info node v heap = (h1, a)" by force
  obtain h2 gs' where e: "extract_loop T node vs h1 = (h2, gs')" by force
  have v: "v \<in> set (availableGPUs node)" "set vs \<subseteq> set (availableGPUs node)" using Cons.prems(1) by simp_all
  have "reported ns (NewGPUDevInfo (NodeName node) ty w p u m (SmPercentage v) gran)" for ty w p u m gran
    using assms v(1) by (auto simp: reported_def NewGPUDevInfo_def Let_def)
  then obtain n1 where n1: "h1 = heap @ n1" "\<forall>g \<in> set n1. reported ns g"
    using d by (auto simp: dev_info_def split: bool.splits option.splits)
  have "heap' = h2" using Cons.prems(2) d e by auto
  then show ?case using Cons.IH [of h1 gs'] v(2) e n1 by auto
qed simp

lemma collect_gpus_new:
  "collect_gpus T ns names heap = (heap', gs) \<Longrightarrow> \<exists>new. heap' = heap @ new \<and> (\<forall>g \<in> set new. reported ns g)"
proof (induction names arbitrary: heap heap' gs)
  case (Cons name names)
  show ?case
  proof (cases "\<exists>node. fmlookup ns name = Some node \<and> Status node = NodeReady")
    case False
    then have "collect_gpus T ns names heap = (heap', gs)" using Cons.prems by (auto split: option.splits if_splits)
    then show ?thesis by (rule Cons.IH)
  next
    case True
    then obtain node where node: "fmlookup ns name = Some node" "Status node = NodeReady" by blast
    obtain h1 g1 where e: "extractGPUSFromNode T node heap = (h1, g1)" by force
    obtain h2 g2 where c: "collect_gpus T ns names h1 = (h2, g2)" by force
    have "heap' = h2" using Cons.prems node e c by auto
    then show ?thesis
      using extract_loop_new [OF node(1) subset_refl e [unfolded extractGPUSFromNode_def]] Cons.IH [OF c] by auto
  qed
qed simp

lemma GetConfigs_new:
  assumes "GetConfigs T sort_Slice uuids names nm heap n req = Some (heap', n', r)"
  shows "\<exists>new. heap' = heap @ new \<and> (\<forall>g \<in> set new. reported (nodes nm) g)"
proof (cases "GetModelMemory (req_ModelName req)")
  case None
  then show ?thesis using assms by (simp add: GetConfigs_def)
next
  case (Some mem)
  obtain h gs where c: "collect_gpus T (nodes nm) names heap = (h, gs)" by force
  then have "heap' = h" using assms Some by (auto simp: GetConfigs_def Let_def split: Option.bind_splits)
  then show ?thesis using collect_gpus_new [OF c] by simp
qed

section \<open>Properties\<close>

text \<open>
  The loop over quotas ends after ten values, although it adds the float nearest to 0.1: starting
  from 0.1 it visits ten numbers, the last just below 1, and each is looked up in the profile as
  the tenth it stands for; starting from 1 (exclusive allocation) it visits 1 alone.
\<close>

theorem quota_loop_values:
  "\<exists>qs. quota_values (f64 (1/10)) = Some qs \<and> length qs = 10 \<and>
    map round_quota qs = map (\<lambda>k. f64 (of_int k / 10)) [1, 2, 3, 4, 5, 6, 7, 8, 9, 10] \<and>
    last qs < f64 1 \<and> quota_values (f64 1) = Some [f64 1]"
proof (intro exI conjI)
  show "quota_values (f64 (1/10)) = Some tenth_quotas" by (rule quota_values_tenth)
  show "map round_quota tenth_quotas = map (\<lambda>k. f64 (of_int k / 10)) [1, 2, 3, 4, 5, 6, 7, 8, 9, 10]"
    by (rule tenths_rounded)
  show "quota_values (f64 1) = Some [f64 1]" using quota_values_one by simp
qed (simp_all add: tenth_quotas_def)




text \<open>A table with one entry, and the configuration it gives on the free example GPU.\<close>

definition example_store :: QPSStore where
  "example_store = \<lparr>data = [(\<lparr>key_ModelName = ''bert'', key_GPUType = ''a100'', SMPercentage = 10, Quota = Fin (1/2)\<rparr>, Fin 10)]\<rparr>"

lemma example_get: "GetQPS example_store ''bert'' (GetTypeShortName example_gpu) 10 (Fin (1/2)) 0 = Fin 10"
proof -
  have "GetTypeShortName example_gpu = ''a100''" by (simp add: example_gpu_def NewGPUDevInfo_def GetTypeShortName_def)
  moreover have "round_quota (Fin (1/2)) = Fin (1/2)" by (simp add: round_quota_def f64_eval)
  moreover have "float64_eq (Fin (1/2)) (Fin (1/2))" by (simp add: float64_eq_def)
  ultimately show ?thesis by (simp add: GetQPS_def Get_def example_store_def key_eq_def)
qed

lemma example_fits: "Fits example_gpu 10 (Fin (1/2)) 2073741824 = Inr True"
proof -
  have "AvailableMemory example_gpu = 40000000000"
    by (simp add: AvailableMemory_def example_gpu_def NewGPUDevInfo_def wrap64_eval)
  then show ?thesis by (simp add: Fits_def CanFit_def example_usage NewShelf_def wrap64_eval)
qed


text \<open>
  Rounding hides room: on a GPU that holds a replica of quota 0.5 and one of quota 0.4 in its only shelf, a
  replica of quota 0.1 still fits (\<open>CanFit\<close> says so and \<open>Insert\<close> succeeds), but \<open>MaxInsertableItems\<close> says
  0, because \<open>(1 - 0.9) / 0.1\<close> is just below 1 in floating point.
\<close>

definition half_and_four_tenths :: ShelfPacker where
  "half_and_four_tenths =
     fst (Insert (fst (Insert (NewShelf 10) (tenth_quotas ! 4) 10)) (tenth_quotas ! 3) 10)"

theorem rounding_hides_room:
  "MaxInsertableItems half_and_four_tenths (tenth_quotas ! 0) 10 = 0 \<and>
   CanFit half_and_four_tenths (tenth_quotas ! 0) 10 = Inr True \<and>
   snd (Insert half_and_four_tenths (tenth_quotas ! 0) 10) = Inr 3"
  by (simp add: half_and_four_tenths_def tenth_quotas_def go_eval f64_eval)

text \<open>
  C37. \<open>GetConfigs\<close> always ends, with an error or with configurations that are safe to commit: each is for
  a GPU of a ready node (one in use on it, or one the node reports and that is free), whose
  allocation type is not exclusive, whose type contains the preferred one if the request has one,
  whose total memory is enough for the model and on which a replica of the share picked fits; the
  share is one the search visits, and nothing of it is committed yet. Nothing in the heap is changed
  but new records.
\<close>

theorem GetConfigs_safe:
  assumes "slice_sort sort_Slice" "\<forall>name node. fmlookup (nodes nm) name = Some node \<longrightarrow> map_valid heap node"
  shows "\<exists>new n' r. GetConfigs T sort_Slice uuids names nm heap n req = Some (heap @ new, n', r) \<and>
    (case r of
       Inl e \<Rightarrow> (e = ModelNotFound) = (GetModelMemory (req_ModelName req) = None)
     | Inr configs \<Rightarrow> configs \<noteq> [] \<and>
        (\<forall>c \<in> set configs. let g = (heap @ new) ! associatedGpu c in
          GetModelMemory (req_ModelName req) = Some (MemoryReq c) \<and> FitsMemory g (MemoryReq c) \<and>
          ready_gpu T nm names (length heap) (heap @ new) (associatedGpu c) \<and>
          (PreferredGPU req = [] \<or> str_contains (GPUType g) (PreferredGPU req)) \<and>
          Fits g (SMPartition c) (QuotaReq c) (MemoryReq c) = Inr True \<and> shelfItems c = fmempty \<and>
          (SMPartition c, QuotaReq c) \<in> set (search_pairs T g (req_AllocationType req))))"
  using assms by (rule GetConfigs_facts)

text \<open>The table of nodes after the example node has connected.\<close>

lemma example_map_valid:
  "\<forall>name node. fmlookup (nodes (mgr (example_state [1]))) name = Some node \<longrightarrow> map_valid [] node"
  by (simp add: example_state_def handshake_def example_env_def map_valid_def NewNodeManager_def Let_def)

theorem GetConfigs_safe_witness:
  "\<exists>new n' r. GetConfigs \<lparr>AllocationTypeNone = [], AllocationTypeExclusive = ''exclusive'', AllocationTypeFastPod = ''fastpod'',
      AllocationTypeMPS = ''mps''\<rparr> insertionSort (\<lambda>n. ''u'') [''n1''] (mgr (example_state [1])) [] 0
      \<lparr>req_ModelName = ''bert'', req_QPS = f64 10, req_AllocationType = ''fastpod'', PreferredGPU = []\<rparr> = Some (new, n', r)"
proof -
  from GetConfigs_safe [OF insertion.slice_sort_axioms example_map_valid, of "\<lparr>AllocationTypeNone = [],
      AllocationTypeExclusive = ''exclusive'', AllocationTypeFastPod = ''fastpod'', AllocationTypeMPS = ''mps''\<rparr>"
      "\<lambda>n. ''u''" "[''n1'']" 0
      "\<lparr>req_ModelName = ''bert'', req_QPS = f64 10, req_AllocationType = ''fastpod'', PreferredGPU = []\<rparr>"]
  show ?thesis by (elim exE conjE) (intro exI)
qed

text \<open>
  C40. A node that reconnects is seen as free: the handshake empties the node's map of GPUs in use, so
  every GPU that \<open>extractGPUSFromNode\<close> then returns for it, also one that is provisioned and serves
  configurations committed before, is a new record with an empty packer and no memory used.
\<close>

theorem reconnect_forgets_usage:
  assumes "handshake nm env now = Some (nm', n)" "fmlookup (nodes nm') n = Some node"
    and "extractGPUSFromNode T node heap = (heap', gpus)"
  shows "\<forall>a \<in> set gpus. length heap \<le> a \<and> IsEmpty (Usage (heap' ! a)) \<and> UsageMemory (heap' ! a) = 0 \<and>
    gpu_NodeName (heap' ! a) = n"
proof -
  obtain node' where "nm' = nm\<lparr>nodes := fmupd n node' (nodes nm)\<rparr>" "NodeName node' = n" "physicalGPUsMap node' = fmempty"
    using assms(1) handshake_cases by metis
  then have node: "NodeName node = n" "physicalGPUsMap node = fmempty" using assms(2) by auto
  then have "map_valid heap node" by (simp add: map_valid_def)
  from extract_loop_spec [OF this assms(3) [unfolded extractGPUSFromNode_def]] node
  show ?thesis by (auto simp: from_node_def fresh_gpu_def IsEmpty_def NewShelf_def split: if_splits)
qed

theorem reconnect_forgets_usage_witness:
  "\<exists>node heap' gpus. extractGPUSFromNode \<lparr>AllocationTypeNone = [], AllocationTypeExclusive = ''exclusive'',
      AllocationTypeFastPod = ''fastpod'', AllocationTypeMPS = ''mps''\<rparr> node [example_gpu] = (heap', gpus) \<and>
    gpus = [1] \<and> (\<forall>a \<in> set gpus. IsEmpty (Usage (heap' ! a)))"
proof -
  let ?T = "\<lparr>AllocationTypeNone = [], AllocationTypeExclusive = ''exclusive'', AllocationTypeFastPod = ''fastpod'',
      AllocationTypeMPS = ''mps''\<rparr>"
  obtain node where node: "fmlookup (nodes (mgr (example_state []))) ''n1'' = Some node"
      "availableGPUs node = the (gpuList example_env)" "NodeName node = ''n1''"
    by (simp add: example_state_def handshake_def example_env_def)
  obtain heap' gpus where e: "extractGPUSFromNode ?T node [example_gpu] = (heap', gpus)" by force
  have "gpus = [1]"
    using e node(2,3) by (auto simp: extractGPUSFromNode_def example_env_def dev_info_def NewGPUDevInfo_def Let_def)
  moreover have "\<forall>a \<in> set gpus. IsEmpty (Usage (heap' ! a))"
    using reconnect_forgets_usage [OF example_handshake(1) node(1) e] by blast
  ultimately show ?thesis using e by blast
qed

end
