(* ===== verification/Shelf_Load.thy ===== *)
theory Shelf_Load
  imports Shelf_Width
begin

text \<open>
  What a packer carries against what its GPU has. The height of its shelves is within the bin, and the true width of a
  shelf is at most 1 plus the rounding errors of the operations so far, so the area of any items placed is at
  most the height used, up to that error. The number of operations is bounded by what the packer itself
  counts, so the bound is an invariant of the packer and needs no history.
\<close>

section \<open>An invariant for the rounding errors\<close>

text \<open>Every insertion takes a number; every removal that changes something removes an item that was inserted.\<close>

definition spent :: "ShelfPacker \<Rightarrow> int" where
  "spent sp = 2 * (nextItemID sp - 1) - int (gm_len (itemLocation sp))"

definition drift :: "ShelfPacker \<Rightarrow> rat" where
  "drift sp = of_int (spent sp) / 2 ^ 53"

definition sound_packer :: "int \<Rightarrow> ShelfPacker \<Rightarrow> bool" where
  "sound_packer h sp \<longleftrightarrow> wf_packer sp \<and> MaxHeight sp = h \<and> (spent sp \<le> 2 ^ 52 \<longrightarrow> packer_err (drift sp) sp)"

lemma sound_packerD: "sound_packer h sp \<Longrightarrow> wf_packer sp" "sound_packer h sp \<Longrightarrow> MaxHeight sp = h"
  by (simp_all add: sound_packer_def)

lemma gm_len_le:
  assumes "\<And>i k. fmlookup m i = Some k \<Longrightarrow> 1 \<le> i \<and> i < n" "1 \<le> n" shows "int (gm_len m) \<le> n - 1"
proof -
  have "fmdom' m \<subseteq> {1..<n}" using assms(1) by (auto simp: fmlookup_dom'_iff)
  then have "card (fmdom' m) \<le> card {1..<n}" by (intro card_mono) auto
  then show ?thesis using assms(2) by (simp add: gm_len_def fcard.rep_eq fmdom'_alt_def)
qed

lemma spent_nonneg: "wf_packer sp \<Longrightarrow> 0 \<le> spent sp"
  using gm_len_le [of "itemLocation sp" "nextItemID sp"] wf_packerD(5,8) [of sp] by (fastforce simp: spent_def)

lemma drift_bounds:
  assumes "wf_packer sp" "spent sp \<le> 2 ^ 52" shows "0 \<le> drift sp" "drift sp \<le> 1 / 2"
proof -
  show "0 \<le> drift sp" using spent_nonneg [OF assms(1)] by (simp add: drift_def)
  have "(of_int (spent sp) :: rat) \<le> of_int (2 ^ 52)" using assms(2) by (simp only: of_int_le_iff)
  then show "drift sp \<le> 1 / 2" by (simp add: drift_def)
qed

lemma sound_NewShelf: "int64 h \<Longrightarrow> sound_packer h (NewShelf h)"
  using wf_NewShelf [of h] by (simp add: sound_packer_def NewShelf_def packer_err_def)

lemma gm_len_renumber [simp]: "gm_len (renumber k m) = gm_len m"
  by (simp add: gm_len_def renumber_def)

lemma gm_len_drop: "fmlookup m i = Some k \<Longrightarrow> int (gm_len (fmdrop i m)) = int (gm_len m) - 1"
proof -
  assume m: "fmlookup m i = Some k"
  have "fmupd i k (fmdrop i m) = m" using m by (intro fmap_ext) (auto simp: fmdrop_lookup_if)
  then show ?thesis using gm_len_upd [of "fmdrop i m" i k] by simp
qed

text \<open>What an operation adds to the bound.\<close>

lemma sound_step:
  assumes "sound_packer h sp" "wf_packer sp'" "MaxHeight sp' = MaxHeight sp" "spent sp + 1 \<le> spent sp'"
    and "packer_err (drift sp) sp \<Longrightarrow> 0 \<le> drift sp \<Longrightarrow> drift sp \<le> 1 / 2 \<Longrightarrow> packer_err (drift sp + 1 / 2 ^ 53) sp'"
  shows "sound_packer h sp'"
proof -
  have "packer_err (drift sp') sp'" if "spent sp' \<le> 2 ^ 52"
  proof -
    have s: "spent sp \<le> 2 ^ 52" using that assms(4) by simp
    then have "packer_err (drift sp + 1 / 2 ^ 53) sp'"
      using assms(1,5) drift_bounds [of sp] by (simp add: sound_packer_def)
    moreover have "(of_int (spent sp + 1) :: rat) / 2 ^ 53 \<le> of_int (spent sp') / 2 ^ 53"
      using assms(4) by (intro divide_right_mono) (simp_all only: of_int_le_iff zero_le_power zero_le_numeral)
    ultimately show ?thesis using packer_err_mono by (simp add: drift_def add_divide_distrib)
  qed
  then show ?thesis using assms(1-3) by (simp add: sound_packer_def)
qed

lemma sound_Insert:
  assumes s: "sound_packer h sp" and r: "nextItemID sp < 2 ^ 63 - 1" "\<not> is_nan w"
  shows "sound_packer h (fst (Insert sp w ht))"
proof -
  have wf: "wf_packer sp" using s by (simp add: sound_packer_def)
  note E = packer_err_Insert [OF wf r, of "drift sp" ht]
  note W = wf_Insert [OF wf r, of ht] nextItemID_Insert(2) [OF wf r, of ht]
  have "fst (Insert sp w ht) = sp \<or> spent sp + 1 \<le> spent (fst (Insert sp w ht))"
    using wf r by (cases rule: Insert_cases [of sp w ht]) (simp_all add: spent_def gm_len_upd wf_fresh [OF wf])
  then show ?thesis using s sound_step [OF s W _ E] by auto
qed

lemma sound_Remove:
  assumes s: "sound_packer h sp" shows "sound_packer h (fst (Remove sp i))"
proof (cases "placed sp i")
  case None
  then show ?thesis using s by (simp add: sound_packer_def Remove_missing)
next
  case (Some it)
  have wf: "wf_packer sp" using s by (simp add: sound_packer_def)
  obtain n where n: "fmlookup (itemLocation sp) i = Some (int n)" "n < length (Shelves sp)"
      "fmlookup (Items (Shelves sp ! n)) i = Some it" using placed_Some [OF wf Some] by metis
  have "spent (fst (Remove sp i)) = spent sp + 1" "MaxHeight (fst (Remove sp i)) = MaxHeight sp"
    using gm_len_drop [OF n(1)] by (simp_all add: Remove_eq [OF wf n] spent_def)
  then show ?thesis
    using sound_step [OF s wf_Remove [OF wf, of i]] packer_err_Remove [OF wf, of "drift sp" i] by simp
qed

lemma sound_insert_loop:
  "sound_packer h p \<Longrightarrow> nextItemID p + int n < 2 ^ 63 \<Longrightarrow> \<not> is_nan w \<Longrightarrow>
    sound_packer h (fst (insert_loop (\<lambda>p. Insert p w ht) n p))"
proof (induction n arbitrary: p)
  case (Suc n)
  have wf: "wf_packer p" and r: "nextItemID p < 2 ^ 63 - 1" using Suc.prems by (simp_all add: sound_packer_def)
  obtain q res where q: "Insert p w ht = (q, res)" by force
  have "sound_packer h q" using sound_Insert [OF Suc.prems(1) r Suc.prems(3), of ht] q by simp
  moreover have "nextItemID q \<le> nextItemID p + 1" using nextItemID_Insert(1) [OF wf r Suc.prems(3), of ht] q by simp
  ultimately show ?case using Suc.IH [of q] Suc.prems(2,3) q by (auto split: sum.splits prod.splits)
qed simp

lemma sound_remove_loop: "sound_packer h p \<Longrightarrow> sound_packer h (remove_loop Remove is p)"
  by (induction "is" arbitrary: p) (simp_all add: sound_Remove)

section \<open>The load\<close>

definition item_area :: "Item \<Rightarrow> rat" where
  "item_area it = fval (item_Width it) * of_int (item_Height it)"

definition shelf_area :: "Shelf \<Rightarrow> rat" where
  "shelf_area s = (\<Sum>i \<in> fmdom' (Items s). item_area (the (fmlookup (Items s) i)))"

lemma shelf_area_le:
  assumes "shelf_ok s" "width_err d s" shows "shelf_area s \<le> (1 + d) * of_int (shelf_Height s)"
proof -
  have it: "item_area (the (fmlookup (Items s) i)) \<le> fval (item_Width (the (fmlookup (Items s) i))) * of_int (shelf_Height s)"
    if i: "i \<in> fmdom' (Items s)" for i
  proof -
    obtain it where "fmlookup (Items s) i = Some it" using i by (auto simp: fmlookup_dom'_iff)
    then show ?thesis using assms(1) by (auto simp: shelf_ok_def item_ok_def item_area_def intro!: mult_left_mono)
  qed
  have "shelf_area s \<le> (\<Sum>i \<in> fmdom' (Items s). fval (item_Width (the (fmlookup (Items s) i))) * of_int (shelf_Height s))"
    unfolding shelf_area_def by (intro sum_mono it)
  also have "\<dots> = total_width (Items s) * of_int (shelf_Height s)" by (simp add: total_width_def sum_distrib_right)
  also have "\<dots> \<le> (1 + d) * of_int (shelf_Height s)"
  proof (rule mult_right_mono)
    have "fval (UsedWidth s) \<le> 1" using assms by (auto simp: shelf_ok_def width_err_def)
    then show "total_width (Items s) \<le> 1 + d" using assms(2) by (auto simp: width_err_def)
    show "(0 :: rat) \<le> of_int (shelf_Height s)" using assms(1) by (simp add: shelf_ok_def)
  qed
  finally show ?thesis .
qed

text \<open>The items of a packer are those of its shelves, each on one shelf.\<close>

lemma placed_area:
  assumes wf: "wf_packer sp"
  shows "(\<Sum>i \<in> {i. placed sp i \<noteq> None}. item_area (the (placed sp i))) = sum_list (map shelf_area (Shelves sp))"
    "finite {i. placed sp i \<noteq> None}"
proof -
  let ?on = "\<lambda>n. fmdom' (Items (Shelves sp ! n))"
  have loc: "fmlookup (itemLocation sp) i = Some (int n) \<longleftrightarrow> n < length (Shelves sp) \<and> i \<in> ?on n" for i n
    using loc_ok_iff [OF wf_packerD(7) [OF wf], of i n] by (simp add: fmdom'_alt_def)
  have P: "{i. placed sp i \<noteq> None} = (\<Union>n \<in> {..<length (Shelves sp)}. ?on n)"
  proof (intro equalityI subsetI)
    fix i assume "i \<in> {i. placed sp i \<noteq> None}"
    then obtain it where "placed sp i = Some it" by auto
    then obtain n where "fmlookup (itemLocation sp) i = Some (int n)" "n < length (Shelves sp)"
      using placed_Some [OF wf] by metis
    then show "i \<in> (\<Union>n \<in> {..<length (Shelves sp)}. ?on n)" using loc by auto
  next
    fix i assume "i \<in> (\<Union>n \<in> {..<length (Shelves sp)}. ?on n)"
    then obtain n where "fmlookup (itemLocation sp) i = Some (int n)" using loc by auto
    then show "i \<in> {i. placed sp i \<noteq> None}" using placed_None [OF wf, of i] by simp
  qed
  have dis: "?on m \<inter> ?on n = {}" if "m < length (Shelves sp)" "n < length (Shelves sp)" "m \<noteq> n" for m n
  proof (rule ccontr)
    assume "?on m \<inter> ?on n \<noteq> {}"
    then obtain i where "i \<in> ?on m" "i \<in> ?on n" by blast
    then have "fmlookup (itemLocation sp) i = Some (int m)" "fmlookup (itemLocation sp) i = Some (int n)"
      using loc that(1,2) by blast+
    then show False using that(3) by simp
  qed
  have it: "placed sp i = fmlookup (Items (Shelves sp ! n)) i" if "n < length (Shelves sp)" "i \<in> ?on n" for n i
  proof -
    have "fmlookup (itemLocation sp) i = Some (int n)" using loc that by blast
    then show ?thesis by (simp add: placed_def)
  qed
  show "finite {i. placed sp i \<noteq> None}" unfolding P by simp
  have "(\<Sum>i \<in> {i. placed sp i \<noteq> None}. item_area (the (placed sp i))) =
      (\<Sum>n < length (Shelves sp). \<Sum>i \<in> ?on n. item_area (the (placed sp i)))"
    unfolding P using dis by (intro sum.UNION_disjoint) auto
  also have "\<dots> = (\<Sum>n < length (Shelves sp). shelf_area (Shelves sp ! n))"
    unfolding shelf_area_def using it by (intro sum.cong refl) auto
  also have "\<dots> = sum_list (map shelf_area (Shelves sp))" by (simp add: sum_list_sum_nth atLeast0LessThan)
  finally show "(\<Sum>i \<in> {i. placed sp i \<noteq> None}. item_area (the (placed sp i))) = sum_list (map shelf_area (Shelves sp))" .
qed

lemma sum_list_shelves:
  "(\<And>s. s \<in> set ss \<Longrightarrow> f s \<le> (c :: rat) * of_int (g s)) \<Longrightarrow> sum_list (map f ss) \<le> c * of_int (sum_list (map g ss))"
  by (induction ss) (auto simp: distrib_left intro: add_mono)

lemma placed_area_nonneg: "wf_packer sp \<Longrightarrow> placed sp i \<noteq> None \<Longrightarrow> 0 \<le> item_area (the (placed sp i))"
  by (auto elim!: placed_Some simp: item_ok_def item_area_def)

text \<open>Whatever set of items is placed, its area is within the height of the bin, up to the drift.\<close>

lemma sound_load:
  assumes "sound_packer h sp" "spent sp \<le> 2 ^ 52" "\<forall>i \<in> I. placed sp i \<noteq> None"
  shows "(\<Sum>i \<in> I. item_area (the (placed sp i))) \<le> (1 + drift sp) * of_int (max 0 h)"
proof -
  have wf: "wf_packer sp" and e: "packer_err (drift sp) sp" using assms(1,2) by (simp_all add: sound_packer_def)
  have "(\<Sum>i \<in> I. item_area (the (placed sp i))) \<le> (\<Sum>i \<in> {i. placed sp i \<noteq> None}. item_area (the (placed sp i)))"
    using assms(3) placed_area_nonneg [OF wf] by (intro sum_mono2 placed_area(2) [OF wf]) auto
  also have "\<dots> = sum_list (map shelf_area (Shelves sp))" by (rule placed_area(1) [OF wf])
  also have "\<dots> \<le> (1 + drift sp) * of_int (sum_list (map shelf_Height (Shelves sp)))"
    using wf_packerD(1) [OF wf] e by (intro sum_list_shelves shelf_area_le) (auto simp: packer_err_def)
  also have "\<dots> \<le> (1 + drift sp) * of_int (max 0 h)"
  proof (rule mult_left_mono)
    have "sum_list (map shelf_Height (Shelves sp)) \<le> max 0 h"
      using wf_packerD(2,3) [OF wf] sound_packerD(2) [OF assms(1)] by simp
    then show "(of_int (sum_list (map shelf_Height (Shelves sp))) :: rat) \<le> of_int (max 0 h)" by (rule of_int_le_iff [THEN iffD2])
    show "0 \<le> 1 + drift sp" using drift_bounds(1) [OF wf assms(2)] by simp
  qed
  finally show ?thesis .
qed

end
