(* ===== verification/Config_Commit.thy ===== *)
theory Config_Commit
  imports Config_Finder Shelf_Load
begin

text \<open>
  \<open>PrepareConfigsRequirements\<close> of \<^verbatim>\<open>internal/controller/config_finder.go\<close>: the configurations picked
  for a request are committed one after the other on their GPUs, which are registered with their
  node or, if virtual, provisioned by a call to the node. The theory gives the heap's invariant:
  every configuration that is committed owns its items in its GPU's packer, and no two
  configurations own the same item.
\<close>

section \<open>Operations\<close>

text \<open>The state the loop changes: the node table, the GPU heap and the number of calls made. A node's answer
  to \<^verbatim>\<open>RequestVirtualGPU\<close> is an argument: given the call's number, the client's handle, the MPS flag
  and the profile, it is None on error, otherwise the GPUs that are available afterwards and the
  GPU that was provisioned.\<close>

record prep_state =
  prep_nm :: NodeManager
  prep_heap :: gpu_heap
  prep_calls :: nat

type_synonym gpu_answers = "nat \<Rightarrow> nat \<Rightarrow> bool \<Rightarrow> int option \<Rightarrow> (VirtualGPU list \<times> ProvisionedGPU) option"

text \<open>The GPU a configuration is committed on: registered already, registered now, or provisioned now. None
  when the node is unknown or does not provision it.\<close>

definition resolve_gpu :: "alloc_types \<Rightarrow> gpu_answers \<Rightarrow> ResourceRequest \<Rightarrow> prep_state \<Rightarrow> Config \<Rightarrow> prep_state \<times> gpu_addr option" where
  "resolve_gpu T answers req st config =
    (let gpu = prep_heap st ! associatedGpu config; nm = prep_nm st in
     case fmlookup (nodes nm) (gpu_NodeName gpu) of
       None \<Rightarrow> (st, None)
     | Some node \<Rightarrow>
         (case fmlookup (physicalGPUsMap node) (gpu_UUID gpu) of
            Some a \<Rightarrow> (st, Some a)
          | None \<Rightarrow>
              if \<not> virtual gpu then
                let node = node\<lparr>physicalGPUsMap := fmupd (gpu_UUID gpu) (associatedGpu config) (physicalGPUsMap node)\<rparr>
                in (st\<lparr>prep_nm := nm\<lparr>nodes := fmupd (gpu_NodeName gpu) node (nodes nm)\<rparr>\<rparr>, Some (associatedGpu config))
              else
                let useMps = (req_AllocationType req = AllocationTypeFastPod T \<or> req_AllocationType req = AllocationTypeMPS T);
                    response = answers (prep_calls st) (GrpcClient node) useMps (profileID gpu);
                    st = st\<lparr>prep_calls := Suc (prep_calls st)\<rparr>
                in case response of
                     None \<Rightarrow> (st, None)
                   | Some (available, provisioned) \<Rightarrow>
                       let createdGPU = \<lparr>virtual = True, profileID = profileID gpu, smCount = 0, allocationType = [],
                             GPUType = GPUType gpu, gpu_UUID = pg_Uuid provisioned,
                             TotalMemory = wrap64 (pg_MemoryBytes provisioned), gpu_Name = [],
                             ParentUUID = pg_ParentUuid provisioned, TotalSMPercentage = TotalSMPercentage gpu,
                             gpu_NodeName = gpu_NodeName gpu, Usage = NewShelf (TotalSMPercentage gpu),
                             SMAllocationGranularity = 5, UsageMemory = 0, costPerSecond = costPerSecond gpu\<rparr>;
                           a = length (prep_heap st);
                           node = node\<lparr>availableGPUs := available,
                             physicalGPUsMap := fmupd (gpu_UUID createdGPU) a (physicalGPUsMap node)\<rparr>
                       in (st\<lparr>prep_nm := nm\<lparr>nodes := fmupd (gpu_NodeName gpu) node (nodes nm)\<rparr>,
                              prep_heap := prep_heap st @ [createdGPU]\<rparr>, Some a)))"

definition prepare_one :: "alloc_types \<Rightarrow> gpu_answers \<Rightarrow> ResourceRequest \<Rightarrow> prep_state \<Rightarrow> Config \<Rightarrow> prep_state \<times> Config option" where
  "prepare_one T answers req st config =
    (case resolve_gpu T answers req st config of
       (st, None) \<Rightarrow> (st, None)
     | (st, Some a) \<Rightarrow>
         let config = config\<lparr>associatedGpu := a, VGPUUUID := gpu_UUID (prep_heap st ! a)\<rparr>;
             (g, config, ok) = AllocateAndCommitConfig (prep_heap st ! a) config;
             st = st\<lparr>prep_heap := (prep_heap st)[a := g]\<rparr>
         in (st, if AllocatedReplica config > 0 then Some config else None))"

fun PrepareConfigsRequirements :: "alloc_types \<Rightarrow> gpu_answers \<Rightarrow> ResourceRequest \<Rightarrow> prep_state \<Rightarrow> Config list \<Rightarrow>
    prep_state \<times> Config list" where
  "PrepareConfigsRequirements T answers req st [] = (st, [])"
| "PrepareConfigsRequirements T answers req st (config # configs) =
     (let (st, prepared) = prepare_one T answers req st config;
          (st, newConfigs) = PrepareConfigsRequirements T answers req st configs
      in (st, (case prepared of None \<Rightarrow> newConfigs | Some c \<Rightarrow> c # newConfigs)))"

lemmas commit_eval [go_eval] = resolve_gpu_def prepare_one_def

section \<open>The invariant of the heap\<close>

text \<open>Every packer is sound for the share of its GPU and has at least \<open>N\<close> item numbers left; the nodes' maps hold addresses of
  the heap, under the UUIDs of the GPUs there.\<close>

definition budget :: "gpu_heap \<Rightarrow> int \<Rightarrow> bool" where
  "budget heap N \<longleftrightarrow> 0 \<le> N \<and> N < 2 ^ 63 - 1 \<and>
     (\<forall>g \<in> set heap. sound_packer (TotalSMPercentage g) (Usage g) \<and> int64 (TotalSMPercentage g) \<and>
       nextItemID (Usage g) + N < 2 ^ 63)"

lemma budgetD:
  assumes "budget heap N" "g \<in> set heap"
  shows "sound_packer (TotalSMPercentage g) (Usage g)" "wf_packer (Usage g)" "int64 (TotalSMPercentage g)"
    "nextItemID (Usage g) + N < 2 ^ 63"
  using assms sound_packerD(1) unfolding budget_def by blast+

definition maps_ok :: "gpu_heap \<Rightarrow> NodeManager \<Rightarrow> bool" where
  "maps_ok heap nm \<longleftrightarrow> (\<forall>name node u a. fmlookup (nodes nm) name = Some node \<and>
     fmlookup (physicalGPUsMap node) u = Some a \<longrightarrow> a < length heap \<and> gpu_UUID (heap ! a) = u)"

text \<open>A configuration that can be committed: on a GPU of the heap, with nothing committed yet. The number of
  item numbers it takes is at most \<open>wanted\<close>.\<close>

definition wanted :: "Config \<Rightarrow> int" where
  "wanted c = max 0 (RequiredReplica c)"

definition committable :: "gpu_heap \<Rightarrow> Config \<Rightarrow> bool" where
  "committable heap c \<longleftrightarrow> associatedGpu c < length heap \<and> \<not> is_nan (QuotaReq c) \<and> shelfItems c = fmempty"

text \<open>What a committed configuration is: it owns its items, as many as it has replicas.\<close>

definition committed :: "gpu_heap \<Rightarrow> Config \<Rightarrow> bool" where
  "committed heap c \<longleftrightarrow> associatedGpu c < length heap \<and> owns (heap ! associatedGpu c) c \<and>
     VGPUUUID c = gpu_UUID (heap ! associatedGpu c) \<and>
     int (gm_len (shelfItems c)) = AllocatedReplica c \<and> 0 < AllocatedReplica c"

definition no_sharing :: "Config \<Rightarrow> Config \<Rightarrow> bool" where
  "no_sharing c d \<longleftrightarrow> (associatedGpu c = associatedGpu d \<longrightarrow> fmdom (shelfItems c) |\<inter>| fmdom (shelfItems d) = {||})"

text \<open>The heap after a commit keeps every GPU's UUID and every item that is placed.\<close>

definition extends :: "gpu_heap \<Rightarrow> gpu_heap \<Rightarrow> bool" where
  "extends heap heap' \<longleftrightarrow> length heap \<le> length heap' \<and>
     (\<forall>a < length heap. gpu_UUID (heap' ! a) = gpu_UUID (heap ! a) \<and>
        (\<forall>i it. placed (Usage (heap ! a)) i = Some it \<longrightarrow> placed (Usage (heap' ! a)) i = Some it))"

lemma extends_refl [simp]: "extends heap heap"
  by (simp add: extends_def)

lemma extends_trans: "extends h1 h2 \<Longrightarrow> extends h2 h3 \<Longrightarrow> extends h1 h3"
  by (auto simp: extends_def)

lemma extends_append [simp]: "extends heap (heap @ new)"
  by (simp add: extends_def nth_append)

lemma committed_extends: "committed heap c \<Longrightarrow> extends heap heap' \<Longrightarrow> committed heap' c"
  unfolding committed_def extends_def owns_def by (metis order_less_le_trans)

lemma committable_extends: "committable heap c \<Longrightarrow> extends heap heap' \<Longrightarrow> committable heap' c"
  by (auto simp: committable_def extends_def)

lemma insert_loop_next:
  "wf_packer p \<Longrightarrow> nextItemID p + int n < 2 ^ 63 \<Longrightarrow> \<not> is_nan w \<Longrightarrow>
    nextItemID (fst (insert_loop (\<lambda>p. Insert p w h) n p)) \<le> nextItemID p + int n"
proof (induction n arbitrary: p)
  case (Suc n)
  have r: "nextItemID p < 2 ^ 63 - 1" using Suc.prems(2) by simp
  obtain q res where q: "Insert p w h = (q, res)" by force
  have "nextItemID q \<le> nextItemID p + 1" using nextItemID_Insert(1) [OF Suc.prems(1) r Suc.prems(3), of h] q by simp
  moreover have "wf_packer q" using wf_Insert [OF Suc.prems(1) r Suc.prems(3), of h] q by simp
  ultimately show ?case using Suc.IH [of q] Suc.prems(2,3) q by (auto split: sum.splits prod.splits)
qed simp

lemma gm_len_add_ids: "distinct is \<Longrightarrow> (\<forall>i \<in> set is. fmlookup m i = None) \<Longrightarrow> gm_len (add_ids is m) = gm_len m + length is"
proof (induction "is" arbitrary: m)
  case (Cons i "is")
  then have "\<forall>j \<in> set is. fmlookup (fmupd i True m) j = None" by auto
  then show ?case using Cons by (simp add: gm_len_upd)
qed simp

lemma add_ids_dom: "fmdom (add_ids is m) = fset_of_list is |\<union>| fmdom m"
  by (rule fset_eqI) (auto simp: fmlookup_dom_iff add_ids_lookup fset_of_list_elem)

text \<open>A commit in terms of the packer: the numbers of the items it adds.\<close>

lemma Allocate_items:
  assumes "wf_packer (Usage h)" "nextItemID (Usage h) + wanted c < 2 ^ 63" "\<not> is_nan (QuotaReq c)" "shelfItems c = fmempty"
    and A: "AllocateAndCommitConfig h c = (g, c', ok)"
  obtains "is" where "wf_packer (Usage g)" "nextItemID (Usage g) \<le> nextItemID (Usage h) + wanted c" "distinct is"
    "\<And>t. sound_packer t (Usage h) \<Longrightarrow> sound_packer t (Usage g)"
    "\<forall>i \<in> set is. placed (Usage h) i = None"
    "\<forall>i. placed (Usage g) i = (if i \<in> set is
      then Some \<lparr>item_ID = i, item_Width = QuotaReq c, item_Height = SMPartition c\<rparr> else placed (Usage h) i)"
    "gpu_UUID g = gpu_UUID h" "TotalSMPercentage g = TotalSMPercentage h"
    "c' = c\<lparr>shelfItems := add_ids is fmempty, AllocatedReplica := int (length is), AllocatedRPS := AllocatedRPS c'\<rparr>"
proof (cases "0 \<le> RequiredReplica c")
  case True
  have al: "allocatable h c"
    using assms(1-4) True wf_packerD(6) [OF assms(1)] by (simp add: allocatable_def ids_left_def nat_le_iff wanted_def)
  obtain p "is" where L: "insert_loop (\<lambda>p. Insert p (QuotaReq c) (SMPartition c)) (nat (RequiredReplica c)) (Usage h) = (p, is)"
    by force
  note F = Allocate_loop_facts [OF al L] and E = Allocate_eq [OF al L]
  have g: "Usage g = p" "gpu_UUID g = gpu_UUID h" "TotalSMPercentage g = TotalSMPercentage h"
    and c': "c' = c\<lparr>shelfItems := add_ids is fmempty, AllocatedReplica := int (length is), AllocatedRPS := AllocatedRPS c'\<rparr>"
    using E A assms(4) by auto
  have "nextItemID (Usage g) \<le> nextItemID (Usage h) + wanted c"
    using insert_loop_next [of "Usage h" "nat (RequiredReplica c)" "QuotaReq c" "SMPartition c"] assms(1-3) True L g(1)
    by (simp add: wanted_def)
  moreover have "sound_packer t (Usage g)" if "sound_packer t (Usage h)" for t
    using sound_insert_loop [OF that, of "nat (RequiredReplica c)" "QuotaReq c" "SMPartition c"] assms(2,3) True L g(1)
    by (simp add: wanted_def)
  ultimately show ?thesis using that [of "is"] F g c' by simp
next
  case False
  then have "Usage g = Usage h" "gpu_UUID g = gpu_UUID h" "TotalSMPercentage g = TotalSMPercentage h"
      "c' = c\<lparr>shelfItems := add_ids [] fmempty, AllocatedReplica := 0, AllocatedRPS := AllocatedRPS c'\<rparr>"
    using A assms(4) by (auto simp: AllocateAndCommitConfig_def Let_def)
  then show ?thesis using that [of "[]"] assms(1) by (simp add: wanted_def)
qed

text \<open>One commit on the heap.\<close>

lemma commit_on_heap:
  assumes b: "budget heap (wanted c + N)" and N: "0 \<le> N" and c: "committable heap c"
    and A: "AllocateAndCommitConfig (heap ! associatedGpu c) c = (g, c', ok)"
    and v: "VGPUUUID c = gpu_UUID (heap ! associatedGpu c)"
  defines "heap' \<equiv> heap[associatedGpu c := g]"
  shows "extends heap heap'" "budget heap' N" "0 < AllocatedReplica c' \<Longrightarrow> committed heap' c'"
    "associatedGpu c' = associatedGpu c"
    "\<forall>i. i |\<in>| fmdom (shelfItems c') \<longrightarrow> placed (Usage (heap ! associatedGpu c)) i = None"
proof -
  let ?g = "heap ! associatedGpu c"
  have a: "associatedGpu c < length heap" "\<not> is_nan (QuotaReq c)" "shelfItems c = fmempty"
    using c by (simp_all add: committable_def)
  have g: "wf_packer (Usage ?g)" "nextItemID (Usage ?g) + (wanted c + N) < 2 ^ 63" "int64 (TotalSMPercentage ?g)"
      "sound_packer (TotalSMPercentage ?g) (Usage ?g)"
    using budgetD [OF b nth_mem [OF a(1)]] by simp_all
  have w: "0 \<le> wanted c" by (simp add: wanted_def)
  have "nextItemID (Usage ?g) + wanted c < 2 ^ 63" using g(2) N by linarith
  then obtain "is" where I: "wf_packer (Usage g)" "nextItemID (Usage g) \<le> nextItemID (Usage ?g) + wanted c" "distinct is"
      "\<forall>i \<in> set is. placed (Usage ?g) i = None"
      "\<forall>i. placed (Usage g) i = (if i \<in> set is
        then Some \<lparr>item_ID = i, item_Width = QuotaReq c, item_Height = SMPartition c\<rparr> else placed (Usage ?g) i)"
      "gpu_UUID g = gpu_UUID ?g" "TotalSMPercentage g = TotalSMPercentage ?g"
      "c' = c\<lparr>shelfItems := add_ids is fmempty, AllocatedReplica := int (length is), AllocatedRPS := AllocatedRPS c'\<rparr>"
    and sound: "sound_packer (TotalSMPercentage ?g) (Usage g)"
    using Allocate_items [OF g(1) _ a(2,3) A] g(4) by metis
  obtain r where c': "c' = c\<lparr>shelfItems := add_ids is fmempty, AllocatedReplica := int (length is), AllocatedRPS := r\<rparr>"
    using I(8) by blast
  show "associatedGpu c' = associatedGpu c" by (simp add: c')
  have old: "placed (Usage g) i = Some it" if "placed (Usage ?g) i = Some it" for i it
    using I(4,5) that by auto
  show "extends heap heap'"
    unfolding extends_def heap'_def using old I(6) a(1) by (auto simp: nth_list_update)
  have "nextItemID (Usage g) + N < 2 ^ 63" using g(2) I(2) by linarith
  moreover have "sound_packer (TotalSMPercentage x) (Usage x) \<and> int64 (TotalSMPercentage x) \<and> nextItemID (Usage x) + N < 2 ^ 63"
    if "x \<in> set heap" for x
    using budgetD [OF b that] w by simp
  ultimately show "budget heap' N"
    using b N w sound I(7) g(3) unfolding budget_def heap'_def by (auto dest!: set_update_subset_insert [THEN subsetD])
  have d: "i |\<in>| fmdom (shelfItems c') \<longleftrightarrow> i \<in> set is" for i
    by (simp add: c' add_ids_dom fset_of_list_elem)
  show "\<forall>i. i |\<in>| fmdom (shelfItems c') \<longrightarrow> placed (Usage ?g) i = None" using d I(4) by simp
  have "owns g c'" unfolding owns_def using d I(5) by (simp add: c')
  moreover have "gm_len (shelfItems c') = length is" using gm_len_add_ids [OF I(3), of fmempty] by (simp add: c')
  ultimately show "committed heap' c'" if "0 < AllocatedReplica c'"
    using that a(1) I(6) v unfolding committed_def heap'_def by (simp add: c')
qed

lemma budget_mono: "budget heap M \<Longrightarrow> 0 \<le> N \<Longrightarrow> N \<le> M \<Longrightarrow> budget heap N"
  by (fastforce simp: budget_def)

lemma budget_append:
  assumes "budget heap N" "Usage g = NewShelf (TotalSMPercentage g)" "int64 (TotalSMPercentage g)"
  shows "budget (heap @ [g]) N"
  using assms sound_NewShelf [OF assms(3)] by (auto simp: budget_def NewShelf_def)

lemma maps_ok_update:
  assumes "maps_ok heap nm" "fmlookup (nodes nm) n = Some node" "a < length (heap @ new)" "gpu_UUID ((heap @ new) ! a) = u"
    "physicalGPUsMap node' = fmupd u a (physicalGPUsMap node)"
  shows "maps_ok (heap @ new) (nm\<lparr>nodes := fmupd n node' (nodes nm)\<rparr>)"
  using assms by (fastforce simp: maps_ok_def nth_append split: if_splits)

text \<open>Finding or making the GPU of a configuration keeps the invariant.\<close>

lemma resolve_spec:
  assumes "budget (prep_heap st) N" "maps_ok (prep_heap st) (prep_nm st)" "associatedGpu c < length (prep_heap st)"
    and "resolve_gpu T answers req st c = (st', r)"
  shows "extends (prep_heap st) (prep_heap st') \<and> budget (prep_heap st') N \<and> maps_ok (prep_heap st') (prep_nm st') \<and>
    (\<forall>a. r = Some a \<longrightarrow> a < length (prep_heap st'))"
proof -
  let ?heap = "prep_heap st" and ?nm = "prep_nm st"
  let ?g = "?heap ! associatedGpu c"
  have sm: "int64 (TotalSMPercentage ?g)" using assms(1,3) by (simp add: budget_def)
  show ?thesis
  proof (cases "fmlookup (nodes ?nm) (gpu_NodeName ?g)")
    case None
    then show ?thesis using assms by (auto simp: resolve_gpu_def)
  next
    case (Some node)
    show ?thesis
    proof (cases "fmlookup (physicalGPUsMap node) (gpu_UUID ?g)")
      case (Some a)
      then show ?thesis using assms \<open>fmlookup (nodes ?nm) (gpu_NodeName ?g) = Some node\<close>
        by (auto simp: resolve_gpu_def maps_ok_def)
    next
      case None
      note node = \<open>fmlookup (nodes ?nm) (gpu_NodeName ?g) = Some node\<close>
      show ?thesis
      proof (cases "virtual ?g")
        case False
        then show ?thesis
          using assms None node maps_ok_update [OF assms(2) node, of "associatedGpu c" "[]" "gpu_UUID ?g"
              "node\<lparr>physicalGPUsMap := fmupd (gpu_UUID ?g) (associatedGpu c) (physicalGPUsMap node)\<rparr>"]
          by (auto simp: resolve_gpu_def Let_def)
      next
        case True
        show ?thesis
        proof (cases "answers (prep_calls st) (GrpcClient node)
            (req_AllocationType req = AllocationTypeFastPod T \<or> req_AllocationType req = AllocationTypeMPS T) (profileID ?g)")
          case (Some resp)
          obtain available provisioned where resp: "resp = (available, provisioned)" by force
          obtain g1 node1 where s: "prep_heap st' = ?heap @ [g1]" "r = Some (length ?heap)"
              "prep_nm st' = ?nm\<lparr>nodes := fmupd (gpu_NodeName ?g) node1 (nodes ?nm)\<rparr>"
              "physicalGPUsMap node1 = fmupd (gpu_UUID g1) (length ?heap) (physicalGPUsMap node)"
              "Usage g1 = NewShelf (TotalSMPercentage ?g)" "TotalSMPercentage g1 = TotalSMPercentage ?g"
            using assms(4) True None node Some resp by (auto simp: resolve_gpu_def Let_def)
          have "maps_ok (?heap @ [g1]) (?nm\<lparr>nodes := fmupd (gpu_NodeName ?g) node1 (nodes ?nm)\<rparr>)"
            using s by (intro maps_ok_update [OF assms(2) node]) auto
          moreover have "budget (?heap @ [g1]) N" using assms(1) s sm by (intro budget_append) simp_all
          ultimately show ?thesis using s by simp
        qed (use assms True None node in \<open>auto simp: resolve_gpu_def Let_def\<close>)
      qed
    qed
  qed
qed

lemma maps_ok_heap:
  assumes "maps_ok heap nm" "extends heap heap'" shows "maps_ok heap' nm"
  using assms unfolding maps_ok_def extends_def by (metis order_less_le_trans)

lemma prepare_one_spec:
  assumes "budget (prep_heap st) (wanted c + N)" "0 \<le> N" "maps_ok (prep_heap st) (prep_nm st)"
    and "committable (prep_heap st) c" "prepare_one T answers req st c = (st', r)"
  shows "extends (prep_heap st) (prep_heap st') \<and> budget (prep_heap st') N \<and> maps_ok (prep_heap st') (prep_nm st') \<and>
    (\<forall>c'. r = Some c' \<longrightarrow> committed (prep_heap st') c' \<and>
      (\<forall>i. associatedGpu c' < length (prep_heap st) \<and> i |\<in>| fmdom (shelfItems c') \<longrightarrow>
        placed (Usage (prep_heap st ! associatedGpu c')) i = None))"
proof -
  have a: "associatedGpu c < length (prep_heap st)" and R: "0 \<le> wanted c"
    using assms(4) by (simp_all add: committable_def wanted_def)
  obtain st1 r1 where r1: "resolve_gpu T answers req st c = (st1, r1)" by force
  have S: "extends (prep_heap st) (prep_heap st1)" "budget (prep_heap st1) (wanted c + N)"
      "maps_ok (prep_heap st1) (prep_nm st1)" "\<And>a. r1 = Some a \<Longrightarrow> a < length (prep_heap st1)"
    using resolve_spec [OF assms(1,3) a r1] by auto
  show ?thesis
  proof (cases r1)
    case None
    then show ?thesis using assms(5) r1 S budget_mono [OF S(2) assms(2)] R by (auto simp: prepare_one_def)
  next
    case (Some b)
    let ?c = "c\<lparr>associatedGpu := b, VGPUUUID := gpu_UUID (prep_heap st1 ! b)\<rparr>"
    have cc: "committable (prep_heap st1) ?c" using assms(4) S(4) [OF Some] by (simp add: committable_def)
    obtain g c' ok where A: "AllocateAndCommitConfig (prep_heap st1 ! b) ?c = (g, c', ok)" using prod_cases3 by blast
    have "budget (prep_heap st1) (wanted ?c + N)" using S(2) by (simp add: wanted_def)
    note H = commit_on_heap [OF this assms(2) cc, of g c' ok, simplified, OF A]
    have st': "prep_heap st' = (prep_heap st1)[b := g]" "prep_nm st' = prep_nm st1"
        "r = (if AllocatedReplica c' > 0 then Some c' else None)"
      using assms(5) r1 Some A by (auto simp: prepare_one_def Let_def)
    have fresh: "placed (Usage (prep_heap st ! associatedGpu c')) i = None"
      if "associatedGpu c' < length (prep_heap st)" "i |\<in>| fmdom (shelfItems c')" for i
    proof (rule ccontr)
      assume "placed (Usage (prep_heap st ! associatedGpu c')) i \<noteq> None"
      then obtain it where "placed (Usage (prep_heap st ! associatedGpu c')) i = Some it" by blast
      then have "placed (Usage (prep_heap st1 ! b)) i = Some it"
        using S(1) that(1) H(4) unfolding extends_def by auto
      then show False using H(5) that(2) by simp
    qed
    show ?thesis
      using extends_trans [OF S(1) H(1)] H(2,3) maps_ok_heap [OF S(3) H(1)] fresh unfolding st' by auto
  qed
qed

text \<open>An owner and a configuration whose items are new to the heap share nothing.\<close>

lemma fresh_no_sharing:
  assumes "associatedGpu c < length heap" "owns (heap ! associatedGpu c) c"
    and "\<And>i. associatedGpu d < length heap \<Longrightarrow> i |\<in>| fmdom (shelfItems d) \<Longrightarrow> placed (Usage (heap ! associatedGpu d)) i = None"
  shows "no_sharing c d"
  unfolding no_sharing_def
proof (intro impI fset_eqI iffI)
  fix i
  assume eq: "associatedGpu c = associatedGpu d" and i: "i |\<in>| fmdom (shelfItems c) |\<inter>| fmdom (shelfItems d)"
  have "placed (Usage (heap ! associatedGpu d)) i = None" using assms(1) eq i by (intro assms(3)) simp_all
  then show "i |\<in>| {||}" using assms(2) eq i by (auto simp: owns_def)
qed simp

text \<open>The loop.\<close>

lemma prepare_spec:
  "budget (prep_heap st) (sum_list (map wanted configs)) \<Longrightarrow> maps_ok (prep_heap st) (prep_nm st) \<Longrightarrow>
    \<forall>c \<in> set configs. committable (prep_heap st) c \<Longrightarrow>
    PrepareConfigsRequirements T answers req st configs = (st', cs) \<Longrightarrow>
    extends (prep_heap st) (prep_heap st') \<and> budget (prep_heap st') 0 \<and> maps_ok (prep_heap st') (prep_nm st') \<and>
    (\<forall>c \<in> set cs. committed (prep_heap st') c \<and>
      (\<forall>i. associatedGpu c < length (prep_heap st) \<and> i |\<in>| fmdom (shelfItems c) \<longrightarrow>
        placed (Usage (prep_heap st ! associatedGpu c)) i = None)) \<and>
    sorted_wrt no_sharing cs"
proof (induction configs arbitrary: st st' cs)
  case (Cons c configs)
  let ?N = "sum_list (map wanted configs)"
  have N: "0 \<le> ?N" using Cons.prems(3) by (intro sum_list_nonneg) (auto simp: wanted_def)
  obtain st1 r where p: "prepare_one T answers req st c = (st1, r)" by force
  have "budget (prep_heap st) (wanted c + ?N)" "committable (prep_heap st) c"
    using Cons.prems(1,3) by simp_all
  note one = prepare_one_spec [OF this(1) N Cons.prems(2) this(2) p]
  obtain st2 cs' where q: "PrepareConfigsRequirements T answers req st1 configs = (st2, cs')" by force
  have cm: "\<forall>c \<in> set configs. committable (prep_heap st1) c"
    using Cons.prems(3) one committable_extends by fastforce
  have IH: "extends (prep_heap st1) (prep_heap st2)" "budget (prep_heap st2) 0" "maps_ok (prep_heap st2) (prep_nm st2)"
      "\<And>d. d \<in> set cs' \<Longrightarrow> committed (prep_heap st2) d" "sorted_wrt no_sharing cs'"
      "\<And>d i. d \<in> set cs' \<Longrightarrow> associatedGpu d < length (prep_heap st1) \<Longrightarrow> i |\<in>| fmdom (shelfItems d) \<Longrightarrow>
        placed (Usage (prep_heap st1 ! associatedGpu d)) i = None"
    using Cons.IH [OF _ _ cm q] one by auto
  have e: "extends (prep_heap st) (prep_heap st1)" using one by blast
  have o: "st' = st2" "cs = (case r of None \<Rightarrow> cs' | Some c' \<Rightarrow> c' # cs')" using Cons.prems(4) p q by auto
  have fresh: "placed (Usage (prep_heap st ! associatedGpu d)) i = None"
    if "d \<in> set cs'" "associatedGpu d < length (prep_heap st)" "i |\<in>| fmdom (shelfItems d)" for d i
  proof (rule ccontr)
    assume "placed (Usage (prep_heap st ! associatedGpu d)) i \<noteq> None"
    then obtain it where "placed (Usage (prep_heap st ! associatedGpu d)) i = Some it" by blast
    then have "placed (Usage (prep_heap st1 ! associatedGpu d)) i = Some it" using e that(2) unfolding extends_def by auto
    then show False using IH(6) [OF that(1) _ that(3)] e that(2) unfolding extends_def by simp
  qed
  show ?case
  proof (cases r)
    case None
    then show ?thesis using o IH(1-5) fresh extends_trans [OF e IH(1)] by simp
  next
    case (Some c')
    have c': "committed (prep_heap st1) c'"
        "\<And>i. associatedGpu c' < length (prep_heap st) \<Longrightarrow> i |\<in>| fmdom (shelfItems c') \<Longrightarrow>
          placed (Usage (prep_heap st ! associatedGpu c')) i = None"
      using one Some by auto
    have "no_sharing c' d" if "d \<in> set cs'" for d
      using fresh_no_sharing [of c' "prep_heap st1" d] c'(1) IH(6) [OF that] by (simp add: committed_def)
    then show ?thesis
      using o Some IH(1-5) fresh c' committed_extends [OF c'(1) IH(1)] extends_trans [OF e IH(1)] by auto
  qed
qed (simp add: budget_def)

section \<open>Properties\<close>

text \<open>
  C35. \<open>PrepareConfigsRequirements\<close> keeps the invariant of the whole GPU heap: every configuration it
  returns has at least one replica and owns exactly as many items of its size in the packer of its
  GPU; no two of them own the same item; no item that was placed before is moved or removed, so
  configurations committed earlier still own theirs; every packer stays well-formed; and the
  nodes' maps still lead to GPUs of the heap with the right UUID, also those provisioned on the way.
\<close>

theorem Prepare_commits:
  assumes "budget (prep_heap st) (sum_list (map wanted configs))" "maps_ok (prep_heap st) (prep_nm st)"
    and "\<forall>c \<in> set configs. committable (prep_heap st) c"
    and "PrepareConfigsRequirements T answers req st configs = (st', cs)"
  shows "(\<forall>c \<in> set cs. committed (prep_heap st') c) \<and> sorted_wrt no_sharing cs \<and>
    (\<forall>c. committed (prep_heap st) c \<longrightarrow> committed (prep_heap st') c \<and> (\<forall>d \<in> set cs. no_sharing c d)) \<and>
    (\<forall>g \<in> set (prep_heap st'). wf_packer (Usage g)) \<and> maps_ok (prep_heap st') (prep_nm st')"
proof -
  note S = prepare_spec [OF assms]
  have "no_sharing c d" if "committed (prep_heap st) c" "d \<in> set cs" for c d
    using fresh_no_sharing [of c "prep_heap st" d] S that by (auto simp: committed_def)
  moreover have "\<forall>g \<in> set (prep_heap st'). wf_packer (Usage g)" using S budgetD(2) by blast
  ultimately show ?thesis using S committed_extends by auto
qed

theorem Prepare_commits_witness:
  "\<exists>st' cs. PrepareConfigsRequirements \<lparr>AllocationTypeNone = [], AllocationTypeExclusive = ''exclusive'',
      AllocationTypeFastPod = ''fastpod'', AllocationTypeMPS = ''mps''\<rparr> (\<lambda>n c u p. None)
      \<lparr>req_ModelName = ''bert'', req_QPS = f64 10, req_AllocationType = ''fastpod'', PreferredGPU = []\<rparr>
      \<lparr>prep_nm = mgr (example_state []), prep_heap = [example_gpu], prep_calls = 0\<rparr> [example_config] = (st', cs) \<and>
    cs \<noteq> [] \<and> (\<forall>c \<in> set cs. committed (prep_heap st') c)"
proof -
  let ?T = "\<lparr>AllocationTypeNone = [], AllocationTypeExclusive = ''exclusive'', AllocationTypeFastPod = ''fastpod'',
      AllocationTypeMPS = ''mps''\<rparr>" and ?req = "\<lparr>req_ModelName = ''bert'', req_QPS = f64 10,
      req_AllocationType = ''fastpod'', PreferredGPU = []\<rparr>"
  let ?st = "\<lparr>prep_nm = mgr (example_state []), prep_heap = [example_gpu], prep_calls = 0\<rparr>"
  obtain st' cs where P: "PrepareConfigsRequirements ?T (\<lambda>n c u p. None) ?req ?st [example_config] = (st', cs)" by force
  have "TotalSMPercentage example_gpu = 100" by (simp add: example_gpu_def NewGPUDevInfo_def)
  then have "budget (prep_heap ?st) (sum_list (map wanted [example_config]))"
    using example_allocatable sound_NewShelf [of 100]
    by (simp add: budget_def allocatable_def wanted_def example_usage example_config_def NewShelf_def int64_def)
  moreover have "maps_ok (prep_heap ?st) (prep_nm ?st)"
    by (simp add: maps_ok_def example_state_def handshake_def example_env_def NewNodeManager_def Let_def)
  moreover have "\<forall>c \<in> set [example_config]. committable (prep_heap ?st) c"
    by (simp add: committable_def example_config_def f64_eval)
  ultimately have "\<forall>c \<in> set cs. committed (prep_heap st') c" using Prepare_commits [OF _ _ _ P] by blast
  moreover have "cs \<noteq> []"
  proof -
    have g: "gpu_NodeName example_gpu = ''n1''" "\<not> virtual example_gpu" "gpu_UUID example_gpu = ''gpu-1''"
        "example_config\<lparr>associatedGpu := 0, VGPUUUID := ''gpu-1''\<rparr> = example_config" "associatedGpu example_config = 0"
      by (simp_all add: example_gpu_def NewGPUDevInfo_def example_config_def)
    obtain node where "fmlookup (nodes (mgr (example_state []))) ''n1'' = Some node" "physicalGPUsMap node = fmempty"
      by (simp add: example_state_def handshake_def example_env_def)
    moreover obtain h c ok where "AllocateAndCommitConfig example_gpu example_config = (h, c, ok)" using prod_cases3 by blast
    moreover from example_commits [OF this] have "AllocatedReplica c = 3" .
    ultimately show ?thesis using P g by (auto simp: prepare_one_def resolve_gpu_def Let_def split: prod.splits)
  qed
  ultimately show ?thesis using P by blast
qed

end
