(* ===== verification/Fast_Pods.thy ===== *)
theory Fast_Pods
  imports Config_Commit
begin

text \<open>
  \<^verbatim>\<open>api/v1/fastfunc_types.go\<close>, \<^verbatim>\<open>internal/controller/config_to_fastpod.go\<close> and \<^verbatim>\<open>fastpod_add.go\<close>: the
  custom resource FaSTFunc, how a committed configuration becomes a FaSTPod, and how the FaSTPods are
  sent to the cluster. The FaSTPod type, the names of its annotations, \<^verbatim>\<open>SetControllerReference\<close>
  and the client belong to other packages: of the type, the fields the source reads or writes are
  kept, the rest are arguments. The pod specification and the owner references are never looked
  into; they are type variables.
\<close>

section \<open>Data\<close>

record 'p FaSTFuncSpec =
  PodSpec :: 'p
  MinQps :: int
  ModelName :: string
  spec_AllocationType :: string

record 'p FaSTFunc =
  ff_Name :: string
  ff_Namespace :: string
  ff_Annotations :: "(string, string) fmap"
  Spec :: "'p FaSTFuncSpec"

text \<open>Labels may be a nil map: writing to it panics.\<close>

record ('p, 'o) FaSTPod =
  pod_Name :: string
  pod_Namespace :: string
  pod_Labels :: "(string, string) fmap option"
  pod_Annotations :: "(string, string) fmap"
  pod_OwnerReferences :: "'o list"
  pod_Selector :: "(string, string) fmap"
  pod_PodSpec :: 'p
  pod_Replicas :: int

record annotation_keys =
  FaSTGShareGPUQuotaRequest :: string
  FaSTGShareGPUQuotaLimit :: string
  FaSTGShareGPUSMPartition :: string
  FaSTGShareGPUMemory :: string
  FaSTGShareNodeName :: string
  FaSTGShareVGPUUUID :: string
  FastGshareAllocationType :: string

section \<open>From configurations to FaSTPods\<close>

text \<open>\<^verbatim>\<open>int32(x)\<close> keeps the low 32 bits.\<close>

definition wrap32 :: "int \<Rightarrow> int" where
  "wrap32 x = (x + 2 ^ 31) mod 2 ^ 32 - 2 ^ 31"

lemma wrap32_id: "- (2 ^ 31) \<le> x \<Longrightarrow> x < 2 ^ 31 \<Longrightarrow> wrap32 x = x"
  by (simp add: wrap32_def)

definition getFastPodName :: "string \<Rightarrow> string \<Rightarrow> string" where
  "getFastPodName fastFuncName configUUID = fastFuncName @ ''-'' @ configUUID"

definition extendedLabels :: "string \<Rightarrow> Config \<Rightarrow> (string, string) fmap" where
  "extendedLabels name config =
    fmupd ''fast_function'' name
     (fmupd ''com.openfaas.scale.max'' (Itoa (AllocatedReplica config))
       (fmupd ''com.openfaas.scale.min'' (Itoa (AllocatedReplica config)) fmempty))"

definition extendedAnnotations :: "annotation_keys \<Rightarrow> Config \<Rightarrow> (string, string) fmap" where
  "extendedAnnotations K config =
    fmupd ''rps'' (fmt_2f (AllocatedRPS config))
     (fmupd ''config_uuid'' (cfg_UUID config)
      (fmupd (FastGshareAllocationType K) (cfg_AllocationType config)
       (fmupd (FaSTGShareVGPUUUID K) (VGPUUUID config)
        (fmupd (FaSTGShareNodeName K) (cfg_NodeName config)
         (fmupd (FaSTGShareGPUMemory K) (Itoa (MemoryReq config))
          (fmupd (FaSTGShareGPUSMPartition K) (Itoa (SMPartition config))
           (fmupd (FaSTGShareGPUQuotaLimit K) (fmt_2f (QuotaLimit config))
            (fmupd (FaSTGShareGPUQuotaRequest K) (fmt_2f (QuotaReq config)) fmempty))))))))"

definition fastpod_of :: "annotation_keys \<Rightarrow> 'p FaSTFunc \<Rightarrow> Config \<Rightarrow> ('p, 'o) FaSTPod" where
  "fastpod_of K fastfunc config =
    \<lparr>pod_Name = getFastPodName (ff_Name fastfunc) (cfg_UUID config), pod_Namespace = ''fast-gshare-fn'',
     pod_Labels = Some (extendedLabels (ff_Name fastfunc) config), pod_Annotations = extendedAnnotations K config,
     pod_OwnerReferences = [], pod_Selector = fmempty, pod_PodSpec = PodSpec (Spec fastfunc),
     pod_Replicas = wrap32 (AllocatedReplica config)\<rparr>"

text \<open>\<open>set_ref\<close> is \<^verbatim>\<open>SetControllerReference\<close> with the manager's scheme; None is its error.\<close>

fun ConvertConfigs2FaSTPods :: "annotation_keys \<Rightarrow> ('p FaSTFunc \<Rightarrow> ('p, 'o) FaSTPod \<Rightarrow> ('p, 'o) FaSTPod option) \<Rightarrow>
    'p FaSTFunc \<Rightarrow> Config list \<Rightarrow> ('p, 'o) FaSTPod list option" where
  "ConvertConfigs2FaSTPods K set_ref fastfunc [] = Some []"
| "ConvertConfigs2FaSTPods K set_ref fastfunc (config # configs) =
     (case set_ref fastfunc (fastpod_of K fastfunc config) of
        None \<Rightarrow> None
      | Some fastpod \<Rightarrow> map_option (Cons fastpod) (ConvertConfigs2FaSTPods K set_ref fastfunc configs))"

section \<open>Sending FaSTPods to the cluster\<close>

text \<open>The client: every call may change the state \<open>'s\<close> of the cluster as others see it.\<close>

datatype client_error = NotFound | OtherError string

record ('s, 'p, 'o) kube_client =
  kube_Get :: "'s \<Rightarrow> string \<Rightarrow> string \<Rightarrow> 's \<times> (client_error + ('p, 'o) FaSTPod)"
  kube_Create :: "'s \<Rightarrow> ('p, 'o) FaSTPod \<Rightarrow> 's \<times> client_error option"
  kube_Update :: "'s \<Rightarrow> ('p, 'o) FaSTPod \<Rightarrow> 's \<times> client_error option"
  kube_Delete :: "'s \<Rightarrow> ('p, 'o) FaSTPod \<Rightarrow> 's \<times> client_error option"

fun AddFastPods :: "('s, 'p, 'o) kube_client \<Rightarrow> 's \<Rightarrow> ('p, 'o) FaSTPod list \<Rightarrow> 's \<times> client_error option" where
  "AddFastPods kc s [] = (s, None)"
| "AddFastPods kc s (fastpod # fastpods) =
     (case kube_Get kc s (pod_Name fastpod) (pod_Namespace fastpod) of
        (s, Inl NotFound) \<Rightarrow> kube_Create kc s fastpod
      | (s, Inl (OtherError e)) \<Rightarrow> (s, Some (OtherError e))
      | (s, Inr existed) \<Rightarrow>
          (case kube_Update kc s (existed\<lparr>pod_Replicas := wrap32 (pod_Replicas fastpod)\<rparr>) of
             (s, Some err) \<Rightarrow> (s, Some err)
           | (s, None) \<Rightarrow> AddFastPods kc s fastpods))"

lemmas pods_eval [go_eval] =
  getFastPodName_def extendedLabels_def extendedAnnotations_def fastpod_of_def

section \<open>Names and annotations\<close>

lemma getFastPodName_inj [simp]: "getFastPodName f u = getFastPodName f v \<longleftrightarrow> u = v"
  by (simp add: getFastPodName_def)

text \<open>What is documented of \<^verbatim>\<open>SetControllerReference\<close>: it sets an owner reference and nothing else.\<close>

definition only_owner :: "('p FaSTFunc \<Rightarrow> ('p, 'o) FaSTPod \<Rightarrow> ('p, 'o) FaSTPod option) \<Rightarrow> bool" where
  "only_owner set_ref \<longleftrightarrow> (\<forall>f pod pod'. set_ref f pod = Some pod' \<longrightarrow>
     pod' = pod\<lparr>pod_OwnerReferences := pod_OwnerReferences pod'\<rparr>)"

text \<open>The annotation names are nine different strings.\<close>

definition keys_distinct :: "annotation_keys \<Rightarrow> bool" where
  "keys_distinct K \<longleftrightarrow> distinct [FaSTGShareGPUQuotaRequest K, FaSTGShareGPUQuotaLimit K, FaSTGShareGPUSMPartition K,
     FaSTGShareGPUMemory K, FaSTGShareNodeName K, FaSTGShareVGPUUUID K, FastGshareAllocationType K, ''config_uuid'', ''rps'']"

text \<open>What can be read back from a FaSTPod made for a configuration.\<close>

definition describes :: "annotation_keys \<Rightarrow> string \<Rightarrow> ('p, 'o) FaSTPod \<Rightarrow> Config \<Rightarrow> bool" where
  "describes K name pod c \<longleftrightarrow>
     pod_Name pod = getFastPodName name (cfg_UUID c) \<and>
     gm_str (pod_Annotations pod) ''config_uuid'' = cfg_UUID c \<and>
     gm_str (pod_Annotations pod) (FaSTGShareVGPUUUID K) = VGPUUUID c \<and>
     gm_str (pod_Annotations pod) (FaSTGShareNodeName K) = cfg_NodeName c \<and>
     gm_str (pod_Annotations pod) (FastGshareAllocationType K) = cfg_AllocationType c \<and>
     Atoi (gm_str (pod_Annotations pod) (FaSTGShareGPUMemory K)) = Some (MemoryReq c) \<and>
     Atoi (gm_str (pod_Annotations pod) (FaSTGShareGPUSMPartition K)) = Some (SMPartition c) \<and>
     gm_str (pod_Annotations pod) (FaSTGShareGPUQuotaRequest K) = fmt_2f (QuotaReq c) \<and>
     gm_str (pod_Annotations pod) (FaSTGShareGPUQuotaLimit K) = fmt_2f (QuotaLimit c) \<and>
     (\<exists>labels. pod_Labels pod = Some labels \<and> gm_str labels ''fast_function'' = name \<and>
       Atoi (gm_str labels ''com.openfaas.scale.min'') = Some (AllocatedReplica c) \<and>
       Atoi (gm_str labels ''com.openfaas.scale.max'') = Some (AllocatedReplica c)) \<and>
     pod_Replicas pod = AllocatedReplica c"

lemma gm_str_upd [simp]: "gm_str (fmupd k v m) j = (if k = j then v else gm_str m j)"
  by (simp add: gm_str_def)

lemma annotations_read:
  assumes "keys_distinct K"
  shows "gm_str (extendedAnnotations K c) ''config_uuid'' = cfg_UUID c"
    "gm_str (extendedAnnotations K c) (FaSTGShareVGPUUUID K) = VGPUUUID c"
    "gm_str (extendedAnnotations K c) (FaSTGShareNodeName K) = cfg_NodeName c"
    "gm_str (extendedAnnotations K c) (FastGshareAllocationType K) = cfg_AllocationType c"
    "gm_str (extendedAnnotations K c) (FaSTGShareGPUMemory K) = Itoa (MemoryReq c)"
    "gm_str (extendedAnnotations K c) (FaSTGShareGPUSMPartition K) = Itoa (SMPartition c)"
    "gm_str (extendedAnnotations K c) (FaSTGShareGPUQuotaRequest K) = fmt_2f (QuotaReq c)"
    "gm_str (extendedAnnotations K c) (FaSTGShareGPUQuotaLimit K) = fmt_2f (QuotaLimit c)"
  using assms unfolding keys_distinct_def extendedAnnotations_def by (simp_all only: distinct.simps list.set insert_iff
      empty_iff gm_str_upd simp_thms not_sym if_True if_False de_Morgan_disj)

lemma labels_read:
  "gm_str (extendedLabels name c) ''fast_function'' = name"
  "gm_str (extendedLabels name c) ''com.openfaas.scale.min'' = Itoa (AllocatedReplica c)"
  "gm_str (extendedLabels name c) ''com.openfaas.scale.max'' = Itoa (AllocatedReplica c)"
  by (simp_all add: extendedLabels_def)

lemma fastpod_describes:
  assumes "keys_distinct K" "int64 (MemoryReq c)" "int64 (SMPartition c)" "0 \<le> AllocatedReplica c" "AllocatedReplica c < 2 ^ 31"
  shows "describes K (ff_Name f) (fastpod_of K f c) c"
proof -
  have "int64 (AllocatedReplica c)" "wrap32 (AllocatedReplica c) = AllocatedReplica c"
    using assms(4,5) by (simp_all add: int64_def wrap32_id)
  then show ?thesis
    using assms(2,3) by (simp add: describes_def fastpod_of_def labels_read annotations_read [OF assms(1)] Atoi_Itoa)
qed

lemma describes_owner [simp]: "describes K name (pod\<lparr>pod_OwnerReferences := r\<rparr>) c = describes K name pod c"
  by (simp add: describes_def)

section \<open>Properties\<close>

text \<open>
  C13. A FaSTPod says which configuration it runs: if \<open>ConvertConfigs2FaSTPods\<close> succeeds it makes one
  FaSTPod per configuration, in order, from which the configuration can be read back: the replica
  count (also at 32 bits and from the scaling labels), the memory and SM share by parsing the annotations,
  the GPU, the node, the allocation type and the UUID as they are, the quotas printed with two
  decimals. It fails only if setting an owner reference fails.
\<close>

theorem Convert_describes:
  assumes "keys_distinct K" "only_owner set_ref"
    and "\<forall>c \<in> set configs. int64 (MemoryReq c) \<and> int64 (SMPartition c) \<and> 0 \<le> AllocatedReplica c \<and> AllocatedReplica c < 2 ^ 31"
  shows "case ConvertConfigs2FaSTPods K set_ref f configs of
      None \<Rightarrow> \<exists>c \<in> set configs. set_ref f (fastpod_of K f c) = None
    | Some pods \<Rightarrow> list_all2 (describes K (ff_Name f)) pods configs"
  using assms(3)
proof (induction configs)
  case (Cons c configs)
  have d: "describes K (ff_Name f) (fastpod_of K f c) c" using fastpod_describes [OF assms(1), of c f] Cons.prems by auto
  show ?case
  proof (cases "set_ref f (fastpod_of K f c)")
    case (Some pod)
    have "pod = (fastpod_of K f c)\<lparr>pod_OwnerReferences := pod_OwnerReferences pod\<rparr>"
      using assms(2) Some unfolding only_owner_def by blast
    then have "describes K (ff_Name f) pod c" using d by (metis describes_owner)
    then show ?thesis using Cons Some by (auto split: option.splits)
  qed simp
qed simp

definition example_keys :: annotation_keys where
  "example_keys = \<lparr>FaSTGShareGPUQuotaRequest = ''quota_request'', FaSTGShareGPUQuotaLimit = ''quota_limit'',
     FaSTGShareGPUSMPartition = ''sm_partition'', FaSTGShareGPUMemory = ''gpu_mem'', FaSTGShareNodeName = ''node'',
     FaSTGShareVGPUUUID = ''vgpu_uuid'', FastGshareAllocationType = ''allocation_type''\<rparr>"

definition example_func :: "unit FaSTFunc" where
  "example_func = \<lparr>ff_Name = ''bert'', ff_Namespace = ''fast-gshare'', ff_Annotations = fmempty,
     Spec = \<lparr>PodSpec = (), MinQps = 1, ModelName = ''bert'', spec_AllocationType = ''FASTPOD''\<rparr>\<rparr>"

theorem Convert_describes_witness:
  "\<exists>pods. ConvertConfigs2FaSTPods example_keys (\<lambda>f pod. Some (pod\<lparr>pod_OwnerReferences := [ff_Name f]\<rparr>))
      example_func [example_config] = Some pods \<and> list_all2 (describes example_keys ''bert'') pods [example_config]"
proof -
  have "keys_distinct example_keys" by (simp add: keys_distinct_def example_keys_def)
  moreover have "only_owner (\<lambda>f pod. Some (pod\<lparr>pod_OwnerReferences := [ff_Name f]\<rparr>))" by (simp add: only_owner_def)
  moreover have "\<forall>c \<in> set [example_config]. int64 (MemoryReq c) \<and> int64 (SMPartition c) \<and> 0 \<le> AllocatedReplica c \<and>
      AllocatedReplica c < 2 ^ 31" by (simp add: example_config_def int64_def)
  ultimately show ?thesis
    using Convert_describes [of example_keys "\<lambda>f pod. Some (pod\<lparr>pod_OwnerReferences := [ff_Name f]\<rparr>)" "[example_config]" example_func]
    by (simp add: example_func_def)
qed

end
