(* ===== verification/Scale_Down.thy ===== *)
theory Scale_Down
  imports Fast_Pods
begin

text \<open>
  The bookkeeping of a function and \<open>scaleDownFaSTFunc\<close> of
  \<^verbatim>\<open>internal/controller/fastfunc_reconcile.go\<close>: which configurations of a function are removed and
  which are reduced when less is needed, and what becomes of their FaSTPods. A \<^verbatim>\<open>range\<close> over the map
  of configurations takes the order of its keys as an argument. The result of a function that can
  panic is an option, None standing for the panic.
\<close>

section \<open>Data\<close>

record FastFunc =
  fn_Name :: string
  configUUIDToConfig :: "(string, Config) fmap"
  currentRPSCapacity :: float64
  scaleDownConsecutiveCount :: int

record ReduceInfo =
  ri_Config :: Config
  NewReplica :: int
  ReducedDelta :: float64

definition GetConfigForFastPod :: "FastFunc \<Rightarrow> ('p, 'o) FaSTPod \<Rightarrow> Config option" where
  "GetConfigForFastPod f fastPod = fmlookup (configUUIDToConfig f) (gm_str (pod_Annotations fastPod) ''config_uuid'')"

definition CurrentConfigs :: "string list \<Rightarrow> FastFunc \<Rightarrow> Config list" where
  "CurrentConfigs order f = List.map_filter (fmlookup (configUUIDToConfig f)) order"

section \<open>The selection\<close>

text \<open>The loop over the sorted configurations: what to remove, what to reduce, and the rate that the
  loop counts as left.\<close>

fun select_loop :: "float64 \<Rightarrow> Config list \<Rightarrow> float64 \<Rightarrow> Config list \<times> ReduceInfo list \<times> float64" where
  "select_loop newRPS [] currentRPS = ([], [], currentRPS)"
| "select_loop newRPS (config # configs) currentRPS =
     (if currentRPS \<le> newRPS then ([], [], currentRPS)
      else
        let rpsPerReplica = QpsPerReplica config;
            maxRemovableRPS = currentRPS - newRPS;
            maxRemovableReplicas = int_of_float64 (math_Floor (maxRemovableRPS / rpsPerReplica))
        in
        if maxRemovableReplicas \<ge> AllocatedReplica config then
          if currentRPS - AllocatedRPS config \<ge> newRPS then
            let (toRemove, toUpdate, left) = select_loop newRPS configs (currentRPS - AllocatedRPS config)
            in (config # toRemove, toUpdate, left)
          else ([], [], currentRPS)
        else if maxRemovableReplicas > 0 then
          let newReplica = wrap64 (AllocatedReplica config - maxRemovableReplicas);
              newReplica = (if newReplica < 1 then 1 else newReplica);
              updatedRPS = float64_of_int newReplica * rpsPerReplica;
              reducedDelta = currentRPS - (AllocatedRPS config - updatedRPS)
          in if currentRPS - reducedDelta \<ge> newRPS then
               let (toRemove, toUpdate, left) = select_loop newRPS configs (currentRPS - reducedDelta)
               in (toRemove, \<lparr>ri_Config = config, NewReplica = newReplica, ReducedDelta = reducedDelta\<rparr> # toUpdate, left)
             else ([], [], currentRPS)
        else select_loop newRPS configs currentRPS)"

definition total_rps :: "Config list \<Rightarrow> float64" where
  "total_rps configs = foldl (\<lambda>sum c. sum + AllocatedRPS c) (f64 0) configs"

definition sorted_configs :: "((Config \<Rightarrow> Config \<Rightarrow> bool) \<Rightarrow> Config list \<Rightarrow> Config list) \<Rightarrow> Config list \<Rightarrow> Config list" where
  "sorted_configs sort_Slice configs = sort_Slice (\<lambda>c d. AllocatedRPS c < AllocatedRPS d) configs"

section \<open>The FaSTPods\<close>

fun remove_pods :: "('s, 'p, 'o) kube_client \<Rightarrow> string \<Rightarrow> 's \<Rightarrow> Config list \<Rightarrow> 's \<times> Config list" where
  "remove_pods kc name s [] = (s, [])"
| "remove_pods kc name s (config # configs) =
     (case kube_Get kc s (getFastPodName name (cfg_UUID config)) ''fast-gshare-fn'' of
        (s, Inl NotFound) \<Rightarrow>
          let (s, configsRemoved) = remove_pods kc name s configs in (s, config # configsRemoved)
      | (s, Inl (OtherError e)) \<Rightarrow> remove_pods kc name s configs
      | (s, Inr fastPod) \<Rightarrow>
          (case kube_Delete kc s fastPod of
             (s, Some err) \<Rightarrow> remove_pods kc name s configs
           | (s, None) \<Rightarrow>
               let (s, configsRemoved) = remove_pods kc name s configs in (s, config # configsRemoved)))"

fun update_pods :: "('s, 'p, 'o) kube_client \<Rightarrow> string \<Rightarrow> 's \<Rightarrow> ReduceInfo list \<Rightarrow> ('s \<times> ReduceInfo list) option" where
  "update_pods kc name s [] = Some (s, [])"
| "update_pods kc name s (info # infos) =
     (case kube_Get kc s (getFastPodName name (cfg_UUID (ri_Config info))) ''fast-gshare-fn'' of
        (s, Inl NotFound) \<Rightarrow> do {
          (s, configsUpdated) \<leftarrow> update_pods kc name s infos;
          Some (s, info # configsUpdated)
        }
      | (s, Inl (OtherError e)) \<Rightarrow> update_pods kc name s infos
      | (s, Inr fastPod) \<Rightarrow> do {
          labels \<leftarrow> pod_Labels fastPod;
          let labels = fmupd ''com.openfaas.scale.max'' (Itoa (NewReplica info)) labels;
          let labels = fmupd ''com.openfaas.scale.min'' (Itoa (NewReplica info)) labels;
          let existedCopy = fastPod\<lparr>pod_Replicas := wrap32 (NewReplica info), pod_Labels := Some labels\<rparr>;
          case kube_Update kc s existedCopy of
            (s, Some err) \<Rightarrow> update_pods kc name s infos
          | (s, None) \<Rightarrow> do {
              (s, configsUpdated) \<leftarrow> update_pods kc name s infos;
              Some (s, info # configsUpdated)
            }
        })"

definition scaleDownFaSTFunc ::
  "('s, 'p, 'o) kube_client \<Rightarrow> ((Config \<Rightarrow> Config \<Rightarrow> bool) \<Rightarrow> Config list \<Rightarrow> Config list) \<Rightarrow> string list \<Rightarrow>
    's \<Rightarrow> FastFunc \<Rightarrow> float64 \<Rightarrow> ('s \<times> ReduceInfo list \<times> Config list) option" where
  "scaleDownFaSTFunc kc sort_Slice order s fastFunc newRPS =
    (let currentConfigs = sorted_configs sort_Slice (CurrentConfigs order fastFunc);
         currentRPS = total_rps currentConfigs;
         (toRemove, toUpdate, left) = select_loop newRPS currentConfigs currentRPS;
         (s, configsRemoved) = remove_pods kc (fn_Name fastFunc) s toRemove
     in do {
       (s, configsUpdated) \<leftarrow> update_pods kc (fn_Name fastFunc) s toUpdate;
       Some (s, configsUpdated, configsRemoved)
     })"

declare select_loop.simps(2) [simp del]

lemmas scale_down_eval [go_eval] =
  GetConfigForFastPod_def CurrentConfigs_def total_rps_def sorted_configs_def scaleDownFaSTFunc_def

section \<open>What the selection picks\<close>

lemma CurrentConfigs_mem:
  assumes "range_order order (configUUIDToConfig f)"
  shows "c \<in> set (CurrentConfigs order f) \<longleftrightarrow> (\<exists>u. fmlookup (configUUIDToConfig f) u = Some c)"
proof -
  have "u \<in> set order" if "fmlookup (configUUIDToConfig f) u = Some c" for u
    using range_order_mem [OF assms, of u] that by simp
  then show ?thesis by (force simp: CurrentConfigs_def List.map_filter_def)
qed

lemma map_filter_length: "\<forall>k \<in> set ks. m k \<noteq> None \<Longrightarrow> length (List.map_filter m ks) = length ks"
  by (induction ks) (auto simp: List.map_filter_def)

lemma CurrentConfigs_length:
  "range_order order (configUUIDToConfig f) \<Longrightarrow> length (CurrentConfigs order f) = gm_len (configUUIDToConfig f)"
  unfolding CurrentConfigs_def
  by (subst map_filter_length) (auto simp: range_order_mem range_order_length)

text \<open>What one iteration does.\<close>

definition removable :: "float64 \<Rightarrow> float64 \<Rightarrow> Config \<Rightarrow> int" where
  "removable newRPS currentRPS c = int_of_float64 (math_Floor ((currentRPS - newRPS) / QpsPerReplica c))"

definition reduction :: "float64 \<Rightarrow> float64 \<Rightarrow> Config \<Rightarrow> ReduceInfo" where
  "reduction newRPS currentRPS c =
    (let n = wrap64 (AllocatedReplica c - removable newRPS currentRPS c); n = (if n < 1 then 1 else n)
     in \<lparr>ri_Config = c, NewReplica = n,
         ReducedDelta = currentRPS - (AllocatedRPS c - float64_of_int n * QpsPerReplica c)\<rparr>)"

lemma select_loop_Cons:
  "select_loop newRPS (c # cs) cur =
    (if cur \<le> newRPS then ([], [], cur)
     else if AllocatedReplica c \<le> removable newRPS cur c then
       if newRPS \<le> cur - AllocatedRPS c
       then (case select_loop newRPS cs (cur - AllocatedRPS c) of (R, U, L) \<Rightarrow> (c # R, U, L)) else ([], [], cur)
     else if 0 < removable newRPS cur c then
       if newRPS \<le> cur - ReducedDelta (reduction newRPS cur c)
       then (case select_loop newRPS cs (cur - ReducedDelta (reduction newRPS cur c)) of
               (R, U, L) \<Rightarrow> (R, reduction newRPS cur c # U, L)) else ([], [], cur)
     else select_loop newRPS cs cur)"
  by (simp add: select_loop.simps(2) removable_def reduction_def Let_def)

lemma select_stepE:
  assumes "select_loop newRPS (c # cs) cur = (R, U, L)"
  obtains
    (stop) "R = []" "U = []" "L = cur"
  | (remove) R' where "R = c # R'" "\<not> cur \<le> newRPS" "AllocatedReplica c \<le> removable newRPS cur c"
      "newRPS \<le> cur - AllocatedRPS c" "select_loop newRPS cs (cur - AllocatedRPS c) = (R', U, L)"
  | (reduce) U' where "U = reduction newRPS cur c # U'" "\<not> cur \<le> newRPS" "0 < removable newRPS cur c"
      "removable newRPS cur c < AllocatedReplica c" "newRPS \<le> cur - ReducedDelta (reduction newRPS cur c)"
      "select_loop newRPS cs (cur - ReducedDelta (reduction newRPS cur c)) = (R, U', L)"
  | (skip) "select_loop newRPS cs cur = (R, U, L)"
proof (cases "cur \<le> newRPS")
  case True
  then show ?thesis using assms stop by (simp add: select_loop_Cons)
next
  case False
  note step = assms [unfolded select_loop_Cons] False
  consider (a) "AllocatedReplica c \<le> removable newRPS cur c" | (b) "\<not> AllocatedReplica c \<le> removable newRPS cur c"
    "0 < removable newRPS cur c" | (c) "\<not> AllocatedReplica c \<le> removable newRPS cur c" "\<not> 0 < removable newRPS cur c"
    by blast
  then show ?thesis
  proof cases
    case a
    obtain R' U' L' where "select_loop newRPS cs (cur - AllocatedRPS c) = (R', U', L')" using prod_cases3 by blast
    then show ?thesis
      using step a stop remove [of R'] by (cases "newRPS \<le> cur - AllocatedRPS c") simp_all
  next
    case b
    obtain R' U' L' where "select_loop newRPS cs (cur - ReducedDelta (reduction newRPS cur c)) = (R', U', L')"
      using prod_cases3 by blast
    then show ?thesis
      using step b stop reduce [of U'] by (cases "newRPS \<le> cur - ReducedDelta (reduction newRPS cur c)") simp_all
  next
    case c
    then show ?thesis using step skip by simp
  qed
qed

text \<open>Each configuration is removed or reduced or left alone, never more than one of them.\<close>

lemma select_loop_subset:
  "select_loop newRPS configs cur = (toRemove, toUpdate, left) \<Longrightarrow>
    mset toRemove + mset (map ri_Config toUpdate) \<subseteq># mset configs"
proof (induction configs arbitrary: cur toRemove toUpdate left)
  case (Cons c cs)
  from Cons.prems show ?case
  proof (cases rule: select_stepE)
    case (skip)
    then show ?thesis using Cons.IH [OF skip] by (simp add: subset_mset.order_trans)
  qed (use Cons.IH in \<open>auto simp: reduction_def Let_def\<close>)
qed simp

text \<open>A reduction is accepted only for fewer replicas than there are and at least one: the clamp to one is
  never used.\<close>

lemma int64_int_of_float64 [simp]: "int64 (int_of_float64 x)"
  by (simp add: int_of_float64_def int64_def split: float64.splits)

lemma reduction_bounds:
  assumes "0 < removable newRPS cur c" "removable newRPS cur c < AllocatedReplica c" "int64 (AllocatedReplica c)"
  shows "NewReplica (reduction newRPS cur c) = AllocatedReplica c - removable newRPS cur c"
proof -
  have "wrap64 (AllocatedReplica c - removable newRPS cur c) = AllocatedReplica c - removable newRPS cur c"
    using assms by (intro wrap64_id) (simp add: int64_def)
  then show ?thesis using assms(2) by (simp add: reduction_def Let_def)
qed

lemma select_loop_spec:
  assumes "select_loop newRPS configs cur = (toRemove, toUpdate, left)" "\<forall>c \<in> set configs. int64 (AllocatedReplica c)"
  shows "(\<forall>u \<in> set toUpdate. 1 \<le> NewReplica u \<and> NewReplica u < AllocatedReplica (ri_Config u)) \<and>
    (toRemove = [] \<and> toUpdate = [] \<and> left = cur \<or> \<not> cur \<le> newRPS \<and> newRPS \<le> left)"
  using assms
proof (induction configs arbitrary: cur toRemove toUpdate left)
  case (Cons c cs)
  from Cons.prems(1) show ?case
  proof (cases rule: select_stepE)
    case (remove R')
    then show ?thesis using Cons.IH [OF remove(5)] Cons.prems(2) by auto
  next
    case (reduce U')
    then show ?thesis
      using Cons.IH [OF reduce(6)] Cons.prems(2) reduction_bounds [of newRPS cur c] by (auto simp: reduction_def Let_def)
  qed (use Cons in auto)
qed simp

lemma skip_mset: "A \<subseteq># B \<Longrightarrow> A \<subseteq># add_mset x B"
  by (simp add: subset_mset.order_trans)

text \<open>A configuration is dropped from the lists when the cluster did not confirm the change.\<close>

lemma remove_pods_subset: "remove_pods kc name s configs = (s', removed) \<Longrightarrow> mset removed \<subseteq># mset configs"
proof (induction configs arbitrary: s s' removed)
  case (Cons c configs)
  note ih = Cons.IH skip_mset [OF Cons.IH]
  show ?case using Cons.prems
    by (auto split: prod.splits sum.splits client_error.splits option.splits intro: ih)
qed simp

lemma update_pods_subset: "update_pods kc name s infos = Some (s', updated) \<Longrightarrow> mset updated \<subseteq># mset infos"
proof (induction infos arbitrary: s s' updated)
  case (Cons u infos)
  note ih = Cons.IH skip_mset [OF Cons.IH]
  show ?case using Cons.prems
    by (auto simp: Let_def split: prod.splits sum.splits client_error.splits option.splits Option.bind_splits intro: ih)
qed simp

lemma scaleDown_selects:
  assumes "slice_sort sort_Slice" "scaleDownFaSTFunc kc sort_Slice order s f newRPS = Some (s', updated, removed)"
  defines "configs \<equiv> sorted_configs sort_Slice (CurrentConfigs order f)"
  obtains R U L where "select_loop newRPS configs (total_rps configs) = (R, U, L)" "mset removed \<subseteq># mset R"
    "mset updated \<subseteq># mset U" "mset configs = mset (CurrentConfigs order f)"
    "mset removed + mset (map ri_Config updated) \<subseteq># mset (CurrentConfigs order f)"
proof -
  have ms: "mset configs = mset (CurrentConfigs order f)"
    using slice_sort.permutes [OF assms(1)] by (simp add: configs_def sorted_configs_def)
  obtain R U L where sel: "select_loop newRPS configs (total_rps configs) = (R, U, L)" using prod_cases3 by blast
  obtain s1 R' where rp: "remove_pods kc (fn_Name f) s R = (s1, R')" by force
  have up: "removed = R'" "update_pods kc (fn_Name f) s1 U = Some (s', updated)"
    using assms(2) sel rp by (auto simp: configs_def scaleDownFaSTFunc_def Let_def split: Option.bind_splits)
  have r: "mset removed \<subseteq># mset R" and u: "mset updated \<subseteq># mset U"
    using remove_pods_subset [OF rp] update_pods_subset [OF up(2)] up(1) by simp_all
  have "mset (map ri_Config updated) \<subseteq># mset (map ri_Config U)" using image_mset_subseteq_mono [OF u] by simp
  then have "mset removed + mset (map ri_Config updated) \<subseteq># mset configs"
    using select_loop_subset [OF sel] subset_mset.add_mono [OF r] subset_mset.order_trans by blast
  then show ?thesis using that [OF sel r u ms] ms by simp
qed

section \<open>Properties\<close>


text \<open>A function with ten and with a hundred replicas of one request per second each, of which two are
  needed, in a cluster that has lost its FaSTPods.\<close>

definition example_small :: Config where
  "example_small = example_config\<lparr>cfg_UUID := ''a'', QpsPerReplica := f64 1, AllocatedReplica := 10, AllocatedRPS := f64 10\<rparr>"

definition example_large :: Config where
  "example_large = example_config\<lparr>cfg_UUID := ''b'', QpsPerReplica := f64 1, AllocatedReplica := 100, AllocatedRPS := f64 100\<rparr>"

definition example_fn :: FastFunc where
  "example_fn = \<lparr>fn_Name = ''bert'', configUUIDToConfig = fmupd ''a'' example_small (fmupd ''b'' example_large fmempty),
     currentRPSCapacity = f64 110, scaleDownConsecutiveCount = 2\<rparr>"

definition empty_cluster :: "(unit, unit, unit) kube_client" where
  "empty_cluster = \<lparr>kube_Get = \<lambda>s n ns. (s, Inl NotFound), kube_Create = \<lambda>s p. (s, None),
     kube_Update = \<lambda>s p. (s, Some NotFound), kube_Delete = \<lambda>s p. (s, Some NotFound)\<rparr>"

lemma example_numbers:
  "f64 2 = Fin 2" "f64 10 = Fin 10" "f64 100 = Fin 100" "f64 110 = Fin 110" "f64 98 = Fin 98" "Fin 0 + Fin 10 = Fin 10"
  "Fin 10 + Fin 100 = Fin 110" "Fin 110 - Fin 2 = Fin 108" "Fin 110 - Fin 10 = Fin 100" "Fin 100 - Fin 2 = Fin 98"
  "int_of_float64 (math_Floor (Fin 108 / Fin 1)) = 108" "int_of_float64 (math_Floor (Fin 98 / Fin 1)) = 98"
  "float64_of_int 2 * Fin 1 = Fin 2" "Fin 100 - Fin 98 = Fin 2"
  "\<not> Fin 110 \<le> Fin 2" "\<not> Fin 100 \<le> Fin 2" "Fin 2 \<le> Fin 100" "Fin 2 \<le> Fin 98" "Fin 10 < Fin 100" "\<not> Fin 100 < Fin 10"
  by (simp_all add: f64_eval)

lemma example_sorted: "sorted_configs insertionSort (CurrentConfigs [''a'', ''b''] example_fn) = [example_small, example_large]"
  by (simp add: sorted_configs_def CurrentConfigs_def example_fn_def List.map_filter_def insertionSort_def
      example_small_def example_large_def example_numbers)

lemma example_select:
  "select_loop (f64 2) [example_small, example_large] (total_rps [example_small, example_large]) =
    ([example_small], [\<lparr>ri_Config = example_large, NewReplica = 2, ReducedDelta = f64 2\<rparr>], f64 98)"
  by (simp add: total_rps_def select_loop.simps(2) example_small_def example_large_def example_numbers wrap64_eval Let_def)

lemma example_scaleDown:
  "scaleDownFaSTFunc empty_cluster insertionSort [''a'', ''b''] () example_fn (f64 2) =
    Some ((), [\<lparr>ri_Config = example_large, NewReplica = 2, ReducedDelta = f64 2\<rparr>], [example_small])"
  unfolding scaleDownFaSTFunc_def example_sorted example_select Let_def
  by (simp add: empty_cluster_def)

lemma example_order: "range_order [''a'', ''b''] (configUUIDToConfig example_fn)"
  by (simp add: range_order_def example_fn_def)


end
