(* ===== verification/Update_Function.thy ===== *)
theory Update_Function
  imports Scale_Down
begin

text \<open>
  \<open>UpdateFunction\<close> of \<^verbatim>\<open>internal/controller/fastfunc_scale.go\<close>, with \<open>scheduleForDeletion\<close> of
  \<^verbatim>\<open>fastfunc_reconcile.go\<close> and \<open>handleDeletedFaSTFunc\<close> of \<^verbatim>\<open>fastfunc_controller.go\<close>: one check of a
  function, which scales it up, scales it down or leaves it, and the end of a function. The state is the
  global map of functions, the nodes and the GPU heap, the supply of UUIDs, the cluster and the
  timers that were started to release GPUs.
\<close>

section \<open>State and environment\<close>

record 's controller =
  fastFuncMap :: "(string, FastFunc) fmap"
  ctl_prep :: prep_state
  ctl_uuid :: nat
  ctl_cluster :: 's
  ctl_timers :: "(string \<times> string) list"

text \<open>What the code calls of other packages.\<close>

record ('s, 'p, 'o) environment =
  env_types :: alloc_types
  env_GetAllocationType :: "string \<Rightarrow> string"
  env_sortGPUs :: slice_sorter
  env_sortConfigs :: "(Config \<Rightarrow> Config \<Rightarrow> bool) \<Rightarrow> Config list \<Rightarrow> Config list"
  env_uuids :: "nat \<Rightarrow> string"
  env_answers :: gpu_answers
  env_client :: "('s, 'p, 'o) kube_client"
  env_keys :: annotation_keys
  env_setref :: "'p FaSTFunc \<Rightarrow> ('p, 'o) FaSTPod \<Rightarrow> ('p, 'o) FaSTPod option"

text \<open>The orders in which the maps are visited during one call: of the nodes, of the function's
  configurations, and of the items of each configuration.\<close>

record orders =
  ord_nodes :: "string list"
  ord_configs :: "string list"
  ord_items :: "Config \<Rightarrow> int list"

abbreviation ctl_heap :: "'s controller \<Rightarrow> gpu_heap" where
  "ctl_heap st \<equiv> prep_heap (ctl_prep st)"

definition set_gpu :: "gpu_addr \<Rightarrow> GPUInfo \<Rightarrow> 's controller \<Rightarrow> 's controller" where
  "set_gpu a g st = st\<lparr>ctl_prep := (ctl_prep st)\<lparr>prep_heap := (ctl_heap st)[a := g]\<rparr>\<rparr>"

text \<open>A timer of ten seconds whose function will put the GPU into the release queue.\<close>

definition scheduleForDeletion :: "GPUInfo \<Rightarrow> 's controller \<Rightarrow> 's controller" where
  "scheduleForDeletion gpu st = st\<lparr>ctl_timers := ctl_timers st @ [(gpu_UUID gpu, gpu_NodeName gpu)]\<rparr>"

section \<open>The decision\<close>

definition SCALE_DOWN_CONSECUTIVE_REQUIRED :: int where
  "SCALE_DOWN_CONSECUTIVE_REQUIRED = 3"

definition SCALE_FACTOR :: float64 where
  "SCALE_FACTOR = f64 (3/2)"

definition SCALE_DOWN_THRESHOLD :: float64 where
  "SCALE_DOWN_THRESHOLD = f64 (1/2)"

definition predictedRate :: "float64 \<Rightarrow> float64 \<Rightarrow> float64 \<Rightarrow> float64" where
  "predictedRate rps10s rps30s_earlier minRps =
    (let recentGrowth = rps10s - rps30s_earlier
     in math_Max (if recentGrowth > f64 0 then rps10s + recentGrowth else rps10s) minRps)"

definition deltaUp :: "float64 \<Rightarrow> float64 \<Rightarrow> float64" where
  "deltaUp predicted totalRPSCap = predicted * SCALE_FACTOR - totalRPSCap"

definition loadRatio :: "float64 \<Rightarrow> float64 \<Rightarrow> float64" where
  "loadRatio rps10s totalRPSCap = (if totalRPSCap > f64 0 then rps10s / totalRPSCap else f64 0)"

text \<open>Whether to scale up, whether to scale down, and the new value of the counter.\<close>

definition decide :: "bool \<Rightarrow> float64 \<Rightarrow> nat \<Rightarrow> int \<Rightarrow> float64 \<Rightarrow> float64 \<Rightarrow> float64 \<Rightarrow> bool \<times> bool \<times> int" where
  "decide isOldFunction totalRPSCap numConfigs cnt delta rps10s rps30s =
    (let decreasingTrend = (rps10s - rps30s \<le> f64 0) in
     if delta > f64 0 \<or> \<not> isOldFunction then (True, False, 0)
     else if loadRatio rps10s totalRPSCap < SCALE_DOWN_THRESHOLD \<and> numConfigs > 1 \<and> decreasingTrend then
       let cnt = wrap64 (cnt + 1) in
       if cnt \<ge> SCALE_DOWN_CONSECUTIVE_REQUIRED then (False, True, 0) else (False, False, cnt)
     else (False, False, 0))"

section \<open>Carrying it out\<close>

definition add_config :: "Config \<Rightarrow> FastFunc \<Rightarrow> FastFunc" where
  "add_config config fn = fn\<lparr>configUUIDToConfig := fmupd (cfg_UUID config) config (configUUIDToConfig fn),
     currentRPSCapacity := currentRPSCapacity fn + AllocatedRPS config\<rparr>"

definition scale_up :: "('s, 'p, 'o) environment \<Rightarrow> orders \<Rightarrow> 's controller \<Rightarrow> 'p FaSTFunc \<Rightarrow> FastFunc \<Rightarrow> ResourceRequest \<Rightarrow>
    ('s controller \<times> client_error option) option" where
  "scale_up E ords st fastfunc fn req = do {
     (heap, n, configslist) \<leftarrow> GetConfigs (env_types E) (env_sortGPUs E) (env_uuids E) (ord_nodes ords)
       (prep_nm (ctl_prep st)) (ctl_heap st) (ctl_uuid st) req;
     let (prep, newConfigList) = PrepareConfigsRequirements (env_types E) (env_answers E) req
           ((ctl_prep st)\<lparr>prep_heap := heap\<rparr>) (case configslist of Inl err \<Rightarrow> [] | Inr cs \<Rightarrow> cs);
     let st = st\<lparr>ctl_prep := prep, ctl_uuid := n\<rparr>;
     case configslist of
       Inl err \<Rightarrow> Some (st, None)
     | Inr cs \<Rightarrow>
         let fastpods = (case ConvertConfigs2FaSTPods (env_keys E) (env_setref E) fastfunc newConfigList of
               None \<Rightarrow> [] | Some pods \<Rightarrow> pods);
             (cluster, err) = AddFastPods (env_client E) (ctl_cluster st) fastpods;
             st = st\<lparr>ctl_cluster := cluster\<rparr>
         in case err of
              Some e \<Rightarrow> Some (st, Some e)
            | None \<Rightarrow> Some (st\<lparr>fastFuncMap := fmupd (ff_Name fastfunc) (fold add_config newConfigList fn) (fastFuncMap st)\<rparr>, None)
   }"

definition reduce_one :: "orders \<Rightarrow> ReduceInfo \<Rightarrow> 's controller \<times> FastFunc \<Rightarrow> 's controller \<times> FastFunc" where
  "reduce_one ords info = (\<lambda>(st, fn).
    let config = ri_Config info; a = associatedGpu config;
        (g, config, isEmpty) = ReduceConfig (ord_items ords config) (ctl_heap st ! a) config (NewReplica info);
        st = set_gpu a g st;
        st = (if isEmpty then scheduleForDeletion g st else st)
    in (st, fn\<lparr>currentRPSCapacity := currentRPSCapacity fn - ReducedDelta info,
              configUUIDToConfig := fmupd (cfg_UUID config) config (configUUIDToConfig fn)\<rparr>))"

definition remove_one :: "orders \<Rightarrow> Config \<Rightarrow> 's controller \<times> FastFunc \<Rightarrow> 's controller \<times> FastFunc" where
  "remove_one ords config = (\<lambda>(st, fn).
    let a = associatedGpu config;
        (g, config, isEmpty) = DeallocateConfig (ord_items ords config) (ctl_heap st ! a) config;
        st = set_gpu a g st;
        st = (if isEmpty then scheduleForDeletion g st else st)
    in (st, fn\<lparr>currentRPSCapacity := currentRPSCapacity fn - AllocatedRPS config,
              configUUIDToConfig := fmdrop (cfg_UUID config) (configUUIDToConfig fn)\<rparr>))"

definition scale_down :: "('s, 'p, 'o) environment \<Rightarrow> orders \<Rightarrow> 's controller \<Rightarrow> string \<Rightarrow> FastFunc \<Rightarrow> float64 \<Rightarrow>
    's controller option" where
  "scale_down E ords st name fn newRPS = do {
     (cluster, configsUpdated, configsRemoved) \<leftarrow> scaleDownFaSTFunc (env_client E) (env_sortConfigs E) (ord_configs ords)
       (ctl_cluster st) fn newRPS;
     let (st, fn) = fold (remove_one ords) configsRemoved
           (fold (reduce_one ords) configsUpdated (st\<lparr>ctl_cluster := cluster\<rparr>, fn));
     Some (st\<lparr>fastFuncMap := fmupd name fn (fastFuncMap st)\<rparr>)
   }"

text \<open>The function's record, made on its first check.\<close>

definition lookup_func :: "'s controller \<Rightarrow> string \<Rightarrow> FastFunc" where
  "lookup_func st name = (case fmlookup (fastFuncMap st) name of
     Some funccc \<Rightarrow> funccc
   | None \<Rightarrow> \<lparr>fn_Name = name, configUUIDToConfig = fmempty, currentRPSCapacity = f64 0, scaleDownConsecutiveCount = 0\<rparr>)"

definition totalRPSCap :: "'s controller \<Rightarrow> string \<Rightarrow> float64" where
  "totalRPSCap st name = (if fmlookup (fastFuncMap st) name \<noteq> None then currentRPSCapacity (lookup_func st name) else f64 0)"

definition func_request :: "('s, 'p, 'o) environment \<Rightarrow> 'p FaSTFunc \<Rightarrow> float64 \<Rightarrow> string \<Rightarrow> ResourceRequest" where
  "func_request E fastfunc delta preferredGPU =
    \<lparr>req_ModelName = ModelName (Spec fastfunc), req_QPS = delta,
     req_AllocationType = env_GetAllocationType E (spec_AllocationType (Spec fastfunc)), PreferredGPU = preferredGPU\<rparr>"

text \<open>The whole call. None: it does not return. The error of the result is the error it returns.\<close>

definition UpdateFunction :: "('s, 'p, 'o) environment \<Rightarrow> orders \<Rightarrow> 's controller \<Rightarrow> 'p FaSTFunc \<Rightarrow>
    float64 \<Rightarrow> float64 \<Rightarrow> float64 \<Rightarrow> float64 \<Rightarrow> string \<Rightarrow> ('s controller \<times> client_error option) option" where
  "UpdateFunction E ords st fastfunc rps10s rps30s rps30s_earlier minRps preferredGPU =
    (let name = ff_Name fastfunc;
         funccc = lookup_func st name;
         predicted = predictedRate rps10s rps30s_earlier minRps;
         delta = deltaUp predicted (totalRPSCap st name);
         (shouldScaleUp, shouldScaleDown, cnt) = decide (fmlookup (fastFuncMap st) name \<noteq> None) (totalRPSCap st name)
           (length (CurrentConfigs (ord_configs ords) funccc)) (scaleDownConsecutiveCount funccc) delta rps10s rps30s;
         funccc = funccc\<lparr>scaleDownConsecutiveCount := cnt\<rparr>;
         st = st\<lparr>fastFuncMap := fmupd name funccc (fastFuncMap st)\<rparr>
     in if shouldScaleUp then scale_up E ords st fastfunc funccc (func_request E fastfunc delta preferredGPU)
        else if shouldScaleDown \<and> length (CurrentConfigs (ord_configs ords) funccc) > 1 then
          map_option (\<lambda>st. (st, None)) (scale_down E ords st name funccc predicted)
        else Some (st, None))"

section \<open>The end of a function\<close>

definition release_config :: "orders \<Rightarrow> Config \<Rightarrow> 's controller \<Rightarrow> 's controller" where
  "release_config ords config st =
    (let a = associatedGpu config;
         (g, config, isEmpty) = ReduceConfig (ord_items ords config) (ctl_heap st ! a) config 0;
         st = set_gpu a g st
     in if isEmpty \<and> virtual g then scheduleForDeletion g st else st)"

definition handleDeletedFaSTFunc :: "orders \<Rightarrow> 's controller \<Rightarrow> string \<Rightarrow> 's controller" where
  "handleDeletedFaSTFunc ords st name =
    (case fmlookup (fastFuncMap st) name of
       None \<Rightarrow> st
     | Some fastfunc \<Rightarrow>
         let st = fold (release_config ords) (CurrentConfigs (ord_configs ords) fastfunc) st
         in st\<lparr>fastFuncMap := fmdrop name (fastFuncMap st)\<rparr>)"

lemmas update_eval [go_eval] =
  set_gpu_def scheduleForDeletion_def SCALE_DOWN_CONSECUTIVE_REQUIRED_def SCALE_FACTOR_def SCALE_DOWN_THRESHOLD_def
  predictedRate_def deltaUp_def loadRatio_def decide_def add_config_def reduce_one_def remove_one_def scale_up_def
  scale_down_def lookup_func_def totalRPSCap_def func_request_def UpdateFunction_def release_config_def handleDeletedFaSTFunc_def

end
