(* ===== verification/Update_Phases.thy ===== *)
theory Update_Phases
  imports Update_Function
begin

text \<open>
  A check of a function (\<open>UpdateFunction\<close> of \<^verbatim>\<open>internal/controller/fastfunc_scale.go\<close>) at the grain of its locks. A
  scale-up holds the lock of the node table twice, once in \<open>GetConfigs\<close> and once in
  \<open>PrepareConfigsRequirements\<close>, waits for the cluster in \<open>AddFastPods\<close>, and then writes to the
  \<^verbatim>\<open>*FastFunc\<close> it has read at the start. A scale-down selects configurations, waits for the cluster in
  \<open>scaleDownFaSTFunc\<close>, and then changes the books. These are the phases of a check; one after the other they are
  \<open>UpdateFunction\<close>.
\<close>

section \<open>The phases of a check\<close>

text \<open>What the check in flight holds in its local variables. Scaling up: after the decision, after \<open>GetConfigs\<close>, after
  \<open>PrepareConfigsRequirements\<close>, and after \<open>AddFastPods\<close>. Scaling down: the name in the function's record with what is
  to be removed and updated, and, after the calls on the cluster, what has been updated and removed there.\<close>

datatype 'p check_phase =
    Idle
  | Decided "'p FaSTFunc" ResourceRequest
  | Picked "'p FaSTFunc" ResourceRequest "config_error + Config list"
  | Prepared "'p FaSTFunc" "Config list"
  | Created "'p FaSTFunc" "Config list"
  | Selected "'p FaSTFunc" string "Config list" "ReduceInfo list"
  | Agreed "'p FaSTFunc" "ReduceInfo list" "Config list"

text \<open>The selection of \<open>scaleDownFaSTFunc\<close>, before its calls on the cluster.\<close>

definition select_configs :: "('s, 'p, 'o) environment \<Rightarrow> orders \<Rightarrow> FastFunc \<Rightarrow> float64 \<Rightarrow> Config list \<times> ReduceInfo list" where
  "select_configs E ords fn newRPS =
    (let currentConfigs = sorted_configs (env_sortConfigs E) (CurrentConfigs (ord_configs ords) fn);
         (toRemove, toUpdate, left) = select_loop newRPS currentConfigs (total_rps currentConfigs)
     in (toRemove, toUpdate))"

definition decide_phase :: "('s, 'p, 'o) environment \<Rightarrow> orders \<Rightarrow> 's controller \<Rightarrow> 'p FaSTFunc \<Rightarrow>
    float64 \<Rightarrow> float64 \<Rightarrow> float64 \<Rightarrow> float64 \<Rightarrow> string \<Rightarrow> 's controller \<times> 'p check_phase" where
  "decide_phase E ords st fastfunc rps10s rps30s rps30s_earlier minRps preferredGPU =
    (let name = ff_Name fastfunc;
         funccc = lookup_func st name;
         predicted = predictedRate rps10s rps30s_earlier minRps;
         delta = deltaUp predicted (totalRPSCap st name);
         (shouldScaleUp, shouldScaleDown, cnt) = decide (fmlookup (fastFuncMap st) name \<noteq> None) (totalRPSCap st name)
           (length (CurrentConfigs (ord_configs ords) funccc)) (scaleDownConsecutiveCount funccc) delta rps10s rps30s;
         funccc = funccc\<lparr>scaleDownConsecutiveCount := cnt\<rparr>;
         st = st\<lparr>fastFuncMap := fmupd name funccc (fastFuncMap st)\<rparr>
     in if shouldScaleUp then (st, Decided fastfunc (func_request E fastfunc delta preferredGPU))
        else if shouldScaleDown \<and> length (CurrentConfigs (ord_configs ords) funccc) > 1 then
          let (toRemove, toUpdate) = select_configs E ords funccc predicted
          in (st, Selected fastfunc (fn_Name funccc) toRemove toUpdate)
        else (st, Idle))"

definition pick_phase :: "('s, 'p, 'o) environment \<Rightarrow> orders \<Rightarrow> 's controller \<Rightarrow> 'p FaSTFunc \<Rightarrow> ResourceRequest \<Rightarrow>
    ('s controller \<times> 'p check_phase) option" where
  "pick_phase E ords st fastfunc req = do {
     (heap, n, configslist) \<leftarrow> GetConfigs (env_types E) (env_sortGPUs E) (env_uuids E) (ord_nodes ords)
       (prep_nm (ctl_prep st)) (ctl_heap st) (ctl_uuid st) req;
     Some (st\<lparr>ctl_prep := (ctl_prep st)\<lparr>prep_heap := heap\<rparr>, ctl_uuid := n\<rparr>, Picked fastfunc req configslist)
   }"

definition commit_phase :: "('s, 'p, 'o) environment \<Rightarrow> 's controller \<Rightarrow> 'p FaSTFunc \<Rightarrow> ResourceRequest \<Rightarrow>
    config_error + Config list \<Rightarrow> 's controller \<times> 'p check_phase" where
  "commit_phase E st fastfunc req configslist =
    (let (prep, newConfigList) = PrepareConfigsRequirements (env_types E) (env_answers E) req (ctl_prep st)
           (case configslist of Inl err \<Rightarrow> [] | Inr cs \<Rightarrow> cs)
     in (st\<lparr>ctl_prep := prep\<rparr>, case configslist of Inl err \<Rightarrow> Idle | Inr cs \<Rightarrow> Prepared fastfunc newConfigList))"

definition create_phase :: "('s, 'p, 'o) environment \<Rightarrow> 's controller \<Rightarrow> 'p FaSTFunc \<Rightarrow> Config list \<Rightarrow>
    's controller \<times> 'p check_phase \<times> client_error option" where
  "create_phase E st fastfunc newConfigList =
    (let fastpods = (case ConvertConfigs2FaSTPods (env_keys E) (env_setref E) fastfunc newConfigList of
           None \<Rightarrow> [] | Some pods \<Rightarrow> pods);
         (cluster, err) = AddFastPods (env_client E) (ctl_cluster st) fastpods
     in (st\<lparr>ctl_cluster := cluster\<rparr>, case err of Some e \<Rightarrow> Idle | None \<Rightarrow> Created fastfunc newConfigList, err))"

text \<open>The record that is written to is the one the map had at the start. If the function was deleted meanwhile, nothing
  refers to that record any more, and the map stays as it is.\<close>

definition record_phase :: "'s controller \<Rightarrow> 'p FaSTFunc \<Rightarrow> Config list \<Rightarrow> 's controller" where
  "record_phase st fastfunc newConfigList =
    (case fmlookup (fastFuncMap st) (ff_Name fastfunc) of
       None \<Rightarrow> st
     | Some funccc \<Rightarrow>
         st\<lparr>fastFuncMap := fmupd (ff_Name fastfunc) (fold add_config newConfigList funccc) (fastFuncMap st)\<rparr>)"

text \<open>The calls on the cluster of a scale-down. None: they panic.\<close>

definition agree_phase :: "('s, 'p, 'o) environment \<Rightarrow> 's controller \<Rightarrow> 'p FaSTFunc \<Rightarrow> string \<Rightarrow> Config list \<Rightarrow> ReduceInfo list \<Rightarrow>
    ('s controller \<times> 'p check_phase) option" where
  "agree_phase E st fastfunc name toRemove toUpdate =
    (let (cluster, configsRemoved) = remove_pods (env_client E) name (ctl_cluster st) toRemove
     in do {
       (cluster, configsUpdated) \<leftarrow> update_pods (env_client E) name cluster toUpdate;
       Some (st\<lparr>ctl_cluster := cluster\<rparr>, Agreed fastfunc configsUpdated configsRemoved)
     })"

text \<open>The books of a scale-down. As in \<open>record_phase\<close>, a record that the map has lost is changed without effect on the map; the
  GPUs of the configurations are changed all the same.\<close>

definition shrink_phase :: "orders \<Rightarrow> 's controller \<Rightarrow> 'p FaSTFunc \<Rightarrow> ReduceInfo list \<Rightarrow> Config list \<Rightarrow> 's controller" where
  "shrink_phase ords st fastfunc configsUpdated configsRemoved =
    (let name = ff_Name fastfunc;
         (st', funccc) = fold (remove_one ords) configsRemoved (fold (reduce_one ords) configsUpdated (st, lookup_func st name))
     in if fmlookup (fastFuncMap st) name = None then st'
        else st'\<lparr>fastFuncMap := fmupd name funccc (fastFuncMap st')\<rparr>)"

text \<open>The next phase of the check in flight, and the error it returns if that ends it. None: it does not return.\<close>

definition advance :: "('s, 'p, 'o) environment \<Rightarrow> orders \<Rightarrow> 's controller \<Rightarrow> 'p check_phase \<Rightarrow>
    ('s controller \<times> 'p check_phase \<times> client_error option) option" where
  "advance E ords st phase =
    (case phase of
       Idle \<Rightarrow> Some (st, Idle, None)
     | Decided f req \<Rightarrow> map_option (\<lambda>(st, phase). (st, phase, None)) (pick_phase E ords st f req)
     | Picked f req configslist \<Rightarrow> (case commit_phase E st f req configslist of (st, phase) \<Rightarrow> Some (st, phase, None))
     | Prepared f new \<Rightarrow> Some (create_phase E st f new)
     | Created f new \<Rightarrow> Some (record_phase st f new, Idle, None)
     | Selected f name toRemove toUpdate \<Rightarrow>
         map_option (\<lambda>(st, phase). (st, phase, None)) (agree_phase E st f name toRemove toUpdate)
     | Agreed f configsUpdated configsRemoved \<Rightarrow> Some (shrink_phase ords st f configsUpdated configsRemoved, Idle, None))"

primrec run_phases :: "nat \<Rightarrow> ('s, 'p, 'o) environment \<Rightarrow> orders \<Rightarrow> 's controller \<Rightarrow> 'p check_phase \<Rightarrow>
    ('s controller \<times> client_error option) option" where
  "run_phases 0 E ords st phase = (case phase of Idle \<Rightarrow> Some (st, None) | _ \<Rightarrow> None)"
| "run_phases (Suc n) E ords st phase = (case phase of Idle \<Rightarrow> Some (st, None)
     | _ \<Rightarrow> do {
         (st, phase, err) \<leftarrow> advance E ords st phase;
         (case err of Some e \<Rightarrow> Some (st, Some e) | None \<Rightarrow> run_phases n E ords st phase)
       })"

lemmas phase_eval [go_eval] =
  decide_phase_def pick_phase_def commit_phase_def create_phase_def record_phase_def agree_phase_def shrink_phase_def
  select_configs_def advance_def

lemma run_phases_Idle [simp]: "run_phases n E ords st Idle = Some (st, None)"
  by (cases n) simp_all

text \<open>A scale-up is its four phases.\<close>

lemma scale_up_phases:
  assumes "fmlookup (fastFuncMap st) (ff_Name f) = Some fn"
  shows "scale_up E ords st f fn req = run_phases 4 E ords st (Decided f req)"
proof -
  have four: "(4::nat) = Suc (Suc (Suc (Suc 0)))" by simp
  show ?thesis
  proof (cases "GetConfigs (env_types E) (env_sortGPUs E) (env_uuids E) (ord_nodes ords) (prep_nm (ctl_prep st)) (ctl_heap st)
      (ctl_uuid st) req")
    case None
    then show ?thesis unfolding four by (simp add: scale_up_def advance_def pick_phase_def)
  next
    case (Some x)
    obtain heap n r where x: "x = (heap, n, r)" using prod_cases3 by blast
    note G = Some [unfolded x]
    let ?prep = "(ctl_prep st)\<lparr>prep_heap := heap\<rparr>"
    show ?thesis
    proof (cases r)
      case (Inl e)
      then show ?thesis
        unfolding four by (simp add: scale_up_def advance_def pick_phase_def commit_phase_def G)
    next
      case (Inr cs)
      obtain prep new where P: "PrepareConfigsRequirements (env_types E) (env_answers E) req ?prep cs = (prep, new)" by force
      obtain cl err where A: "AddFastPods (env_client E) (ctl_cluster st)
          (case ConvertConfigs2FaSTPods (env_keys E) (env_setref E) f new of None \<Rightarrow> [] | Some pods \<Rightarrow> pods) = (cl, err)" by force
      show ?thesis
        unfolding four
        by (cases err) (simp_all add: scale_up_def advance_def pick_phase_def commit_phase_def create_phase_def record_phase_def
            G Inr P A assms)
    qed
  qed
qed

text \<open>A scale-down is its two phases.\<close>

lemma scale_down_phases:
  assumes "fmlookup (fastFuncMap st) (ff_Name f) = Some fn" and S: "select_configs E ords fn newRPS = (toRemove, toUpdate)"
  shows "map_option (\<lambda>st. (st, None)) (scale_down E ords st (ff_Name f) fn newRPS) =
    run_phases 4 E ords st (Selected f (fn_Name fn) toRemove toUpdate)"
proof -
  have four: "(4::nat) = Suc (Suc (Suc (Suc 0)))" by simp
  let ?cs = "sorted_configs (env_sortConfigs E) (CurrentConfigs (ord_configs ords) fn)"
  obtain left where sel: "select_loop newRPS ?cs (total_rps ?cs) = (toRemove, toUpdate, left)"
    using S by (auto simp: select_configs_def Let_def split: prod.splits)
  obtain cl rem where R: "remove_pods (env_client E) (fn_Name fn) (ctl_cluster st) toRemove = (cl, rem)" by force
  have look: "lookup_func (st\<lparr>ctl_cluster := c\<rparr>) (ff_Name f) = fn" for c using assms(1) by (simp add: lookup_func_def)
  show ?thesis
  proof (cases "update_pods (env_client E) (fn_Name fn) cl toUpdate")
    case None
    then show ?thesis unfolding four by (simp add: scale_down_def scaleDownFaSTFunc_def sel R advance_def agree_phase_def)
  next
    case (Some u)
    obtain cl' upd where u: "u = (cl', upd)" by force
    obtain st1 fn1 where F: "fold (remove_one ords) rem (fold (reduce_one ords) upd (st\<lparr>ctl_cluster := cl'\<rparr>, fn)) = (st1, fn1)" by force
    show ?thesis
      unfolding four by (simp add: scale_down_def scaleDownFaSTFunc_def sel R Some u F advance_def agree_phase_def shrink_phase_def look assms(1))
  qed
qed

lemma UpdateFunction_phases:
  "UpdateFunction E ords st f rps10s rps30s rps30s_earlier minRps preferredGPU =
    (case decide_phase E ords st f rps10s rps30s rps30s_earlier minRps preferredGPU of
       (st, phase) \<Rightarrow> run_phases 4 E ords st phase)"
proof -
  let ?name = "ff_Name f" and ?predicted = "predictedRate rps10s rps30s_earlier minRps"
  obtain up dn cnt where d: "decide (fmlookup (fastFuncMap st) ?name \<noteq> None) (totalRPSCap st ?name)
      (length (CurrentConfigs (ord_configs ords) (lookup_func st ?name))) (scaleDownConsecutiveCount (lookup_func st ?name))
      (deltaUp ?predicted (totalRPSCap st ?name)) rps10s rps30s = (up, dn, cnt)" using prod_cases3 by blast
  show ?thesis
    unfolding UpdateFunction_def decide_phase_def Let_def d prod.case
    by (simp add: scale_up_phases scale_down_phases split: prod.splits)
qed

end
