(* ===== verification/Ownership.thy ===== *)
theory Ownership
  imports Update_Phases
begin

text \<open>
  The invariant that ties the books of the functions to the GPU heap: every configuration a function
  lists owns its items in the packer of its GPU, and no two configurations of any functions own
  the same item. Every operation of \<open>Update_Function\<close> keeps it.
\<close>

section \<open>Owners\<close>

text \<open>Configurations under keys, each the owner of its items. The count of replicas is not kept up to date when items are
  given back, but there are never more items than it says.\<close>

definition counted :: "Config \<Rightarrow> bool" where
  "counted c \<longleftrightarrow> int (gm_len (shelfItems c)) \<le> AllocatedReplica c \<and> int64 (AllocatedReplica c)"

definition owned :: "gpu_heap \<Rightarrow> Config \<Rightarrow> bool" where
  "owned heap c \<longleftrightarrow> associatedGpu c < length heap \<and> owns (heap ! associatedGpu c) c \<and> counted c"

definition owners_ok :: "gpu_heap \<Rightarrow> ('k \<Rightarrow> Config option) \<Rightarrow> bool" where
  "owners_ok heap ent \<longleftrightarrow> (\<forall>k c. ent k = Some c \<longrightarrow> owned heap c) \<and>
     (\<forall>k l c d. ent k = Some c \<and> ent l = Some d \<and> k \<noteq> l \<longrightarrow> no_sharing c d)"

lemma counted_fewer:
  assumes "counted c" "AllocatedReplica c' = AllocatedReplica c" "fmdom (shelfItems c') |\<subseteq>| fmdom (shelfItems c)"
  shows "counted c'"
  using assms fcard_mono [OF assms(3)] by (simp add: counted_def gm_len_def)

lemma owns_few:
  assumes "wf_packer (Usage g)" "owns g c" shows "int (gm_len (shelfItems c)) < 2 ^ 63"
proof -
  have "1 \<le> i \<and> i < nextItemID (Usage g)" if "fmlookup (shelfItems c) i = Some k" for i k
  proof -
    have "placed (Usage g) i \<noteq> None" using assms(2) that by (auto simp: owns_def fmlookup_dom_iff)
    then obtain s where "fmlookup (itemLocation (Usage g)) i = Some s" using placed_None [OF assms(1)] by auto
    then show ?thesis using wf_packerD(8) [OF assms(1)] by blast
  qed
  then have "int (gm_len (shelfItems c)) \<le> nextItemID (Usage g) - 1" using wf_packerD(5) [OF assms(1)] by (rule gm_len_le)
  then show ?thesis using wf_packerD(6) [OF assms(1)] by simp
qed

lemma committed_owned:
  assumes "budget heap N" "committed heap c" shows "owned heap c"
proof -
  have c: "associatedGpu c < length heap" "owns (heap ! associatedGpu c) c" "int (gm_len (shelfItems c)) = AllocatedReplica c"
    "0 < AllocatedReplica c" using assms(2) by (simp_all add: committed_def)
  have "int (gm_len (shelfItems c)) < 2 ^ 63" using owns_few [OF budgetD(2) [OF assms(1) nth_mem [OF c(1)]] c(2)] .
  then show ?thesis using c by (simp add: owned_def counted_def int64_def)
qed

lemma no_sharing_sym: "no_sharing c d \<Longrightarrow> no_sharing d c"
  by (metis no_sharing_def inf_commute)

lemma owned_extends: "owned heap c \<Longrightarrow> extends heap heap' \<Longrightarrow> owned heap' c"
  unfolding owned_def extends_def owns_def by (metis order_less_le_trans)

lemma owners_okD:
  assumes "owners_ok heap ent"
  shows "ent k = Some c \<Longrightarrow> owned heap c" "ent k = Some c \<Longrightarrow> ent l = Some d \<Longrightarrow> k \<noteq> l \<Longrightarrow> no_sharing c d"
  using assms unfolding owners_ok_def by blast+

lemma owners_extends: "owners_ok heap ent \<Longrightarrow> extends heap heap' \<Longrightarrow> owners_ok heap' ent"
  unfolding owners_ok_def using owned_extends by blast

lemma owners_drop: "owners_ok heap ent \<Longrightarrow> owners_ok heap (ent(k := None))"
  unfolding owners_ok_def by simp

lemma owners_okI:
  "(\<And>k c. ent k = Some c \<Longrightarrow> owned heap c) \<Longrightarrow> (\<And>k l c d. ent k = Some c \<Longrightarrow> ent l = Some d \<Longrightarrow> k \<noteq> l \<Longrightarrow> no_sharing c d) \<Longrightarrow>
    owners_ok heap ent"
  unfolding owners_ok_def by blast

lemma owners_add:
  assumes "owners_ok heap ent" "owned heap c" "\<And>l d. ent l = Some d \<Longrightarrow> l \<noteq> k \<Longrightarrow> no_sharing c d"
  shows "owners_ok heap (ent(k \<mapsto> c))"
proof (rule owners_okI)
  show "owned heap d" if "(ent(k \<mapsto> c)) l = Some d" for l d
    using that assms(2) owners_okD(1) [OF assms(1), of l d] by (cases "l = k") auto
  show "no_sharing d e" if "(ent(k \<mapsto> c)) l = Some d" "(ent(k \<mapsto> c)) m = Some e" "l \<noteq> m" for l m d e
    using that assms(3) [of m e] no_sharing_sym [OF assms(3) [of l d]] owners_okD(2) [OF assms(1), of l d m e]
    by (cases "l = k"; cases "m = k") auto
qed

lemma no_sharing_mono:
  "no_sharing c d \<Longrightarrow> associatedGpu c' = associatedGpu c \<Longrightarrow> fmdom (shelfItems c') |\<subseteq>| fmdom (shelfItems c) \<Longrightarrow> no_sharing c' d"
  using inf_mono [of "fmdom (shelfItems c')" "fmdom (shelfItems c)" "fmdom (shelfItems d)" "fmdom (shelfItems d)"]
  unfolding no_sharing_def by (metis bot.extremum_uniqueI order_refl)

text \<open>Taking some of its items from one owner.\<close>

lemma owners_shrink:
  assumes ok: "owners_ok heap ent" and c: "ent k = Some c"
    and g: "placed (Usage g) = (\<lambda>i. if i \<in> I then None else placed (Usage (heap ! associatedGpu c)) i)"
    and I: "\<forall>i \<in> I. i |\<in>| fmdom (shelfItems c)"
    and c': "associatedGpu c' = associatedGpu c" "QuotaReq c' = QuotaReq c" "SMPartition c' = SMPartition c"
      "\<forall>i. i |\<in>| fmdom (shelfItems c') \<longleftrightarrow> i |\<in>| fmdom (shelfItems c) \<and> i \<notin> I" "AllocatedReplica c' = AllocatedReplica c"
  shows "owners_ok (heap[associatedGpu c := g]) (ent(k \<mapsto> c'))"
proof -
  let ?heap = "heap[associatedGpu c := g]"
  have a: "associatedGpu c < length heap" "owns (heap ! associatedGpu c) c" "counted c"
    using owners_okD(1) [OF ok c] by (simp_all add: owned_def)
  have other: "owned ?heap d" if d: "ent l = Some d" "l \<noteq> k" for l d
  proof -
    have o: "associatedGpu d < length heap" "owns (heap ! associatedGpu d) d" "counted d"
      using owners_okD(1) [OF ok d(1)] by (simp_all add: owned_def)
    show ?thesis
    proof (cases "associatedGpu d = associatedGpu c")
      case True
      have "i \<notin> I" if i: "i |\<in>| fmdom (shelfItems d)" for i
      proof
        assume "i \<in> I"
        then have "i |\<in>| fmdom (shelfItems c) |\<inter>| fmdom (shelfItems d)" using I i by simp
        then show False using owners_okD(2) [OF ok c d(1)] d(2) True unfolding no_sharing_def by simp
      qed
      then show ?thesis using o True g by (simp add: owned_def owns_def)
    qed (use o in \<open>simp add: owned_def\<close>)
  qed
  have "owners_ok ?heap (ent(k := None))"
    by (rule owners_okI) (use owners_okD(2) [OF ok] other in \<open>auto split: if_splits\<close>)
  moreover have "owned ?heap c'"
  proof -
    have "fmdom (shelfItems c') |\<subseteq>| fmdom (shelfItems c)" using c'(4) by auto
    then show ?thesis using a g c' counted_fewer [OF a(3) c'(5)] by (simp add: owned_def owns_def)
  qed
  moreover have "no_sharing c' d" if "(ent(k := None)) l = Some d" "l \<noteq> k" for l d
  proof -
    have "no_sharing c d" using owners_okD(2) [OF ok c, of l d] that by simp
    moreover have "fmdom (shelfItems c') |\<subseteq>| fmdom (shelfItems c)" using c'(4) by auto
    ultimately show ?thesis using c'(1) no_sharing_mono by blast
  qed
  ultimately have "owners_ok ?heap ((ent(k := None))(k \<mapsto> c'))" by (rule owners_add)
  then show ?thesis by simp
qed

section \<open>The invariant of the controller\<close>

text \<open>All configurations, under the names of the functions and their UUIDs.\<close>

definition configs_of :: "(string, FastFunc) fmap \<Rightarrow> string \<times> string \<Rightarrow> Config option" where
  "configs_of funcs = (\<lambda>(n, u). Option.bind (fmlookup funcs n) (\<lambda>fn. fmlookup (configUUIDToConfig fn) u))"

text \<open>With them, configurations \<open>X\<close> that hold items although no function lists them (yet, or any more).\<close>

definition entries :: "Config list \<Rightarrow> (string, FastFunc) fmap \<Rightarrow> (string \<times> string) + nat \<Rightarrow> Config option" where
  "entries X funcs k = (case k of Inl l \<Rightarrow> configs_of funcs l | Inr i \<Rightarrow> if i < length X then Some (X ! i) else None)"

lemma entries_Inl [simp]: "entries X funcs (Inl k) = configs_of funcs k"
  by (simp add: entries_def)

lemma entries_upd: "configs_of funcs' = (configs_of funcs)(k := v) \<Longrightarrow> entries X funcs' = (entries X funcs)(Inl k := v)"
  by (auto simp: entries_def fun_eq_iff split: sum.splits)

lemma entries_cong: "configs_of funcs' = configs_of funcs \<Longrightarrow> entries X funcs' = entries X funcs"
  by (rule ext) (simp only: entries_def)

text \<open>The share of a GPU that a node reports is a 64-bit number.\<close>

definition nodes_sane :: "NodeManager \<Rightarrow> bool" where
  "nodes_sane nm \<longleftrightarrow> (\<forall>name node. fmlookup (nodes nm) name = Some node \<longrightarrow> (\<forall>v \<in> set (availableGPUs node). int64 (SmPercentage v)))"

definition books_ok :: "Config list \<Rightarrow> (string, FastFunc) fmap \<Rightarrow> prep_state \<Rightarrow> bool" where
  "books_ok X funcs prep \<longleftrightarrow> budget (prep_heap prep) 0 \<and> maps_ok (prep_heap prep) (prep_nm prep) \<and> nodes_sane (prep_nm prep) \<and>
     owners_ok (prep_heap prep) (entries X funcs) \<and> (\<forall>n u c. configs_of funcs (n, u) = Some c \<longrightarrow> cfg_UUID c = u)"

definition ctl_inv :: "Config list \<Rightarrow> 's controller \<Rightarrow> bool" where
  "ctl_inv X st \<longleftrightarrow> books_ok X (fastFuncMap st) (ctl_prep st)"

lemma books_okD:
  assumes "books_ok X funcs prep"
  shows "budget (prep_heap prep) 0" "maps_ok (prep_heap prep) (prep_nm prep)" "nodes_sane (prep_nm prep)"
    "owners_ok (prep_heap prep) (entries X funcs)" "configs_of funcs (n, u) = Some c \<Longrightarrow> cfg_UUID c = u"
  using assms unfolding books_ok_def by blast+

lemma configs_of_upd:
  "configs_of (fmupd n fn funcs) = (\<lambda>(m, u). if m = n then fmlookup (configUUIDToConfig fn) u else configs_of funcs (m, u))"
  by (auto simp: configs_of_def)

lemma configs_of_upd_same:
  "configUUIDToConfig fn' = configUUIDToConfig fn \<Longrightarrow> configs_of (fmupd n fn' funcs) = configs_of (fmupd n fn funcs)"
  by (simp add: configs_of_upd fun_eq_iff)

lemma configs_of_upd_config:
  "configUUIDToConfig fn' = fmupd u c (configUUIDToConfig fn) \<Longrightarrow>
    configs_of (fmupd n fn' funcs) = (configs_of (fmupd n fn funcs))((n, u) \<mapsto> c)"
  by (auto simp: configs_of_upd fun_eq_iff)

lemma configs_of_drop_config:
  "configUUIDToConfig fn' = fmdrop u (configUUIDToConfig fn) \<Longrightarrow>
    configs_of (fmupd n fn' funcs) = (configs_of (fmupd n fn funcs))((n, u) := None)"
  by (auto simp: configs_of_upd fun_eq_iff fmdrop_lookup_if)

lemma books_ok_cong:
  assumes "books_ok X funcs prep" "configs_of funcs' = configs_of funcs" shows "books_ok X funcs' prep"
  using assms(1) unfolding books_ok_def entries_cong [OF assms(2)] assms(2) .

section \<open>Giving items back\<close>

text \<open>What \<open>ReduceConfig\<close> and \<open>DeallocateConfig\<close> have in common.\<close>

definition gives_back :: "GPUInfo \<Rightarrow> Config \<Rightarrow> GPUInfo \<Rightarrow> Config \<Rightarrow> bool" where
  "gives_back g c g' c' \<longleftrightarrow> (\<exists>is. (\<forall>i \<in> set is. i |\<in>| fmdom (shelfItems c)) \<and> Usage g' = remove_loop Remove is (Usage g) \<and>
     gpu_UUID g' = gpu_UUID g \<and> TotalSMPercentage g' = TotalSMPercentage g \<and>
     c' = c\<lparr>shelfItems := fold fmdrop is (shelfItems c)\<rparr>)"

lemma Reduce_gives_back:
  assumes "range_order order (shelfItems c)" "ReduceConfig order g c n = (g', c', e)"
  shows "gives_back g c g' c'"
proof -
  let ?is = "if wrap64 (AllocatedReplica c - n) = 0 then [] else take (nat (wrap64 (AllocatedReplica c - n))) order"
  have "\<forall>i \<in> set ?is. i |\<in>| fmdom (shelfItems c)"
    using assms(1) by (auto simp: range_order_def fset_of_list_elem dest!: in_set_takeD simp flip: assms(1) [unfolded range_order_def, THEN conjunct2])
  then show ?thesis
    using assms(2) unfolding gives_back_def
    by (intro exI [of _ ?is]) (auto simp: ReduceConfig_def reduce_loop_eq Let_def split: if_splits)
qed

lemma Deallocate_gives_back:
  assumes "range_order order (shelfItems c)" "DeallocateConfig order g c = (g', c', e)"
  shows "gives_back g c g' c'"
proof -
  have "\<forall>i \<in> set order. i |\<in>| fmdom (shelfItems c)"
    using assms(1) by (auto simp: range_order_def fset_of_list_elem simp flip: assms(1) [unfolded range_order_def, THEN conjunct2])
  then show ?thesis
    using assms(2) unfolding gives_back_def
    by (intro exI [of _ order]) (auto simp: DeallocateConfig_def deallocate_loop_eq Let_def)
qed

lemma budget_update:
  assumes "budget heap 0" "sound_packer (TotalSMPercentage g) (Usage g)" "int64 (TotalSMPercentage g)"
  shows "budget (heap[a := g]) 0"
  using assms wf_packerD(6) [OF sound_packerD(1) [OF assms(2)]] unfolding budget_def by (auto dest!: set_update_subset_insert [THEN subsetD])

lemma maps_ok_same_uuid:
  "maps_ok heap nm \<Longrightarrow> gpu_UUID g = gpu_UUID (heap ! a) \<Longrightarrow> maps_ok (heap[a := g]) nm"
  unfolding maps_ok_def by (metis length_list_update nth_list_update_eq nth_list_update_neq)

lemma books_gives_back:
  assumes ok: "books_ok X funcs prep" and c: "configs_of funcs k = Some c"
    and g: "gives_back (prep_heap prep ! associatedGpu c) c g' c'"
  defines "prep' \<equiv> prep\<lparr>prep_heap := (prep_heap prep)[associatedGpu c := g']\<rparr>"
  shows "configs_of funcs' = (configs_of funcs)(k \<mapsto> c') \<Longrightarrow> books_ok X funcs' prep'"
    "configs_of funcs' = (configs_of funcs)(k := None) \<Longrightarrow> books_ok X funcs' prep'"
proof -
  let ?heap = "prep_heap prep"
  note B = books_okD [OF ok]
  have a: "associatedGpu c < length ?heap" using owners_okD(1) [OF B(4), of "Inl k"] c by (simp add: owned_def)
  obtain "is" where I: "\<forall>i \<in> set is. i |\<in>| fmdom (shelfItems c)"
      "Usage g' = remove_loop Remove is (Usage (?heap ! associatedGpu c))"
      "gpu_UUID g' = gpu_UUID (?heap ! associatedGpu c)" "TotalSMPercentage g' = TotalSMPercentage (?heap ! associatedGpu c)"
      "c' = c\<lparr>shelfItems := fold fmdrop is (shelfItems c)\<rparr>"
    using g unfolding gives_back_def by blast
  have wf: "wf_packer (Usage (?heap ! associatedGpu c))" "int64 (TotalSMPercentage (?heap ! associatedGpu c))"
      "sound_packer (TotalSMPercentage (?heap ! associatedGpu c)) (Usage (?heap ! associatedGpu c))"
    using budgetD [OF B(1) nth_mem [OF a]] by simp_all
  note R = remove_loop_facts [OF wf(1), of "is"]
  have bud: "budget (prep_heap prep') 0" using B(1) sound_remove_loop [OF wf(3), of "is"] I(2,4) wf(2) unfolding prep'_def by (simp add: budget_update)
  have maps: "maps_ok (prep_heap prep') (prep_nm prep')" "nodes_sane (prep_nm prep')"
    using B(2,3) I(3) unfolding prep'_def by (simp_all add: maps_ok_same_uuid)
  have own: "owners_ok (prep_heap prep') ((entries X funcs)(Inl k \<mapsto> c'))"
    unfolding prep'_def prep_state.select_convs prep_state.update_convs
    using owners_shrink [OF B(4), of "Inl k" c g' "set is" c'] c I R(2) by (simp add: fmlookup_dom_iff fold_fmdrop_lookup)
  have uuid: "cfg_UUID d = u" if "((configs_of funcs)(k := v)) (n, u) = Some d" "\<forall>x. v = Some x \<longrightarrow> x = c'" for v n u d
    using that B(5) [of n u] c I(5) by (auto split: if_splits)
  show "books_ok X funcs' prep'" if "configs_of funcs' = (configs_of funcs)(k \<mapsto> c')"
    using bud maps own uuid [of "Some c'"] that unfolding books_ok_def entries_upd [OF that] by simp
  show "books_ok X funcs' prep'" if "configs_of funcs' = (configs_of funcs)(k := None)"
    using bud maps owners_drop [OF own, of "Inl k"] uuid [of None] that unfolding books_ok_def entries_upd [OF that] by simp
qed

section \<open>Scaling down and the end of a function\<close>

text \<open>The orders a call uses are orders of the maps it visits.\<close>

definition orders_ok :: "orders \<Rightarrow> FastFunc \<Rightarrow> bool" where
  "orders_ok ords fn \<longleftrightarrow> range_order (ord_configs ords) (configUUIDToConfig fn) \<and>
     (\<forall>u c. fmlookup (configUUIDToConfig fn) u = Some c \<longrightarrow> range_order (ord_items ords c) (shelfItems c))"

text \<open>A state in the middle of a call, with the function's record apart; \<open>rest\<close> are configurations it still lists.\<close>

definition amid :: "Config list \<Rightarrow> orders \<Rightarrow> string \<Rightarrow> (string, FastFunc) fmap \<Rightarrow> Config list \<Rightarrow> 's controller \<times> FastFunc \<Rightarrow> bool" where
  "amid X ords name funcs rest = (\<lambda>(st, fn). fastFuncMap st = funcs \<and> books_ok X (fmupd name fn funcs) (ctl_prep st) \<and>
     distinct (map cfg_UUID rest) \<and> (\<forall>c \<in> set rest. fmlookup (configUUIDToConfig fn) (cfg_UUID c) = Some c \<and>
       range_order (ord_items ords c) (shelfItems c)))"

lemma amid_reduce:
  assumes "amid X ords name funcs (ri_Config info # rest) s"
  shows "amid X ords name funcs rest (reduce_one ords info s)"
proof -
  obtain st fn where s: "s = (st, fn)" by force
  let ?c = "ri_Config info"
  obtain g c e where r: "ReduceConfig (ord_items ords ?c) (ctl_heap st ! associatedGpu ?c) ?c (NewReplica info) = (g, c, e)"
    using prod_cases3 by blast
  have c: "configs_of (fmupd name fn funcs) (name, cfg_UUID ?c) = Some ?c" "books_ok X (fmupd name fn funcs) (ctl_prep st)"
      "range_order (ord_items ords ?c) (shelfItems ?c)" "fastFuncMap st = funcs"
    using assms unfolding s amid_def by (simp_all add: configs_of_upd)
  note gb = Reduce_gives_back [OF c(3) r]
  then have u: "cfg_UUID c = cfg_UUID ?c" by (auto simp: gives_back_def)
  define st' where "st' = (let st = set_gpu (associatedGpu ?c) g st in if e then scheduleForDeletion g st else st)"
  define fn' where "fn' = fn\<lparr>currentRPSCapacity := currentRPSCapacity fn - ReducedDelta info,
    configUUIDToConfig := fmupd (cfg_UUID c) c (configUUIDToConfig fn)\<rparr>"
  have o: "reduce_one ords info s = (st', fn')"
    unfolding s reduce_one_def st'_def fn'_def by (simp add: r Let_def)
  have "configs_of (fmupd name fn' funcs) = (configs_of (fmupd name fn funcs))((name, cfg_UUID ?c) \<mapsto> c)"
    by (rule configs_of_upd_config) (simp add: fn'_def u)
  note books_gives_back(1) [OF c(2,1) gb this]
  then have "books_ok X (fmupd name fn' funcs) (ctl_prep st')" "fastFuncMap st' = funcs"
    using c(4) by (simp_all add: st'_def set_gpu_def scheduleForDeletion_def Let_def)
  then show ?thesis using assms u unfolding o by (auto simp: amid_def s fn'_def)
qed

lemma amid_remove:
  assumes "amid X ords name funcs (config # rest) s"
  shows "amid X ords name funcs rest (remove_one ords config s)"
proof -
  obtain st fn where s: "s = (st, fn)" by force
  obtain g c e where r: "DeallocateConfig (ord_items ords config) (ctl_heap st ! associatedGpu config) config = (g, c, e)"
    using prod_cases3 by blast
  have c: "configs_of (fmupd name fn funcs) (name, cfg_UUID config) = Some config" "books_ok X (fmupd name fn funcs) (ctl_prep st)"
      "range_order (ord_items ords config) (shelfItems config)" "fastFuncMap st = funcs"
    using assms unfolding s amid_def by (simp_all add: configs_of_upd)
  note gb = Deallocate_gives_back [OF c(3) r]
  then have u: "cfg_UUID c = cfg_UUID config" by (auto simp: gives_back_def)
  define st' where "st' = (let st = set_gpu (associatedGpu config) g st in if e then scheduleForDeletion g st else st)"
  define fn' where "fn' = fn\<lparr>currentRPSCapacity := currentRPSCapacity fn - AllocatedRPS c,
    configUUIDToConfig := fmdrop (cfg_UUID c) (configUUIDToConfig fn)\<rparr>"
  have o: "remove_one ords config s = (st', fn')"
    unfolding s remove_one_def st'_def fn'_def by (simp add: r Let_def)
  have "configs_of (fmupd name fn' funcs) = (configs_of (fmupd name fn funcs))((name, cfg_UUID config) := None)"
    by (rule configs_of_drop_config) (simp add: fn'_def u)
  note books_gives_back(2) [OF c(2,1) gb this]
  then have "books_ok X (fmupd name fn' funcs) (ctl_prep st')" "fastFuncMap st' = funcs"
    using c(4) by (simp_all add: st'_def set_gpu_def scheduleForDeletion_def Let_def)
  moreover have "distinct (map cfg_UUID rest)" "\<forall>d \<in> set rest. cfg_UUID config \<noteq> cfg_UUID d \<and>
      fmlookup (configUUIDToConfig fn) (cfg_UUID d) = Some d \<and> range_order (ord_items ords d) (shelfItems d)"
    using assms unfolding amid_def s by auto
  moreover have "fmlookup (configUUIDToConfig fn') v = fmlookup (configUUIDToConfig fn) v" if "cfg_UUID config \<noteq> v" for v
    using that by (simp add: fn'_def u)
  ultimately show ?thesis unfolding o amid_def by simp
qed

lemma amid_fold_reduce:
  "amid X ords name funcs (map ri_Config updated @ rest) s \<Longrightarrow> amid X ords name funcs rest (fold (reduce_one ords) updated s)"
proof (induction updated arbitrary: s)
  case (Cons info updated)
  then have "amid X ords name funcs (map ri_Config updated @ rest) (reduce_one ords info s)" by (intro amid_reduce) simp
  then show ?case using Cons.IH by simp
qed simp

lemma amid_fold_remove: "amid X ords name funcs removed s \<Longrightarrow> amid X ords name funcs [] (fold (remove_one ords) removed s)"
proof (induction removed arbitrary: s)
  case (Cons config removed)
  then have "amid X ords name funcs removed (remove_one ords config s)" by (intro amid_remove)
  then show ?case using Cons.IH by simp
qed simp

lemma distinct_submset:
  assumes "mset xs \<subseteq># mset ys" "distinct ys" shows "distinct xs"
proof -
  obtain zs where "mset ys = mset (xs @ zs)" using assms(1) by (metis ex_mset mset_append subset_mset.le_iff_add)
  then show ?thesis using assms(2) mset_eq_imp_distinct_iff by fastforce
qed

lemma uuids_distinct:
  assumes "range_order order m" "\<And>u c. fmlookup m u = Some c \<Longrightarrow> cfg_UUID c = u"
  shows "distinct (map cfg_UUID (List.map_filter (fmlookup m) order))"
proof -
  have "map cfg_UUID (List.map_filter (fmlookup m) us) = filter (\<lambda>u. fmlookup m u \<noteq> None) us" for us
    using assms(2) by (induction us) (auto simp: List.map_filter_def)
  then show ?thesis using assms(1) by (simp add: range_order_def)
qed

text \<open>What a scale-down holds between its calls on the cluster and its books: configurations the function lists, each once.\<close>

definition listed :: "(string, FastFunc) fmap \<Rightarrow> string \<Rightarrow> Config list \<Rightarrow> bool" where
  "listed funcs name cs \<longleftrightarrow> distinct (map cfg_UUID cs) \<and> (\<forall>c \<in> set cs. configs_of funcs (name, cfg_UUID c) = Some c)"

definition held_configs :: "ReduceInfo list \<Rightarrow> Config list \<Rightarrow> Config list" where
  "held_configs configsUpdated configsRemoved = map ri_Config configsUpdated @ configsRemoved"

definition items_ok :: "orders \<Rightarrow> Config list \<Rightarrow> bool" where
  "items_ok ords cs \<longleftrightarrow> (\<forall>c \<in> set cs. range_order (ord_items ords c) (shelfItems c))"

lemma amid_held:
  assumes "books_ok X (fmupd name fn funcs) (ctl_prep st)" "fastFuncMap st = funcs" "listed (fmupd name fn funcs) name rest"
    and "items_ok ords rest"
  shows "amid X ords name funcs rest (st, fn)"
  using assms by (auto simp: amid_def listed_def items_ok_def configs_of_upd)

lemma listed_start:
  assumes "books_ok X (fmupd name fn funcs) prep" "range_order order (configUUIDToConfig fn)"
    and "mset rest \<subseteq># mset (CurrentConfigs order fn)"
  shows "listed (fmupd name fn funcs) name rest"
proof -
  have u: "cfg_UUID c = u" if "fmlookup (configUUIDToConfig fn) u = Some c" for u c
    using books_okD(5) [OF assms(1), of name u c] that by (simp add: configs_of_upd)
  have "distinct (map cfg_UUID (CurrentConfigs order fn))"
    unfolding CurrentConfigs_def using assms(2) u by (rule uuids_distinct)
  then have "distinct (map cfg_UUID rest)"
    using image_mset_subseteq_mono [OF assms(3), of cfg_UUID] by (intro distinct_submset [of "map cfg_UUID rest"]) simp_all
  moreover have "fmlookup (configUUIDToConfig fn) (cfg_UUID c) = Some c" if c: "c \<in> set rest" for c
  proof -
    have "c \<in> set (CurrentConfigs order fn)" using set_mset_mono [OF assms(3)] c by auto
    then obtain v where "fmlookup (configUUIDToConfig fn) v = Some c" using CurrentConfigs_mem [OF assms(2)] by blast
    then show ?thesis using u by auto
  qed
  ultimately show ?thesis by (simp add: listed_def configs_of_upd)
qed

lemma held_items_ok:
  assumes "orders_ok ords fn" "mset cs \<subseteq># mset (CurrentConfigs (ord_configs ords) fn)" shows "items_ok ords cs"
proof -
  have "set cs \<subseteq> set (CurrentConfigs (ord_configs ords) fn)" using set_mset_mono [OF assms(2)] by simp
  then show ?thesis using assms(1) CurrentConfigs_mem unfolding items_ok_def orders_ok_def by blast
qed

lemma amid_start:
  assumes "books_ok X (fmupd name fn funcs) (ctl_prep st)" "orders_ok ords fn" "fastFuncMap st = funcs"
    and "mset rest \<subseteq># mset (CurrentConfigs (ord_configs ords) fn)"
  shows "amid X ords name funcs rest (st, fn)"
proof -
  have "range_order (ord_configs ords) (configUUIDToConfig fn)" using assms(2) by (simp add: orders_ok_def)
  then show ?thesis
    using amid_held [OF assms(1,3) listed_start [OF assms(1) _ assms(4)] held_items_ok [OF assms(2,4)]] by simp
qed

lemma listed_submset:
  assumes "listed funcs name cs" "mset ds \<subseteq># mset cs" shows "listed funcs name ds"
proof -
  have "distinct (map cfg_UUID cs)" using assms(1) by (simp add: listed_def)
  then have "distinct (map cfg_UUID ds)"
    using image_mset_subseteq_mono [OF assms(2), of cfg_UUID] by (intro distinct_submset [of "map cfg_UUID ds"]) simp_all
  moreover have "set ds \<subseteq> set cs" using set_mset_mono [OF assms(2)] by simp
  ultimately show ?thesis using assms(1) unfolding listed_def by blast
qed

lemma listed_cong: "configs_of funcs' = configs_of funcs \<Longrightarrow> listed funcs' name cs = listed funcs name cs"
  by (simp add: listed_def)

text \<open>The books of a scale-down.\<close>

lemma shrink_amid:
  assumes inv: "ctl_inv X st" and fn: "fmlookup (fastFuncMap st) (ff_Name f) = Some fn"
    and l: "listed (fastFuncMap st) (ff_Name f) (held_configs upd rem)" "items_ok ords (held_configs upd rem)"
  shows "amid X ords (ff_Name f) (fastFuncMap st) (held_configs upd rem) (st, fn)"
proof -
  have "fmupd (ff_Name f) fn (fastFuncMap st) = fastFuncMap st" using fn by (intro fmap_ext) auto
  then show ?thesis using inv l by (intro amid_held) (simp_all add: ctl_inv_def)
qed

lemma shrink_known:
  assumes "fmlookup (fastFuncMap st) (ff_Name f) = Some fn"
    and "fold (remove_one ords) rem (fold (reduce_one ords) upd (st, fn)) = (st', fn')"
  shows "shrink_phase ords st f upd rem = st'\<lparr>fastFuncMap := fmupd (ff_Name f) fn' (fastFuncMap st')\<rparr>"
  using assms by (simp add: shrink_phase_def lookup_func_def)

lemma shrink_phase_inv:
  assumes "ctl_inv X st" "fmlookup (fastFuncMap st) (ff_Name f) = Some fn"
    and "listed (fastFuncMap st) (ff_Name f) (held_configs upd rem)" "items_ok ords (held_configs upd rem)"
  shows "ctl_inv X (shrink_phase ords st f upd rem)"
proof -
  note A = shrink_amid [OF assms, unfolded held_configs_def]
  obtain st' fn' where s: "fold (remove_one ords) rem (fold (reduce_one ords) upd (st, fn)) = (st', fn')" by force
  show ?thesis
    using amid_fold_remove [OF amid_fold_reduce [OF A]] unfolding shrink_known [OF assms(2) s] s amid_def ctl_inv_def by simp
qed

lemma agree_phase_held:
  assumes "agree_phase E st f name toRemove toUpdate = Some (st', phase)"
  obtains cluster upd rem where "st' = st\<lparr>ctl_cluster := cluster\<rparr>" "phase = Agreed f upd rem"
    "mset (held_configs upd rem) \<subseteq># mset (held_configs toUpdate toRemove)"
proof -
  obtain cl rem where r: "remove_pods (env_client E) name (ctl_cluster st) toRemove = (cl, rem)" by force
  obtain cl' upd where u: "update_pods (env_client E) name cl toUpdate = Some (cl', upd)"
    and o: "st' = st\<lparr>ctl_cluster := cl'\<rparr>" "phase = Agreed f upd rem"
    using assms r by (auto simp: agree_phase_def split: Option.bind_splits)
  have "mset (held_configs upd rem) \<subseteq># mset (held_configs toUpdate toRemove)"
    using subset_mset.add_mono [OF image_mset_subseteq_mono [OF update_pods_subset [OF u], of ri_Config] remove_pods_subset [OF r]]
    by (simp add: held_configs_def)
  with o show ?thesis by (rule that)
qed

lemma owners_submap: "owners_ok heap ent \<Longrightarrow> (\<And>k c. ent' k = Some c \<Longrightarrow> ent k = Some c) \<Longrightarrow> owners_ok heap ent'"
  unfolding owners_ok_def by blast

lemma books_drop:
  assumes "books_ok X (fmupd name fn funcs) prep" shows "books_ok X (fmdrop name funcs) prep"
proof -
  note B = books_okD [OF assms]
  have sub: "configs_of (fmupd name fn funcs) k = Some c" if "configs_of (fmdrop name funcs) k = Some c" for k c
    using that by (cases k) (auto simp: configs_of_def fmdrop_lookup_if split: if_splits Option.bind_splits)
  have "entries X (fmupd name fn funcs) k = Some c" if "entries X (fmdrop name funcs) k = Some c" for k c
    using that sub unfolding entries_def by (auto split: sum.splits)
  then show ?thesis using B(1-3) owners_submap [OF B(4)] B(5) sub unfolding books_ok_def by blast
qed

lemma amid_release:
  assumes "amid X ords name funcs (config # rest) (st, fn)"
  shows "\<exists>fn'. amid X ords name funcs rest (release_config ords config st, fn')"
proof -
  obtain g c e where r: "ReduceConfig (ord_items ords config) (ctl_heap st ! associatedGpu config) config 0 = (g, c, e)"
    using prod_cases3 by blast
  have c: "configs_of (fmupd name fn funcs) (name, cfg_UUID config) = Some config" "books_ok X (fmupd name fn funcs) (ctl_prep st)"
      "range_order (ord_items ords config) (shelfItems config)" "fastFuncMap st = funcs"
    using assms unfolding amid_def by (simp_all add: configs_of_upd)
  note gb = Reduce_gives_back [OF c(3) r]
  define st' where "st' = release_config ords config st"
  define fn' where "fn' = fn\<lparr>configUUIDToConfig := fmdrop (cfg_UUID config) (configUUIDToConfig fn)\<rparr>"
  have "configs_of (fmupd name fn' funcs) = (configs_of (fmupd name fn funcs))((name, cfg_UUID config) := None)"
    by (rule configs_of_drop_config) (simp add: fn'_def)
  note books_gives_back(2) [OF c(2,1) gb this]
  then have "books_ok X (fmupd name fn' funcs) (ctl_prep st')" "fastFuncMap st' = funcs"
    using c(4) r by (simp_all add: st'_def release_config_def set_gpu_def scheduleForDeletion_def Let_def)
  moreover have "distinct (map cfg_UUID rest)" "\<forall>d \<in> set rest. cfg_UUID config \<noteq> cfg_UUID d \<and>
      fmlookup (configUUIDToConfig fn) (cfg_UUID d) = Some d \<and> range_order (ord_items ords d) (shelfItems d)"
    using assms unfolding amid_def by auto
  moreover have "fmlookup (configUUIDToConfig fn') v = fmlookup (configUUIDToConfig fn) v" if "cfg_UUID config \<noteq> v" for v
    using that by (simp add: fn'_def)
  ultimately show ?thesis unfolding st'_def [symmetric] amid_def by (intro exI [of _ fn']) simp
qed

lemma amid_fold_release:
  "amid X ords name funcs configs (st, fn) \<Longrightarrow> \<exists>fn'. amid X ords name funcs [] (fold (release_config ords) configs st, fn')"
proof (induction configs arbitrary: st fn)
  case (Cons config configs)
  obtain fn' where "amid X ords name funcs configs (release_config ords config st, fn')" using amid_release [OF Cons.prems] by blast
  then show ?case using Cons.IH by simp
qed auto

lemma handleDeleted_inv:
  assumes "ctl_inv X st" "\<And>fn. fmlookup (fastFuncMap st) name = Some fn \<Longrightarrow> orders_ok ords fn"
  shows "ctl_inv X (handleDeletedFaSTFunc ords st name)"
proof (cases "fmlookup (fastFuncMap st) name")
  case None
  then show ?thesis using assms(1) by (simp add: handleDeletedFaSTFunc_def)
next
  case (Some fn)
  then have "fmupd name fn (fastFuncMap st) = fastFuncMap st" by (intro fmap_ext) auto
  then have "books_ok X (fmupd name fn (fastFuncMap st)) (ctl_prep st)" using assms(1) by (simp add: ctl_inv_def)
  then have "amid X ords name (fastFuncMap st) (CurrentConfigs (ord_configs ords) fn) (st, fn)"
    using assms(2) [OF Some] by (intro amid_start) simp_all
  from amid_fold_release [OF this] show ?thesis
    unfolding handleDeletedFaSTFunc_def Some ctl_inv_def amid_def by (auto simp: Let_def intro: books_drop)
qed

section \<open>Scaling up\<close>

definition answers_sane :: "gpu_answers \<Rightarrow> bool" where
  "answers_sane answers \<longleftrightarrow> (\<forall>k cl mps p av pg v. answers k cl mps p = Some (av, pg) \<and> v \<in> set av \<longrightarrow> int64 (SmPercentage v))"

lemma answers_saneD: "answers_sane answers \<Longrightarrow> answers k cl mps p = Some (av, pg) \<Longrightarrow> v \<in> set av \<Longrightarrow> int64 (SmPercentage v)"
  unfolding answers_sane_def by blast

text \<open>Assumed of the environment: the sorting routines sort, and a node reports shares that are 64-bit numbers.\<close>

definition env_ok :: "('s, 'p, 'o) environment \<Rightarrow> bool" where
  "env_ok E \<longleftrightarrow> slice_sort (env_sortGPUs E) \<and> slice_sort (env_sortConfigs E) \<and>
     answers_sane (env_answers E)"

text \<open>The packers' item counters do not run out during the call.\<close>

definition ids_suffice :: "('s, 'p, 'o) environment \<Rightarrow> orders \<Rightarrow> 's controller \<Rightarrow> ResourceRequest \<Rightarrow> bool" where
  "ids_suffice E ords st req = (case GetConfigs (env_types E) (env_sortGPUs E) (env_uuids E) (ord_nodes ords)
      (prep_nm (ctl_prep st)) (ctl_heap st) (ctl_uuid st) req of
     Some (heap, n, Inr cs) \<Rightarrow> sum_list (map wanted cs) < 2 ^ 63 - 1 \<and>
       list_all (\<lambda>g. nextItemID (Usage g) + sum_list (map wanted cs) < 2 ^ 63) heap
   | _ \<Rightarrow> True)"

lemma nodes_sane_upd:
  "nodes_sane nm \<Longrightarrow> \<forall>v \<in> set (availableGPUs node). int64 (SmPercentage v) \<Longrightarrow> nodes_sane (nm\<lparr>nodes := fmupd n node (nodes nm)\<rparr>)"
  by (simp add: nodes_sane_def)

lemma resolve_sane:
  assumes ns: "nodes_sane (prep_nm st)" and ans: "answers_sane answers" and r: "resolve_gpu T answers req st c = (st', r)"
  shows "nodes_sane (prep_nm st')"
proof (cases "fmlookup (nodes (prep_nm st)) (gpu_NodeName (prep_heap st ! associatedGpu c))")
  case None
  then show ?thesis using ns r by (auto simp: resolve_gpu_def)
next
  case (Some node)
  let ?g = "prep_heap st ! associatedGpu c"
  have node: "\<forall>v \<in> set (availableGPUs node). int64 (SmPercentage v)" using ns Some by (auto simp: nodes_sane_def)
  show ?thesis
  proof (cases "fmlookup (physicalGPUsMap node) (gpu_UUID ?g) = None \<and> virtual ?g")
    case False
    then show ?thesis
      using ns r Some nodes_sane_upd [OF ns] node by (auto simp: resolve_gpu_def Let_def split: option.splits)
  next
    case True
    show ?thesis
    proof (cases "answers (prep_calls st) (GrpcClient node)
        (req_AllocationType req = AllocationTypeFastPod T \<or> req_AllocationType req = AllocationTypeMPS T) (profileID ?g)")
      case None
      then show ?thesis using ns r Some True by (auto simp: resolve_gpu_def Let_def)
    next
      case (Some resp)
      obtain av pg where resp: "resp = (av, pg)" by force
      have "\<forall>v \<in> set av. int64 (SmPercentage v)" using answers_saneD [OF ans Some [unfolded resp]] by blast
      then show ?thesis
        using ns r True Some resp \<open>fmlookup (nodes (prep_nm st)) (gpu_NodeName ?g) = Some node\<close> nodes_sane_upd [OF ns]
        by (auto simp: resolve_gpu_def Let_def)
    qed
  qed
qed

lemma prepare_sane:
  assumes "answers_sane answers"
  shows "nodes_sane (prep_nm st) \<Longrightarrow> PrepareConfigsRequirements T answers req st configs = (st', cs) \<Longrightarrow> nodes_sane (prep_nm st')"
proof (induction configs arbitrary: st cs)
  case (Cons c configs)
  obtain st1 r where r: "resolve_gpu T answers req st c = (st1, r)" by force
  obtain st2 p where p: "prepare_one T answers req st c = (st2, p)" by force
  have "prep_nm st2 = prep_nm st1" using p r by (auto simp: prepare_one_def Let_def split: option.splits prod.splits)
  then have "nodes_sane (prep_nm st2)" using resolve_sane [OF Cons.prems(1) assms r] by simp
  then show ?case using Cons.IH Cons.prems(2) p by (auto split: prod.splits)
qed simp

text \<open>Adding configurations that share nothing, neither with each other nor with those that are there: first to
  those that no function lists.\<close>

definition joins :: "gpu_heap \<Rightarrow> ('k \<Rightarrow> Config option) \<Rightarrow> Config \<Rightarrow> bool" where
  "joins heap ent c \<longleftrightarrow> owned heap c \<and> (\<forall>k d. ent k = Some d \<longrightarrow> no_sharing d c)"

lemma owners_reindex:
  assumes "owners_ok heap ent" "inj_on f (dom ent')" "\<And>k c. ent' k = Some c \<Longrightarrow> ent (f k) = Some c"
  shows "owners_ok heap ent'"
proof (rule owners_okI)
  show "owned heap c" if "ent' k = Some c" for k c
    using owners_okD(1) [OF assms(1) assms(3) [OF that]] .
  show "no_sharing c d" if k: "ent' k = Some c" and l: "ent' l = Some d" and "k \<noteq> l" for k l c d
  proof -
    have "f k \<noteq> f l" using inj_onD [OF assms(2), of k l] that by blast
    then show ?thesis using owners_okD(2) [OF assms(1) assms(3) [OF k] assms(3) [OF l]] by blast
  qed
qed

lemma owners_Cons:
  assumes "owners_ok heap (entries X funcs)" "joins heap (entries X funcs) c"
  shows "owners_ok heap (entries (c # X) funcs)"
proof -
  let ?ent = "(entries (c # X) funcs)(Inr 0 := None)" and ?f = "map_sum id (\<lambda>i. i - 1)"
  have down: "entries X funcs (?f k) = Some d" if "?ent k = Some d" for k d
    using that by (auto simp: entries_def nth_Cons split: sum.splits if_splits nat.splits)
  have "inj_on ?f (dom ?ent)"
  proof (rule inj_onI)
    fix k l
    assume "k \<in> dom ?ent" "l \<in> dom ?ent" "?f k = ?f l"
    then show "k = l" by (cases k; cases l) (auto split: if_splits)
  qed
  then have "owners_ok heap ?ent" using down by (rule owners_reindex [OF assms(1)])
  moreover have "no_sharing c d" if "?ent l = Some d" for l d
    using down [OF that] assms(2) no_sharing_sym unfolding joins_def by blast
  ultimately have "owners_ok heap (?ent(Inr 0 \<mapsto> c))"
    using assms(2) unfolding joins_def by (intro owners_add) blast+
  moreover have "?ent(Inr 0 \<mapsto> c) = entries (c # X) funcs" by (auto simp: entries_def)
  ultimately show ?thesis by simp
qed

lemma joins_Cons:
  assumes "joins heap (entries X funcs) d" "no_sharing c d" shows "joins heap (entries (c # X) funcs) d"
proof -
  have "no_sharing e d" if "entries (c # X) funcs k = Some e" for k e
  proof (cases k)
    case (Inl l)
    then show ?thesis using assms(1) that unfolding joins_def by (metis entries_Inl)
  next
    case (Inr i)
    then show ?thesis
    proof (cases i)
      case (Suc j)
      then have "entries X funcs (Inr j) = Some e" using Inr that by (simp add: entries_def split: if_splits)
      then show ?thesis using assms(1) unfolding joins_def by blast
    qed (use assms(2) Inr that in \<open>simp add: entries_def\<close>)
  qed
  then show ?thesis using assms(1) unfolding joins_def by blast
qed

lemma owners_prepend:
  "owners_ok heap (entries X funcs) \<Longrightarrow> sorted_wrt no_sharing cs \<Longrightarrow> \<forall>c \<in> set cs. joins heap (entries X funcs) c \<Longrightarrow>
    owners_ok heap (entries (cs @ X) funcs) \<and>
    (\<forall>d. joins heap (entries X funcs) d \<and> (\<forall>c \<in> set cs. no_sharing c d) \<longrightarrow> joins heap (entries (cs @ X) funcs) d)"
proof (induction cs)
  case (Cons c cs)
  have "\<forall>d \<in> set cs. no_sharing d c" using Cons.prems(2) no_sharing_sym by auto
  then have "owners_ok heap (entries (cs @ X) funcs)" "joins heap (entries (cs @ X) funcs) c" using Cons by simp_all
  then show ?case using Cons owners_Cons joins_Cons by simp
qed simp

text \<open>Then from there to the books of a function.\<close>

lemma configs_of_add: "configs_of (fmupd n (add_config c fn) funcs) = (configs_of (fmupd n fn funcs))((n, cfg_UUID c) \<mapsto> c)"
  by (rule configs_of_upd_config) (simp add: add_config_def)

lemma owners_enlist:
  assumes "owners_ok heap (entries (c # X) (fmupd n fn funcs))"
  shows "owners_ok heap (entries X (fmupd n (add_config c fn) funcs))"
proof -
  let ?k = "Inl (n, cfg_UUID c)"
  let ?f = "\<lambda>k. if k = ?k then Inr 0 else map_sum id Suc k"
  have "inj ?f"
  proof (rule injI)
    show "k = l" if "?f k = ?f l" for k l using that by (cases k; cases l) (auto split: if_splits)
  qed
  then have "inj_on ?f A" for A by (rule inj_on_subset) simp
  moreover have "entries (c # X) (fmupd n fn funcs) (?f k) = Some d"
    if "entries X (fmupd n (add_config c fn) funcs) k = Some d" for k d
    using that unfolding entries_upd [OF configs_of_add] by (cases k) (auto simp: entries_def split: if_splits)
  ultimately show ?thesis by (rule owners_reindex [OF assms])
qed

lemma owners_add_configs:
  "owners_ok heap (entries (cs @ X) (fmupd n fn funcs)) \<Longrightarrow> owners_ok heap (entries X (fmupd n (fold add_config cs fn) funcs))"
  by (induction cs arbitrary: fn) (simp_all add: owners_enlist)

lemma uuids_add_configs:
  assumes "\<And>m u c. configs_of (fmupd n fn funcs) (m, u) = Some c \<Longrightarrow> cfg_UUID c = u"
  shows "configs_of (fmupd n (fold add_config cs fn) funcs) (m, u) = Some c \<Longrightarrow> cfg_UUID c = u"
  using assms
proof (induction cs arbitrary: fn)
  case (Cons d cs)
  have "cfg_UUID e = v" if "configs_of (fmupd n (add_config d fn) funcs) (l, v) = Some e" for l v e
    using Cons.prems(2) [of l v e] that unfolding configs_of_add by (auto split: if_splits)
  then show ?case using Cons.IH [of "add_config d fn"] Cons.prems(1) by simp
qed simp

text \<open>The heap that \<open>GetConfigs\<close> returns.\<close>

lemma GetConfigs_inv:
  assumes "books_ok X funcs prep" and G: "GetConfigs T srt uuids names (prep_nm prep) (prep_heap prep) n req = Some (heap, n', r)"
  shows "extends (prep_heap prep) heap" "budget heap 0" "books_ok X funcs (prep\<lparr>prep_heap := heap\<rparr>)"
proof -
  note B = books_okD [OF assms(1)]
  obtain new where new: "heap = prep_heap prep @ new" "\<forall>g \<in> set new. reported (nodes (prep_nm prep)) g"
    using GetConfigs_new [OF G] by blast
  show e: "extends (prep_heap prep) heap" unfolding new(1) by (rule extends_append)
  have g: "int64 (TotalSMPercentage g)" "Usage g = NewShelf (TotalSMPercentage g)" if "g \<in> set new" for g
    using new(2) that B(3) unfolding reported_def nodes_sane_def by force+
  have wf: "wf_packer (Usage g)" "sound_packer (TotalSMPercentage g) (Usage g)" if "g \<in> set new" for g
    using g [OF that] wf_NewShelf sound_NewShelf by simp_all
  show b: "budget heap 0"
    using B(1) g(1) wf(2) wf_packerD(6) [OF wf(1)] unfolding budget_def new(1) by auto
  show "books_ok X funcs (prep\<lparr>prep_heap := heap\<rparr>)"
    using assms(1) b maps_ok_heap [OF B(2) e] owners_extends [OF B(4) e] unfolding books_ok_def by simp
qed

text \<open>What \<open>GetConfigs\<close> picks can be committed.\<close>

lemma search_pairs_not_nan: "(sm, q) \<in> set (search_pairs T g t) \<Longrightarrow> \<not> is_nan q"
  by (auto simp: search_pairs_def tenth_quotas_def split: if_splits)

lemma GetConfigs_committable:
  assumes "slice_sort srt" "maps_ok heap nm" "GetConfigs T srt uuids names nm heap n req = Some (heap', n', Inr cs)"
  shows "\<forall>c \<in> set cs. committable heap' c"
proof -
  have "\<forall>name node. fmlookup (nodes nm) name = Some node \<longrightarrow> map_valid heap node"
    using assms(2) unfolding maps_ok_def map_valid_def by blast
  from GetConfigs_facts [OF assms(1) this, of T uuids names n req] obtain new where h: "heap' = heap @ new"
      and F: "\<forall>c \<in> set cs. let g = (heap @ new) ! associatedGpu c in
          GetModelMemory (req_ModelName req) = Some (MemoryReq c) \<and> FitsMemory g (MemoryReq c) \<and>
          ready_gpu T nm names (length heap) (heap @ new) (associatedGpu c) \<and>
          (PreferredGPU req = [] \<or> str_contains (GPUType g) (PreferredGPU req)) \<and>
          Fits g (SMPartition c) (QuotaReq c) (MemoryReq c) = Inr True \<and> shelfItems c = fmempty \<and>
          (SMPartition c, QuotaReq c) \<in> set (search_pairs T g (req_AllocationType req))"
    using assms(3) by (auto split: sum.splits)
  show ?thesis
  proof
    fix c
    assume "c \<in> set cs"
    then have "ready_gpu T nm names (length heap) (heap @ new) (associatedGpu c)" "shelfItems c = fmempty"
        "\<not> is_nan (QuotaReq c)"
      using F search_pairs_not_nan by (auto simp: Let_def)
    then show "committable heap' c" unfolding h by (auto simp: committable_def ready_gpu_def from_node_def)
  qed
qed

text \<open>The steps of a scale-up: the commit, which leaves the new configurations unlisted, and their recording.\<close>

lemma wanted_nonneg: "0 \<le> sum_list (map wanted cs)"
  by (intro sum_list_nonneg) (auto simp: wanted_def)

lemma commit_inv:
  assumes ok: "books_ok X funcs prep" and ans: "answers_sane answers"
    and com: "\<forall>c \<in> set cs. committable (prep_heap prep) c" and bud: "budget (prep_heap prep) (sum_list (map wanted cs))"
    and P: "PrepareConfigsRequirements T answers req prep cs = (prep', new)"
  shows "books_ok (new @ X) funcs prep'" "extends (prep_heap prep) (prep_heap prep')"
    "\<forall>c \<in> set new. committed (prep_heap prep') c"
proof -
  note B = books_okD [OF ok]
  have S: "extends (prep_heap prep) (prep_heap prep')" "budget (prep_heap prep') 0" "maps_ok (prep_heap prep') (prep_nm prep')"
      "\<And>c. c \<in> set new \<Longrightarrow> committed (prep_heap prep') c" "sorted_wrt no_sharing new"
      "\<And>c i. c \<in> set new \<Longrightarrow> associatedGpu c < length (prep_heap prep) \<Longrightarrow> i |\<in>| fmdom (shelfItems c) \<Longrightarrow>
        placed (Usage (prep_heap prep ! associatedGpu c)) i = None"
    using prepare_spec [OF bud B(2) com P] by auto
  show "extends (prep_heap prep) (prep_heap prep')" "\<forall>c \<in> set new. committed (prep_heap prep') c" using S(1,4) by simp_all
  have own: "owners_ok (prep_heap prep') (entries X funcs)" using owners_extends [OF B(4) S(1)] .
  have "joins (prep_heap prep') (entries X funcs) c" if c: "c \<in> set new" for c
  proof -
    have "no_sharing d c" if "entries X funcs k = Some d" for k d
      using owners_okD(1) [OF B(4) that] S(6) [OF c] fresh_no_sharing [of d "prep_heap prep" c] by (simp add: owned_def)
    then show ?thesis using committed_owned [OF S(2) S(4) [OF c]] by (simp add: joins_def)
  qed
  then have "owners_ok (prep_heap prep') (entries (new @ X) funcs)" using owners_prepend [OF own S(5)] by blast
  then show "books_ok (new @ X) funcs prep'"
    using S(2,3) prepare_sane [OF ans B(3) P] B(5) unfolding books_ok_def by blast
qed

lemma enlist_inv:
  assumes "books_ok (new @ X) (fmupd name fn funcs) prep"
  shows "books_ok X (fmupd name (fold add_config new fn) funcs) prep"
proof -
  note B = books_okD [OF assms]
  have "cfg_UUID c = u" if "configs_of (fmupd name (fold add_config new fn) funcs) (m, u) = Some c" for m u c
    using uuids_add_configs [of name fn funcs] B(5) that by blast
  then show ?thesis using B(1-3) owners_add_configs [OF B(4)] unfolding books_ok_def by blast
qed

lemma books_forget: "books_ok (new @ X) funcs prep \<Longrightarrow> books_ok X funcs prep"
proof -
  have "entries (new @ X) funcs (map_sum id (\<lambda>i. i + length new) k) = Some c" if "entries X funcs k = Some c" for k c
    using that by (auto simp: entries_def nth_append split: sum.splits if_splits)
  moreover have "inj_on (map_sum id (\<lambda>i. i + length new)) A" for A :: "((string \<times> string) + nat) set"
    by (rule inj_on_subset [OF sum.inj_map]) (simp_all add: inj_def)
  ultimately show "books_ok (new @ X) funcs prep \<Longrightarrow> books_ok X funcs prep"
    unfolding books_ok_def by (blast intro: owners_reindex)
qed

lemma scale_up_inv:
  assumes ok: "books_ok X (fmupd (ff_Name f) fn (fastFuncMap st)) (ctl_prep st)" and E: "env_ok E" and ids: "ids_suffice E ords st req"
    and fn: "fmlookup (fastFuncMap st) (ff_Name f) = Some fn"
    and U: "scale_up E ords st f fn req = Some (st', err)"
  shows "ctl_inv X st'"
proof -
  let ?name = "ff_Name f" and ?prep = "ctl_prep st" and ?T = "env_types E"
  let ?funcs = "fmupd ?name fn (fastFuncMap st)"
  have same: "?funcs = fastFuncMap st" using fn by (intro fmap_ext) auto
  obtain heap n r where G: "GetConfigs ?T (env_sortGPUs E) (env_uuids E) (ord_nodes ords) (prep_nm ?prep) (prep_heap ?prep)
      (ctl_uuid st) req = Some (heap, n, r)"
    using U by (auto simp: scale_up_def split: Option.bind_splits)
  note H = GetConfigs_inv [OF ok G]
  let ?prep1 = "?prep\<lparr>prep_heap := heap\<rparr>"
  show ?thesis
  proof (cases r)
    case (Inl e)
    then show ?thesis using U G H(3) same by (auto simp: scale_up_def ctl_inv_def)
  next
    case (Inr cs)
    obtain prep2 new where P: "PrepareConfigsRequirements ?T (env_answers E) req ?prep1 cs = (prep2, new)" by force
    obtain cl err' where A: "AddFastPods (env_client E) (ctl_cluster st)
        (case ConvertConfigs2FaSTPods (env_keys E) (env_setref E) f new of None \<Rightarrow> [] | Some pods \<Rightarrow> pods) = (cl, err')" by force
    have srt: "slice_sort (env_sortGPUs E)" "answers_sane (env_answers E)" using E by (simp_all add: env_ok_def)
    have com: "\<forall>c \<in> set cs. committable (prep_heap ?prep1) c"
      using GetConfigs_committable [OF srt(1) books_okD(2) [OF ok] G [unfolded Inr]] by simp
    have "budget (prep_heap ?prep1) (sum_list (map wanted cs))"
      using ids G Inr H(2) wanted_nonneg [of cs] by (auto simp: ids_suffice_def budget_def list_all_iff)
    note b = commit_inv(1) [OF H(3) srt(2) com this P]
    show ?thesis
      using U P A books_forget [OF b] enlist_inv [OF b] same unfolding scale_up_def G Inr
      by (auto simp: ctl_inv_def Let_def split: option.splits)
  qed
qed

text \<open>One check of a function. A configuration is scaled only if the function is known with it.\<close>

lemma decide_up_if_new: "decide False cap num cnt delta r10 r30 = (True, False, 0)"
  by (simp add: decide_def Let_def)

lemma books_new_func:
  assumes "ctl_inv X st" "configUUIDToConfig fn = configUUIDToConfig (lookup_func st name)"
  shows "books_ok X (fmupd name fn (fastFuncMap st)) (ctl_prep st)"
proof -
  have "configs_of (fmupd name fn (fastFuncMap st)) = configs_of (fastFuncMap st)"
    using assms(2) by (auto simp: configs_of_def lookup_func_def fun_eq_iff split: option.splits)
  then show ?thesis using assms(1) books_ok_cong unfolding ctl_inv_def by blast
qed

lemma select_configs_held:
  assumes "slice_sort (env_sortConfigs E)" "select_configs E ords fn newRPS = (toRemove, toUpdate)"
  shows "mset (held_configs toUpdate toRemove) \<subseteq># mset (CurrentConfigs (ord_configs ords) fn)"
proof -
  let ?cs = "sorted_configs (env_sortConfigs E) (CurrentConfigs (ord_configs ords) fn)"
  obtain left where "select_loop newRPS ?cs (total_rps ?cs) = (toRemove, toUpdate, left)"
    using assms(2) by (auto simp: select_configs_def Let_def split: prod.splits)
  from select_loop_subset [OF this] show ?thesis
    using slice_sort.permutes [OF assms(1)] by (simp add: sorted_configs_def held_configs_def union_commute)
qed

lemma decide_phase_inv:
  assumes inv: "ctl_inv X st" and ords: "orders_ok ords (lookup_func st (ff_Name f))" and srt: "slice_sort (env_sortConfigs E)"
    and D: "decide_phase E ords st f rps10s rps30s rps30s_earlier minRps preferredGPU = (st', phase)"
  shows "ctl_inv X st'" "ctl_prep st' = ctl_prep st" "ctl_uuid st' = ctl_uuid st" "fmlookup (fastFuncMap st') (ff_Name f) \<noteq> None"
    "configs_of (fastFuncMap st') = configs_of (fastFuncMap st)"
    "configUUIDToConfig (lookup_func st' (ff_Name f)) = configUUIDToConfig (lookup_func st (ff_Name f))"
    "phase = Idle \<or> phase = Decided f (func_request E f
        (deltaUp (predictedRate rps10s rps30s_earlier minRps) (totalRPSCap st (ff_Name f))) preferredGPU) \<or>
      (\<exists>nm rem upd. phase = Selected f nm rem upd \<and> mset (held_configs upd rem) \<subseteq>#
          mset (CurrentConfigs (ord_configs ords) (lookup_func st' (ff_Name f))) \<and>
        listed (fastFuncMap st') (ff_Name f) (held_configs upd rem))"
proof -
  let ?name = "ff_Name f"
  let ?predicted = "predictedRate rps10s rps30s_earlier minRps"
  let ?delta = "deltaUp ?predicted (totalRPSCap st ?name)"
  obtain up dn cnt where d: "decide (fmlookup (fastFuncMap st) ?name \<noteq> None) (totalRPSCap st ?name)
      (length (CurrentConfigs (ord_configs ords) (lookup_func st ?name))) (scaleDownConsecutiveCount (lookup_func st ?name))
      ?delta rps10s rps30s = (up, dn, cnt)" using prod_cases3 by blast
  let ?fn = "(lookup_func st ?name)\<lparr>scaleDownConsecutiveCount := cnt\<rparr>"
  let ?st = "st\<lparr>fastFuncMap := fmupd ?name ?fn (fastFuncMap st)\<rparr>"
  obtain rem upd where sel: "select_configs E ords ?fn ?predicted = (rem, upd)" by force
  have b: "books_ok X (fmupd ?name ?fn (fastFuncMap st)) (ctl_prep st)" by (rule books_new_func [OF inv]) simp
  have o: "range_order (ord_configs ords) (configUUIDToConfig ?fn)" using ords by (simp add: orders_ok_def)
  note D' = D [unfolded decide_phase_def Let_def d prod.case sel]
  have st': "st' = ?st" using D' by (auto split: if_splits)
  show "ctl_inv X st'" "ctl_prep st' = ctl_prep st" "ctl_uuid st' = ctl_uuid st" "fmlookup (fastFuncMap st') ?name \<noteq> None"
    using b by (simp_all add: ctl_inv_def st')
  show "configs_of (fastFuncMap st') = configs_of (fastFuncMap st)" unfolding st'
    by (auto simp: configs_of_def lookup_func_def fun_eq_iff split: option.splits)
  have fn: "lookup_func st' ?name = ?fn" by (simp add: st' lookup_func_def)
  show "configUUIDToConfig (lookup_func st' ?name) = configUUIDToConfig (lookup_func st ?name)" by (simp add: fn)
  have h: "mset (held_configs upd rem) \<subseteq># mset (CurrentConfigs (ord_configs ords) (lookup_func st' ?name))"
    using select_configs_held [OF srt sel] by (simp only: fn)
  have "listed (fastFuncMap st') ?name (held_configs upd rem)"
    using listed_start [OF b o select_configs_held [OF srt sel]] by (simp add: st')
  with h show "phase = Idle \<or> phase = Decided f (func_request E f ?delta preferredGPU) \<or>
      (\<exists>nm rem upd. phase = Selected f nm rem upd \<and> mset (held_configs upd rem) \<subseteq>#
          mset (CurrentConfigs (ord_configs ords) (lookup_func st' ?name)) \<and>
        listed (fastFuncMap st') ?name (held_configs upd rem))"
    using D' by (auto split: if_splits)
qed

lemma items_ok_submset: "items_ok ords cs \<Longrightarrow> mset ds \<subseteq># mset cs \<Longrightarrow> items_ok ords ds"
  using set_mset_mono unfolding items_ok_def by fastforce

text \<open>The two phases of a scale-down.\<close>

lemma run_Selected_inv:
  assumes inv: "ctl_inv X st" and fn: "fmlookup (fastFuncMap st) (ff_Name f) \<noteq> None"
    and l: "listed (fastFuncMap st) (ff_Name f) (held_configs upd rem)" "items_ok ords (held_configs upd rem)"
    and R: "run_phases 4 E ords st (Selected f nm rem upd) = Some (st', err)"
  shows "ctl_inv X st'"
proof -
  have four: "(4::nat) = Suc (Suc (Suc (Suc 0)))" by simp
  obtain st1 phase where A: "agree_phase E st f nm rem upd = Some (st1, phase)"
    using R unfolding four by (auto simp: advance_def split: Option.bind_splits)
  obtain cl upd' rem' where B: "st1 = st\<lparr>ctl_cluster := cl\<rparr>" "phase = Agreed f upd' rem'"
      "mset (held_configs upd' rem') \<subseteq># mset (held_configs upd rem)"
    using agree_phase_held [OF A] by blast
  obtain fn where fn': "fmlookup (fastFuncMap st1) (ff_Name f) = Some fn" using fn B(1) by auto
  have "st' = shrink_phase ords st1 f upd' rem'" using R A B(2) unfolding four by (simp add: advance_def)
  moreover have "ctl_inv X st1" "listed (fastFuncMap st1) (ff_Name f) (held_configs upd' rem')"
    using inv listed_submset [OF l(1) B(3)] by (simp_all add: ctl_inv_def B(1))
  ultimately show ?thesis using shrink_phase_inv [OF _ fn' _ items_ok_submset [OF l(2) B(3)]] by simp
qed

lemma UpdateFunction_inv:
  assumes inv: "ctl_inv X st" and E: "env_ok E" and ords: "orders_ok ords (lookup_func st (ff_Name f))"
    and ids: "ids_suffice E ords st (func_request E f
      (deltaUp (predictedRate rps10s rps30s_earlier minRps) (totalRPSCap st (ff_Name f))) preferredGPU)"
    and U: "UpdateFunction E ords st f rps10s rps30s rps30s_earlier minRps preferredGPU = Some (st', err)"
  shows "ctl_inv X st'"
proof -
  let ?req = "func_request E f (deltaUp (predictedRate rps10s rps30s_earlier minRps) (totalRPSCap st (ff_Name f))) preferredGPU"
  have srt: "slice_sort (env_sortConfigs E)" using E by (simp add: env_ok_def)
  obtain st1 phase where D: "decide_phase E ords st f rps10s rps30s rps30s_earlier minRps preferredGPU = (st1, phase)" by force
  then have R: "run_phases 4 E ords st1 phase = Some (st', err)" using U unfolding UpdateFunction_phases by simp
  note I = decide_phase_inv [OF inv ords srt D]
  obtain fn where fn: "fmlookup (fastFuncMap st1) (ff_Name f) = Some fn" using I(4) by auto
  consider (idle) "phase = Idle" | (up) "phase = Decided f ?req"
    | (down) nm rem upd where "phase = Selected f nm rem upd" "listed (fastFuncMap st1) (ff_Name f) (held_configs upd rem)"
      "mset (held_configs upd rem) \<subseteq># mset (CurrentConfigs (ord_configs ords) (lookup_func st1 (ff_Name f)))"
    using I(7) by blast
  then show ?thesis
  proof cases
    case idle
    then show ?thesis using I(1) R by simp
  next
    case up
    have "fmupd (ff_Name f) fn (fastFuncMap st1) = fastFuncMap st1" using fn by (intro fmap_ext) auto
    then have b: "books_ok X (fmupd (ff_Name f) fn (fastFuncMap st1)) (ctl_prep st1)" using I(1) by (simp add: ctl_inv_def)
    have i: "ids_suffice E ords st1 ?req" using ids I(2,3) by (simp add: ids_suffice_def)
    show ?thesis using R unfolding up scale_up_phases [OF fn, symmetric] by (rule scale_up_inv [OF b E i fn])
  next
    case down
    have "orders_ok ords (lookup_func st1 (ff_Name f))" using ords I(6) by (simp add: orders_ok_def)
    from held_items_ok [OF this down(3)] show ?thesis using run_Selected_inv [OF I(1,4) down(2)] R down(1) by blast
  qed
qed

end
