(* ===== verification/Release.thy ===== *)
theory Release
  imports Ownership "HOL-Library.Multiset"
begin

text \<open>
  The release of GPUs in \<^verbatim>\<open>internal/controller/fastfunc_controller.go\<close>: work items,
  \<open>processGPUReleaseItem\<close> and one pass of \<open>runGPUReleaseWorker\<close>. The work queue belongs to
  client-go; a pass returns the calls it makes on the queue. A node's answer to
  \<^verbatim>\<open>ReleaseVirtualGPU\<close> is an argument: None on error, otherwise the GPUs it reports as available.
\<close>

section \<open>Operations\<close>

text \<open>A reference is a namespace and a name; \<open>FastFuncRef\<close> is never set by the code.\<close>

record GPUReleaseWorkItem =
  GPUUUID :: string
  FastFuncRef :: "string \<times> string"
  item_NodeName :: string
  RetryCount :: int
  Timestamp :: int

definition Key :: "GPUReleaseWorkItem \<Rightarrow> string" where
  "Key item = (fst (FastFuncRef item) @ ''/'' @ snd (FastFuncRef item)) @ ''/'' @ GPUUUID item"

text \<open>The results: the node table, the set of keys in processing, whether an error is returned, and whether
  to try again.\<close>

definition processGPUReleaseItem :: "NodeManager \<Rightarrow> (string, bool) fmap \<Rightarrow> GPUReleaseWorkItem \<Rightarrow> VirtualGPU list option \<Rightarrow>
    NodeManager \<times> (string, bool) fmap \<times> bool \<times> bool" where
  "processGPUReleaseItem nm processing workItem resp =
    (let key = Key workItem;
         processing = fmupd key True processing
     in case fmlookup (nodes nm) (item_NodeName workItem) of
          None \<Rightarrow> (nm, fmdrop key processing, True, False)
        | Some node \<Rightarrow>
            (case resp of
               None \<Rightarrow> (nm, fmdrop key processing, True, True)
             | Some available \<Rightarrow>
                 let node = node\<lparr>availableGPUs := availableGPUs node @ available,
                       physicalGPUsMap := fmdrop (GPUUUID workItem) (physicalGPUsMap node)\<rparr>
                 in (nm\<lparr>nodes := fmupd (item_NodeName workItem) node (nodes nm)\<rparr>, fmdrop key processing, False, False)))"

datatype queue_call = Add GPUReleaseWorkItem | Done GPUReleaseWorkItem

text \<open>The body of the worker's loop for an item it got from the queue.\<close>

definition release_pass :: "NodeManager \<Rightarrow> (string, bool) fmap \<Rightarrow> GPUReleaseWorkItem \<Rightarrow> VirtualGPU list option \<Rightarrow> int \<Rightarrow>
    NodeManager \<times> (string, bool) fmap \<times> queue_call list" where
  "release_pass nm processing item resp now =
    (let (nm, processing, err, tryAgain) = processGPUReleaseItem nm processing item resp in
     if err \<and> tryAgain then
       if RetryCount item > 10 then (nm, processing, [Done item])
       else
         let retryCount = wrap64 (RetryCount item + 1) in
         if fmlookup processing (Key item) = None then
           (nm, processing, [Add \<lparr>GPUUUID = GPUUUID item, FastFuncRef = ([], []), item_NodeName = item_NodeName item,
              RetryCount = retryCount, Timestamp = now\<rparr>, Done item])
         else (nm, processing, [Done item])
     else (nm, processing, [Done item]))"

lemmas release_eval [go_eval] = Key_def processGPUReleaseItem_def release_pass_def

text \<open>The function of the timer that \<open>scheduleForDeletion\<close> starts.\<close>

definition timer_item :: "string \<times> string \<Rightarrow> int \<Rightarrow> GPUReleaseWorkItem" where
  "timer_item timer now = \<lparr>GPUUUID = fst timer, FastFuncRef = ([], []), item_NodeName = snd timer, RetryCount = 0, Timestamp = now\<rparr>"

section \<open>What a pass does\<close>

text \<open>The test for an item in processing is void: the key is always removed before it is looked up.\<close>

lemma process_key_removed:
  "processGPUReleaseItem nm processing item resp = (nm', processing', err, again) \<Longrightarrow> processing' = fmdrop (Key item) processing"
  by (auto simp: processGPUReleaseItem_def Let_def fmdrop_fmupd split: option.splits)

definition retry_of :: "GPUReleaseWorkItem \<Rightarrow> int \<Rightarrow> GPUReleaseWorkItem" where
  "retry_of item now = \<lparr>GPUUUID = GPUUUID item, FastFuncRef = ([], []), item_NodeName = item_NodeName item,
     RetryCount = RetryCount item + 1, Timestamp = now\<rparr>"

lemma release_pass_calls:
  assumes "int64 (RetryCount item)"
  shows "snd (snd (release_pass nm processing item resp now)) =
    (if item_NodeName item |\<in>| fmdom (nodes nm) \<and> resp = None \<and> RetryCount item \<le> 10
     then [Add (retry_of item now), Done item] else [Done item])"
proof -
  have w: "wrap64 (RetryCount item + 1) = RetryCount item + 1" if "RetryCount item \<le> 10"
    using that assms by (intro wrap64_id) (simp add: int64_def)
  show ?thesis
    using w by (auto simp: release_pass_def processGPUReleaseItem_def retry_of_def Let_def fmdrop_fmupd fmdrop_lookup_if
        fmlookup_dom_iff split: option.splits)
qed

section \<open>The worker on its queue\<close>

text \<open>The queue as a multiset: a pass takes any item that is queued (client-go hands out the oldest), and
  adding an item that is queued already changes nothing.\<close>

record worker_state =
  wk_nm :: NodeManager
  wk_processing :: "(string, bool) fmap"
  wk_queue :: "GPUReleaseWorkItem multiset"

definition q_add :: "GPUReleaseWorkItem \<Rightarrow> GPUReleaseWorkItem multiset \<Rightarrow> GPUReleaseWorkItem multiset" where
  "q_add item q = (if item \<in># q then q else add_mset item q)"

fun q_call :: "queue_call \<Rightarrow> GPUReleaseWorkItem multiset \<Rightarrow> GPUReleaseWorkItem multiset" where
  "q_call (Add item) q = q_add item q"
| "q_call (Done item) q = q"

inductive work_step :: "worker_state \<Rightarrow> worker_state \<Rightarrow> bool" where
  pass: "item \<in># wk_queue s \<Longrightarrow>
    release_pass (wk_nm s) (wk_processing s) item resp now = (nm, processing, calls) \<Longrightarrow>
    work_step s \<lparr>wk_nm = nm, wk_processing = processing, wk_queue = fold q_call calls (wk_queue s - {#item#})\<rparr>"

inductive_cases work_stepE: "work_step s t"


text \<open>How many passes an item can still need: retried items carry counts from 0 to 11.\<close>

definition passes_left :: "GPUReleaseWorkItem \<Rightarrow> nat" where
  "passes_left item = nat (12 - RetryCount item)"

definition queue_passes :: "GPUReleaseWorkItem multiset \<Rightarrow> nat" where
  "queue_passes q = (\<Sum>i \<in># q. passes_left i)"

definition retries_ok :: "GPUReleaseWorkItem multiset \<Rightarrow> bool" where
  "retries_ok q \<longleftrightarrow> (\<forall>i \<in># q. 0 \<le> RetryCount i \<and> RetryCount i \<le> 11)"

lemma queue_passes_add [simp]: "queue_passes (add_mset i q) = passes_left i + queue_passes q"
  by (simp add: queue_passes_def)

lemma queue_passes_q_add: "queue_passes (q_add i q) \<le> passes_left i + queue_passes q"
  by (simp add: q_add_def)

lemma retries_q_add: "retries_ok q \<Longrightarrow> 0 \<le> RetryCount i \<Longrightarrow> RetryCount i \<le> 11 \<Longrightarrow> retries_ok (q_add i q)"
  by (simp add: q_add_def retries_ok_def)

lemma work_step_progress:
  assumes "work_step s t" "retries_ok (wk_queue s)"
  shows "retries_ok (wk_queue t) \<and> queue_passes (wk_queue t) < queue_passes (wk_queue s)"
proof -
  obtain item resp now nm processing calls where 1: "wk_queue t = fold q_call calls (wk_queue s - {#item#})"
      "item \<in># wk_queue s" "release_pass (wk_nm s) (wk_processing s) item resp now = (nm, processing, calls)"
    using assms(1) by (elim work_stepE) auto
  let ?q = "wk_queue s - {#item#}"
  have r: "0 \<le> RetryCount item" "RetryCount item \<le> 11" using assms(2) 1(2) by (simp_all add: retries_ok_def)
  have q: "retries_ok ?q" using assms(2) unfolding retries_ok_def by (meson in_diffD)
  have m: "queue_passes (wk_queue s) = passes_left item + queue_passes ?q"
    using 1(2) by (metis insert_DiffM queue_passes_add)
  have "int64 (RetryCount item)" using r by (simp add: int64_def)
  note C = release_pass_calls [OF this, of "wk_nm s" "wk_processing s" resp now]
  show ?thesis
  proof (cases "item_NodeName item |\<in>| fmdom (nodes (wk_nm s)) \<and> resp = None \<and> RetryCount item \<le> 10")
    case True
    then have t: "wk_queue t = q_add (retry_of item now) ?q" using 1(1,3) C by simp
    have "passes_left (retry_of item now) < passes_left item"
      using r True by (simp add: passes_left_def retry_of_def)
    then have "queue_passes (wk_queue t) < queue_passes (wk_queue s)"
      using queue_passes_q_add [of "retry_of item now" ?q] unfolding t m by linarith
    moreover have "retries_ok (wk_queue t)" unfolding t using q r True by (intro retries_q_add) (simp_all add: retry_of_def)
    ultimately show ?thesis by blast
  next
    case False
    then have t: "wk_queue t = ?q" using 1(1,3) C by auto
    have "0 < passes_left item" using r by (simp add: passes_left_def)
    then show ?thesis unfolding t m using q by simp
  qed
qed

lemma work_steps_bound:
  "(work_step ^^ n) s t \<Longrightarrow> retries_ok (wk_queue s) \<Longrightarrow> retries_ok (wk_queue t) \<and> n + queue_passes (wk_queue t) \<le> queue_passes (wk_queue s)"
proof (induction n arbitrary: t)
  case (Suc n)
  then obtain u where u: "(work_step ^^ n) s u" "work_step u t" by auto
  show ?case using Suc.IH [OF u(1) Suc.prems(2)] work_step_progress [OF u(2)] by auto
qed simp

lemma work_step_exists: "wk_queue s \<noteq> {#} \<Longrightarrow> \<exists>t. work_step s t"
  by (metis multiset_nonemptyE prod_cases3 work_step.intros)

section \<open>Properties\<close>

text \<open>
  C10. The worker empties its queue: from a queue of items with retry counts up to 11 (which is all the
  code ever puts in), however the nodes answer and in whatever order the queue hands items out, no
  run of passes is longer than the sum of \<open>12 - RetryCount\<close>, so a release that always fails is
  tried twelve times; a pass is possible as long as the queue is not empty, so every run that
  cannot go on has emptied it.
\<close>

theorem release_worker_empties_queue:
  assumes "retries_ok (wk_queue s)"
  shows "(\<forall>n t. (work_step ^^ n) s t \<longrightarrow> n \<le> queue_passes (wk_queue s)) \<and>
    (\<forall>t. work_step\<^sup>*\<^sup>* s t \<and> (\<forall>u. \<not> work_step t u) \<longrightarrow> wk_queue t = {#}) \<and>
    (\<exists>t. work_step\<^sup>*\<^sup>* s t \<and> wk_queue t = {#})"
proof (intro conjI allI impI)
  show "n \<le> queue_passes (wk_queue s)" if "(work_step ^^ n) s t" for n t
    using work_steps_bound [OF that assms] by linarith
  show "wk_queue t = {#}" if "work_step\<^sup>*\<^sup>* s t \<and> (\<forall>u. \<not> work_step t u)" for t
    using that work_step_exists by blast
  have "retries_ok (wk_queue u) \<Longrightarrow> \<exists>t. work_step\<^sup>*\<^sup>* u t \<and> wk_queue t = {#}" for u
  proof (induction "queue_passes (wk_queue u)" arbitrary: u rule: less_induct)
    case less
    show ?case
    proof (cases "wk_queue u = {#}")
      case False
      then obtain v where v: "work_step u v" using work_step_exists by blast
      then show ?thesis
        using less.hyps [of v] work_step_progress [OF v less.prems] by (meson converse_rtranclp_into_rtranclp)
    qed auto
  qed
  then show "\<exists>t. work_step\<^sup>*\<^sup>* s t \<and> wk_queue t = {#}" using assms by blast
qed

theorem release_worker_empties_queue_witness:
  "\<exists>t. work_step\<^sup>*\<^sup>* \<lparr>wk_nm = NewNodeManager 5 NewEmptyQPSStore, wk_processing = fmempty,
      wk_queue = {#timer_item (''gpu-1'', ''n1'') 7#}\<rparr> t \<and> wk_queue t = {#}"
proof -
  have "retries_ok {#timer_item (''gpu-1'', ''n1'') 7#}" by (simp add: retries_ok_def timer_item_def)
  then show ?thesis
    using release_worker_empties_queue [of "\<lparr>wk_nm = NewNodeManager 5 NewEmptyQPSStore, wk_processing = fmempty,
      wk_queue = {#timer_item (''gpu-1'', ''n1'') 7#}\<rparr>"] by simp
qed

end
