(* ===== verification/Autoscaler.thy ===== *)
theory Autoscaler
  imports Release
begin

text \<open>
  The loops that drive everything, in \<^verbatim>\<open>internal/controller/fastfunc_reconcile.go\<close> and
  \<^verbatim>\<open>fastfunc_controller.go\<close>: the metrics a check is based on, the periodic check of every function,
  \<open>Reconcile\<close>, and the whole controller as a step relation in which checks, deletions,
  timers, the release worker and the connections of the nodes interleave.
\<close>

section \<open>Metrics\<close>

text \<open>Prometheus: a query at a time gives an error (None) or a vector of values.\<close>

type_synonym prometheus = "string \<Rightarrow> int \<Rightarrow> float64 list option"

definition doPromQuery :: "prometheus \<Rightarrow> string \<Rightarrow> int \<Rightarrow> float64 option" where
  "doPromQuery prom query ts = map_option (foldl (\<lambda>sum v. sum + v) (f64 0)) (prom query ts)"

definition rate_query :: "string \<Rightarrow> string \<Rightarrow> string \<Rightarrow> string" where
  "rate_query funcName namespace window =
    ''rate(gateway_function_invocation_total{function_name='' @ [CHR 0x27] @ funcName @ ''.'' @ namespace @ [CHR 0x27] @
      ''}['' @ window @ ''])''"

definition getRPSMetrics :: "prometheus \<Rightarrow> string \<Rightarrow> string \<Rightarrow> int \<Rightarrow> (float64 \<times> float64 \<times> float64) option" where
  "getRPSMetrics prom funcName namespace now = do {
     rps10s \<leftarrow> doPromQuery prom (rate_query funcName namespace ''10s'') now;
     rps30s \<leftarrow> doPromQuery prom (rate_query funcName namespace ''30s'') now;
     rps30sEarlier \<leftarrow> doPromQuery prom (rate_query funcName namespace ''30s'') (now - 30 * second);
     Some (rps10s, rps30s, rps30sEarlier)
   }"

section \<open>The periodic check\<close>

text \<open>The rate to keep up: an annotation overrides the specification; None when it does not parse.\<close>

definition min_rps :: "'p FaSTFunc \<Rightarrow> int option" where
  "min_rps fstfunc = (if gm_str (ff_Annotations fstfunc) ''min-qps'' \<noteq> []
     then Atoi (gm_str (ff_Annotations fstfunc) ''min-qps'') else Some (MinQps (Spec fstfunc)))"

definition preferred_gpu :: "'p FaSTFunc \<Rightarrow> string" where
  "preferred_gpu fstfunc = gm_str (ff_Annotations fstfunc) ''gpu-preferred''"

text \<open>One function in one round. None: the check does not return.\<close>

definition reconcile_one :: "('s, 'p, 'o) environment \<Rightarrow> prometheus \<Rightarrow> int \<Rightarrow> orders \<Rightarrow> 's controller \<Rightarrow> 'p FaSTFunc \<Rightarrow>
    's controller option" where
  "reconcile_one E prom now ords st fstfunc =
    (case min_rps fstfunc of
       None \<Rightarrow> Some st
     | Some rps \<Rightarrow>
         (case getRPSMetrics prom (ff_Name fstfunc) (ff_Namespace fstfunc) now of
            None \<Rightarrow> Some st
          | Some (rps10s, rps30s, rps30s_earlier) \<Rightarrow>
              map_option fst (UpdateFunction E ords st fstfunc rps10s rps30s rps30s_earlier (float64_of_int rps)
                (preferred_gpu fstfunc))))"

text \<open>One tick of \<open>persistentReconcile\<close> over the functions of the cluster (None: the list fails), each with the
  time and the map orders of its check.\<close>

fun reconcile_all :: "('s, 'p, 'o) environment \<Rightarrow> prometheus \<Rightarrow> 's controller \<Rightarrow> ('p FaSTFunc \<times> int \<times> orders) list \<Rightarrow>
    's controller option" where
  "reconcile_all E prom st [] = Some st"
| "reconcile_all E prom st ((fstfunc, now, ords) # items) = do {
     st \<leftarrow> reconcile_one E prom now ords st fstfunc;
     reconcile_all E prom st items
   }"

definition persistentReconcile_tick :: "('s, 'p, 'o) environment \<Rightarrow> prometheus \<Rightarrow> 's controller \<Rightarrow>
    ('p FaSTFunc \<times> int \<times> orders) list option \<Rightarrow> 's controller option" where
  "persistentReconcile_tick E prom st fastFuncList =
    (case fastFuncList of None \<Rightarrow> Some st | Some items \<Rightarrow> reconcile_all E prom st items)"

section \<open>The reconciler\<close>

text \<open>\<open>gpuReleaseQueue\<close> is nil until the first \<open>Reconcile\<close> of a function that exists; \<open>once_done\<close> is the
  state of the package's \<^verbatim>\<open>sync.Once\<close>.\<close>

record 's FaSTFuncReconciler =
  rec_ctl :: "'s controller"
  gpuReleaseQueue :: "GPUReleaseWorkItem multiset option"
  processingGPUs :: "(string, bool) fmap"
  gpuWorkerStarted :: bool
  once_done :: bool

text \<open>\<open>found\<close> is the answer to \<open>Get\<close>: None when the function is there, otherwise the error.\<close>

definition Reconcile :: "orders \<Rightarrow> client_error option \<Rightarrow> string \<Rightarrow> 's FaSTFuncReconciler \<Rightarrow>
    's FaSTFuncReconciler \<times> client_error option" where
  "Reconcile ords found name r =
    (case found of
       Some NotFound \<Rightarrow> (r\<lparr>rec_ctl := handleDeletedFaSTFunc ords (rec_ctl r) name\<rparr>, None)
     | Some err \<Rightarrow> (r, Some err)
     | None \<Rightarrow>
         let r = (if gpuReleaseQueue r = None then r\<lparr>gpuReleaseQueue := Some {#}, processingGPUs := fmempty\<rparr> else r);
             r = r\<lparr>gpuWorkerStarted := True\<rparr>;
             r = r\<lparr>once_done := True\<rparr>
         in (r, None))"

lemmas autoscaler_eval [go_eval] =
  doPromQuery_def rate_query_def getRPSMetrics_def min_rps_def preferred_gpu_def reconcile_one_def
  persistentReconcile_tick_def Reconcile_def

section \<open>The controller as a whole\<close>

text \<open>The reconciler with the clock and the open connections of the nodes.\<close>

record 's system =
  sys_rec :: "'s FaSTFuncReconciler"
  sys_clock :: int
  sys_conns :: "(nat, string) fmap"

abbreviation sys_ctl :: "'s system \<Rightarrow> 's controller" where
  "sys_ctl s \<equiv> rec_ctl (sys_rec s)"

abbreviation sys_nm :: "'s system \<Rightarrow> NodeManager" where
  "sys_nm s \<equiv> prep_nm (ctl_prep (sys_ctl s))"

definition set_ctl :: "'s controller \<Rightarrow> 's system \<Rightarrow> 's system" where
  "set_ctl c s = s\<lparr>sys_rec := (sys_rec s)\<lparr>rec_ctl := c\<rparr>\<rparr>"

definition set_nm :: "NodeManager \<Rightarrow> 's system \<Rightarrow> 's system" where
  "set_nm nm s = set_ctl ((sys_ctl s)\<lparr>ctl_prep := (ctl_prep (sys_ctl s))\<lparr>prep_nm := nm\<rparr>\<rparr>) s"

definition nm_view :: "'s system \<Rightarrow> nm_state" where
  "nm_view s = \<lparr>mgr = sys_nm s, clock = sys_clock s, conns = sys_conns s\<rparr>"

text \<open>
  The steps of the other goroutines. \<open>reconcile\<close>: a call of \<open>Reconcile\<close>. \<open>fire\<close>: a timer puts its GPU into the
  queue. \<open>work\<close>: one pass of the release worker. \<open>node\<close>: a connection of a node makes a step. The guards say
  that a map is visited key by key and that a node reports shares that are 64-bit numbers.
\<close>

inductive side_step :: "'s system \<Rightarrow> 's system \<Rightarrow> bool" where
  reconcile: "Reconcile ords found name (sys_rec s) = (r, err) \<Longrightarrow>
    (\<And>fn. fmlookup (fastFuncMap (sys_ctl s)) name = Some fn \<Longrightarrow> orders_ok ords fn) \<Longrightarrow>
    side_step s (s\<lparr>sys_rec := r\<rparr>)"
| fire: "ctl_timers (sys_ctl s) = before @ timer # after \<Longrightarrow> gpuReleaseQueue (sys_rec s) = Some q \<Longrightarrow>
    side_step s (s\<lparr>sys_rec := (sys_rec s)\<lparr>gpuReleaseQueue := Some (q_add (timer_item timer (sys_clock s)) q),
      rec_ctl := (sys_ctl s)\<lparr>ctl_timers := before @ after\<rparr>\<rparr>\<rparr>)"
| work: "gpuWorkerStarted (sys_rec s) \<Longrightarrow> gpuReleaseQueue (sys_rec s) = Some q \<Longrightarrow>
    work_step \<lparr>wk_nm = sys_nm s, wk_processing = processingGPUs (sys_rec s), wk_queue = q\<rparr> w \<Longrightarrow>
    nodes_sane (wk_nm w) \<Longrightarrow>
    side_step s (let s = set_nm (wk_nm w) s
      in s\<lparr>sys_rec := (sys_rec s)\<lparr>gpuReleaseQueue := Some (wk_queue w), processingGPUs := wk_processing w\<rparr>\<rparr>)"
| node: "nm_step (nm_view s) v \<Longrightarrow> nodes_sane (mgr v) \<Longrightarrow>
    side_step s ((set_nm (mgr v) s)\<lparr>sys_clock := clock v, sys_conns := conns v\<rparr>)"

text \<open>The packers' item counters do not run out in the check that these metrics ask for.\<close>

definition counters_suffice :: "('s, 'p, 'o) environment \<Rightarrow> prometheus \<Rightarrow> int \<Rightarrow> orders \<Rightarrow> 's controller \<Rightarrow> 'p FaSTFunc \<Rightarrow> bool" where
  "counters_suffice E prom now ords st f =
    (case min_rps f of
       None \<Rightarrow> True
     | Some rps \<Rightarrow>
         (case getRPSMetrics prom (ff_Name f) (ff_Namespace f) now of
            None \<Rightarrow> True
          | Some (rps10s, rps30s, rps30s_earlier) \<Rightarrow> ids_suffice E ords st (func_request E f
              (deltaUp (predictedRate rps10s rps30s_earlier (float64_of_int rps)) (totalRPSCap st (ff_Name f))) (preferred_gpu f))))"

text \<open>
  The controller: a step of another goroutine, or \<open>check\<close>, the periodic check of one function, possible once
  \<open>Reconcile\<close> has started the loop. The guards say that a map is visited key by key and that the packers' item
  counters do not run out in a check.
\<close>

inductive sys_step :: "('s, 'p, 'o) environment \<Rightarrow> 's system \<Rightarrow> 's system \<Rightarrow> bool" for E :: "('s, 'p, 'o) environment" where
  side: "side_step s t \<Longrightarrow> sys_step E s t"
| check: "once_done (sys_rec s) \<Longrightarrow> orders_ok ords (lookup_func (sys_ctl s) (ff_Name f)) \<Longrightarrow>
    counters_suffice E prom now ords (sys_ctl s) f \<Longrightarrow>
    reconcile_one E prom now ords (sys_ctl s) f = Some c \<Longrightarrow> sys_step E s (set_ctl c s)"

inductive_cases side_stepE: "side_step s t"
inductive_cases sys_stepE: "sys_step E s t"

definition sys_start :: "int \<Rightarrow> QPSStore \<Rightarrow> 's \<Rightarrow> int \<Rightarrow> 's system" where
  "sys_start itv store cluster t =
    \<lparr>sys_rec = \<lparr>rec_ctl = \<lparr>fastFuncMap = fmempty, ctl_prep = \<lparr>prep_nm = NewNodeManager itv store, prep_heap = [], prep_calls = 0\<rparr>,
         ctl_uuid = 0, ctl_cluster = cluster, ctl_timers = []\<rparr>,
       gpuReleaseQueue = None, processingGPUs = fmempty, gpuWorkerStarted = False, once_done = False\<rparr>,
     sys_clock = t, sys_conns = fmempty\<rparr>"

inductive sys_reachable :: "('s, 'p, 'o) environment \<Rightarrow> int \<Rightarrow> QPSStore \<Rightarrow> 's system \<Rightarrow> bool"
  for E :: "('s, 'p, 'o) environment" and itv :: int and store :: QPSStore where
  start: "sys_reachable E itv store (sys_start itv store cluster t)"
| step: "sys_reachable E itv store s \<Longrightarrow> sys_step E s s' \<Longrightarrow> sys_reachable E itv store s'"

section \<open>The invariant\<close>

text \<open>The release queue exists before anything needs it, and its items have been retried at most eleven times.\<close>

definition queue_inv :: "'s FaSTFuncReconciler \<Rightarrow> bool" where
  "queue_inv r \<longleftrightarrow> processingGPUs r = fmempty \<and> (\<forall>q. gpuReleaseQueue r = Some q \<longrightarrow> retries_ok q) \<and>
     (gpuReleaseQueue r = None \<longrightarrow> fastFuncMap (rec_ctl r) = fmempty \<and> ctl_timers (rec_ctl r) = [] \<and>
        \<not> gpuWorkerStarted r \<and> \<not> once_done r)"

definition sys_inv :: "Config list \<Rightarrow> 's system \<Rightarrow> bool" where
  "sys_inv X s \<longleftrightarrow> ctl_inv X (sys_ctl s) \<and> queue_inv (sys_rec s)"

lemma ctl_inv_timers [simp]: "ctl_inv X (c\<lparr>ctl_timers := t\<rparr>) = ctl_inv X c"
  by (simp add: ctl_inv_def)

lemma handleDeleted_unknown: "fmlookup (fastFuncMap st) name = None \<Longrightarrow> handleDeletedFaSTFunc ords st name = st"
  by (simp add: handleDeletedFaSTFunc_def)

lemma sys_inv_reconcile:
  assumes "sys_inv X s" "Reconcile ords found name (sys_rec s) = (r, err)"
    and "\<And>fn. fmlookup (fastFuncMap (sys_ctl s)) name = Some fn \<Longrightarrow> orders_ok ords fn"
  shows "sys_inv X (s\<lparr>sys_rec := r\<rparr>)"
proof -
  have inv: "ctl_inv X (sys_ctl s)" "queue_inv (sys_rec s)" using assms(1) by (simp_all add: sys_inv_def)
  consider (deleted) "found = Some NotFound" | (other) e where "found = Some (OtherError e)" | (there) "found = None"
    by (metis client_error.exhaust option.exhaust)
  then show ?thesis
  proof cases
    case deleted
    then have r: "r = (sys_rec s)\<lparr>rec_ctl := handleDeletedFaSTFunc ords (sys_ctl s) name\<rparr>"
      using assms(2) by (simp add: Reconcile_def)
    have "queue_inv r"
    proof (cases "gpuReleaseQueue (sys_rec s)")
      case None
      then have "fmlookup (fastFuncMap (sys_ctl s)) name = None" using inv(2) by (simp add: queue_inv_def)
      then show ?thesis using inv(2) handleDeleted_unknown [of "sys_ctl s" name ords] r by simp
    qed (use inv(2) r in \<open>simp add: queue_inv_def\<close>)
    then show ?thesis using handleDeleted_inv [OF inv(1) assms(3)] r by (simp add: sys_inv_def)
  next
    case other
    then show ?thesis using assms(1,2) by (auto simp: Reconcile_def)
  next
    case there
    then show ?thesis
      using assms(2) inv by (auto simp: Reconcile_def sys_inv_def queue_inv_def retries_ok_def Let_def split: if_splits)
  qed
qed

lemma reconcile_one_inv:
  assumes "ctl_inv X st" "env_ok E" "orders_ok ords (lookup_func st (ff_Name f))"
    and "counters_suffice E prom now ords st f"
    and "reconcile_one E prom now ords st f = Some st'"
  shows "ctl_inv X st'"
  using assms(1,4,5) UpdateFunction_inv [OF assms(1-3)]
  by (auto simp: reconcile_one_def counters_suffice_def split: option.splits prod.splits)

lemma maps_ok_submaps:
  assumes "maps_ok heap nm"
    and "\<And>n node' u a. fmlookup (nodes nm') n = Some node' \<Longrightarrow> fmlookup (physicalGPUsMap node') u = Some a \<Longrightarrow>
      \<exists>node. fmlookup (nodes nm) n = Some node \<and> fmlookup (physicalGPUsMap node) u = Some a"
  shows "maps_ok heap nm'"
  using assms unfolding maps_ok_def by blast

lemma release_pass_maps:
  assumes "maps_ok heap nm" "release_pass nm processing item resp now = (nm', processing', calls)"
  shows "maps_ok heap nm'"
  by (rule maps_ok_submaps [OF assms(1)])
    (use assms(2) in \<open>auto simp: release_pass_def processGPUReleaseItem_def Let_def fmdrop_lookup_if
      split: option.splits if_splits\<close>)

lemma release_pass_processing:
  "release_pass nm fmempty item resp now = (nm', processing', calls) \<Longrightarrow> processing' = fmempty"
  by (auto simp: release_pass_def processGPUReleaseItem_def Let_def fmdrop_fmupd split: option.splits if_splits)

lemma heartbeat_round_maps:
  assumes "maps_ok heap nm" "heartbeat_round nm nodeName msg now = (nm', b)"
  shows "maps_ok heap nm'"
proof -
  have "nm' = mark_not_ready nm nodeName \<or> nm' = fst (UpdateHeartbeat nm nodeName now)"
    using assms(2) by (auto simp: heartbeat_round_def split: heartbeat.splits if_splits)
  then show ?thesis by (elim disjE; intro maps_ok_submaps [OF assms(1)]) (auto split: if_splits)
qed

lemma handshake_maps:
  "maps_ok heap nm \<Longrightarrow> handshake nm env now = Some (nm', name) \<Longrightarrow> maps_ok heap nm'"
  by (rule maps_ok_submaps) (auto simp: handshake_def Let_def split: option.splits if_splits)

lemma CheckNodeLiveness_maps: "maps_ok heap nm \<Longrightarrow> maps_ok heap (CheckNodeLiveness nm now)"
  by (rule maps_ok_submaps) (auto simp: CheckNodeLiveness_def split: if_splits)

lemma nm_step_maps:
  assumes "nm_step v w" "maps_ok heap (mgr v)" shows "maps_ok heap (mgr w)"
  using assms(1) by (elim nm_stepE) (simp_all add: assms(2) handshake_maps [OF assms(2)] heartbeat_round_maps [OF assms(2)]
      CheckNodeLiveness_maps [OF assms(2)])

lemma sys_inv_set_ctl:
  assumes "sys_inv X s" "once_done (sys_rec s)" "ctl_inv Y c" shows "sys_inv Y (set_ctl c s)"
proof -
  have "gpuReleaseQueue (sys_rec s) \<noteq> None" using assms(1,2) by (auto simp: sys_inv_def queue_inv_def)
  then show ?thesis using assms(1,3) by (auto simp: sys_inv_def queue_inv_def set_ctl_def)
qed

lemma side_step_inv:
  assumes "side_step s t" "sys_inv X s" shows "sys_inv X t"
  using assms(1)
proof (cases rule: side_step.cases)
  case (reconcile ords found name r err)
  then show ?thesis using sys_inv_reconcile [OF assms(2)] by blast
next
  case (fire before timer after q)
  then show ?thesis
    using assms(2) retries_q_add [of q "timer_item timer (sys_clock s)"]
    by (auto simp: sys_inv_def queue_inv_def timer_item_def)
next
  case (work q w)
  have q: "retries_ok q" "processingGPUs (sys_rec s) = fmempty" and m: "maps_ok (ctl_heap (sys_ctl s)) (sys_nm s)"
    using assms(2) work(3) books_okD(2) [of X "fastFuncMap (sys_ctl s)" "ctl_prep (sys_ctl s)"]
    by (auto simp: sys_inv_def queue_inv_def ctl_inv_def)
  from work(4) obtain item resp now nm processing calls where
      p: "release_pass (sys_nm s) (processingGPUs (sys_rec s)) item resp now = (nm, processing, calls)"
      and w: "wk_nm w = nm" "wk_processing w = processing"
    by (elim work_stepE) auto
  have "retries_ok (wk_queue w)" using work_step_progress [OF work(4)] q(1) by simp
  moreover have "wk_processing w = fmempty" using release_pass_processing p q(2) w by metis
  moreover have "maps_ok (ctl_heap (sys_ctl s)) (wk_nm w)" using release_pass_maps [OF m p] w by simp
  ultimately show ?thesis
    using assms(2) work by (simp add: sys_inv_def queue_inv_def ctl_inv_def books_ok_def set_nm_def set_ctl_def Let_def)
next
  case (node v)
  have "maps_ok (ctl_heap (sys_ctl s)) (mgr v)"
    using nm_step_maps [OF node(2)] assms(2) by (simp add: nm_view_def sys_inv_def ctl_inv_def books_ok_def)
  then show ?thesis
    using assms(2) node by (simp add: sys_inv_def queue_inv_def ctl_inv_def books_ok_def set_nm_def set_ctl_def)
qed

lemma sys_step_inv:
  assumes "sys_step E s t" "env_ok E" "sys_inv X s" shows "sys_inv X t"
  using assms(1)
proof (cases rule: sys_step.cases)
  case (check ords f prom now c)
  have "ctl_inv X c" using reconcile_one_inv [OF _ assms(2) check(3,4,5)] assms(3) by (simp add: sys_inv_def)
  then show ?thesis using sys_inv_set_ctl [OF assms(3)] check(1,2) by simp
qed (use side_step_inv assms(3) in blast)

lemma sys_inv_start: "sys_inv [] (sys_start itv store cluster t)"
  by (simp add: sys_inv_def sys_start_def queue_inv_def ctl_inv_def books_ok_def budget_def maps_ok_def nodes_sane_def
      owners_ok_def entries_def configs_of_def NewNodeManager_def Let_def split: sum.splits)

lemma sys_inv_reachable: "sys_reachable E itv store s \<Longrightarrow> env_ok E \<Longrightarrow> sys_inv [] s"
  by (induction rule: sys_reachable.induct) (auto intro: sys_inv_start sys_step_inv)

section \<open>A check returns\<close>

text \<open>The FaSTPods of the cluster have a label map: a missing one makes an update write to a nil map, which panics.\<close>

definition labels_present :: "('s, 'p, 'o) kube_client \<Rightarrow> bool" where
  "labels_present kc \<longleftrightarrow> (\<forall>s n ns s' pod. kube_Get kc s n ns = (s', Inr pod) \<longrightarrow> pod_Labels pod \<noteq> None)"

lemma update_pods_returns: "labels_present kc \<Longrightarrow> \<exists>s' upd. update_pods kc name s infos = Some (s', upd)"
proof (induction infos arbitrary: s)
  case (Cons info infos)
  obtain s1 r where g: "kube_Get kc s (getFastPodName name (cfg_UUID (ri_Config info))) ''fast-gshare-fn'' = (s1, r)" by force
  obtain s2 upd where u: "update_pods kc name s1 infos = Some (s2, upd)" using Cons.IH [OF Cons.prems] by blast
  show ?case
  proof (cases r)
    case (Inl e)
    then show ?thesis using g u by (cases e) simp_all
  next
    case (Inr pod)
    then obtain labels where l: "pod_Labels pod = Some labels" using Cons.prems g unfolding labels_present_def by blast
    let ?labels = "fmupd ''com.openfaas.scale.min'' (Itoa (NewReplica info))
      (fmupd ''com.openfaas.scale.max'' (Itoa (NewReplica info)) labels)"
    obtain s3 err where k: "kube_Update kc s1 (pod\<lparr>pod_Replicas := wrap32 (NewReplica info), pod_Labels := Some ?labels\<rparr>) = (s3, err)"
      by force
    obtain s4 upd4 where "update_pods kc name s3 infos = Some (s4, upd4)" using Cons.IH [OF Cons.prems] by blast
    then show ?thesis using g Inr l k by (cases err) (simp_all add: Let_def)
  qed
qed simp

lemma scale_down_returns:
  assumes "labels_present (env_client E)" shows "\<exists>c. scale_down E ords st name fn newRPS = Some c"
proof -
  let ?configs = "sorted_configs (env_sortConfigs E) (CurrentConfigs (ord_configs ords) fn)"
  obtain R U L where s: "select_loop newRPS ?configs (total_rps ?configs) = (R, U, L)" using prod_cases3 by blast
  obtain c1 rem where r: "remove_pods (env_client E) (fn_Name fn) (ctl_cluster st) R = (c1, rem)" by force
  obtain c2 upd where "update_pods (env_client E) (fn_Name fn) c1 U = Some (c2, upd)" using update_pods_returns [OF assms] by blast
  then have "scaleDownFaSTFunc (env_client E) (env_sortConfigs E) (ord_configs ords) (ctl_cluster st) fn newRPS = Some (c2, upd, rem)"
    by (simp add: scaleDownFaSTFunc_def s r)
  then show ?thesis by (simp add: scale_down_def split: prod.split)
qed

lemma scale_up_returns:
  assumes "ctl_inv X st" "env_ok E" shows "\<exists>r. scale_up E ords st f fn req = Some r"
proof -
  have "maps_ok (ctl_heap st) (prep_nm (ctl_prep st))" using assms(1) books_okD(2) unfolding ctl_inv_def by blast
  then have v: "\<forall>name node. fmlookup (nodes (prep_nm (ctl_prep st))) name = Some node \<longrightarrow> map_valid (ctl_heap st) node"
    unfolding maps_ok_def map_valid_def by blast
  have "slice_sort (env_sortGPUs E)" using assms(2) by (simp add: env_ok_def)
  from GetConfigs_facts [OF this v] obtain new n r where "GetConfigs (env_types E) (env_sortGPUs E) (env_uuids E)
      (ord_nodes ords) (prep_nm (ctl_prep st)) (ctl_heap st) (ctl_uuid st) req = Some (ctl_heap st @ new, n, r)" by blast
  then show ?thesis by (cases r) (simp_all add: scale_up_def Let_def split: prod.split option.split)
qed

lemma reconcile_one_returns:
  assumes "ctl_inv X st" "env_ok E" "labels_present (env_client E)"
  shows "\<exists>c. reconcile_one E prom now ords st f = Some c"
proof -
  have "\<exists>r. UpdateFunction E ords st f a b d m pref = Some r" for a b d m pref
  proof -
    have "ctl_inv X (st\<lparr>fastFuncMap := fmupd (ff_Name f) ((lookup_func st (ff_Name f))\<lparr>scaleDownConsecutiveCount := n\<rparr>)
        (fastFuncMap st)\<rparr>)" for n
      using books_new_func [OF assms(1)] by (simp add: ctl_inv_def)
    from scale_up_returns [OF this assms(2)] scale_down_returns [OF assms(3)]
    show ?thesis unfolding UpdateFunction_def Let_def by (auto split: prod.split)
  qed
  then show ?thesis unfolding reconcile_one_def by (auto split: option.split prod.split)
qed

text \<open>A tick of \<open>persistentReconcile\<close> is a run of such checks, one function after the other, and returns as well.\<close>

fun checks_guard :: "('s, 'p, 'o) environment \<Rightarrow> prometheus \<Rightarrow> 's controller \<Rightarrow> ('p FaSTFunc \<times> int \<times> orders) list \<Rightarrow> bool" where
  "checks_guard E prom st [] = True"
| "checks_guard E prom st ((f, now, ords) # items) =
     (orders_ok ords (lookup_func st (ff_Name f)) \<and> counters_suffice E prom now ords st f \<and>
      (case reconcile_one E prom now ords st f of None \<Rightarrow> True | Some st \<Rightarrow> checks_guard E prom st items))"

lemma set_ctl_ctl [simp]: "sys_ctl (set_ctl c s) = c" "set_ctl d (set_ctl c s) = set_ctl d s" "set_ctl (sys_ctl s) s = s"
    "once_done (sys_rec (set_ctl c s)) = once_done (sys_rec s)"
  by (simp_all add: set_ctl_def)

lemma reconcile_all_run:
  assumes "sys_reachable E itv store s" "env_ok E" "labels_present (env_client E)" "once_done (sys_rec s)"
    and "checks_guard E prom (sys_ctl s) items"
  shows "\<exists>c. reconcile_all E prom (sys_ctl s) items = Some c \<and> sys_reachable E itv store (set_ctl c s)"
  using assms(1,4,5)
proof (induction items arbitrary: s)
  case (Cons item items)
  obtain f now ords where i: "item = (f, now, ords)" using prod_cases3 by blast
  have "ctl_inv [] (sys_ctl s)" using sys_inv_reachable [OF Cons.prems(1) assms(2)] by (simp add: sys_inv_def)
  from reconcile_one_returns [OF this assms(2,3)] obtain c where c: "reconcile_one E prom now ords (sys_ctl s) f = Some c" by blast
  have g: "orders_ok ords (lookup_func (sys_ctl s) (ff_Name f))" "counters_suffice E prom now ords (sys_ctl s) f"
    "checks_guard E prom c items" using Cons.prems(3) by (simp_all add: i c)
  have "sys_reachable E itv store (set_ctl c s)"
    using sys_reachable.step [OF Cons.prems(1) sys_step.check [OF Cons.prems(2) g(1,2) c]] .
  from Cons.IH [OF this] Cons.prems(2) g(3) show ?case by (simp add: i c)
qed simp

lemma tick_run:
  assumes "sys_reachable E itv store s" "env_ok E" "labels_present (env_client E)" "once_done (sys_rec s)"
    and "\<And>items. fastFuncList = Some items \<Longrightarrow> checks_guard E prom (sys_ctl s) items"
  shows "\<exists>c. persistentReconcile_tick E prom (sys_ctl s) fastFuncList = Some c \<and> sys_reachable E itv store (set_ctl c s)"
  using reconcile_all_run [OF assms(1-4)] assms(1,5) by (cases fastFuncList) (auto simp: persistentReconcile_tick_def)

section \<open>Properties\<close>

text \<open>
  C1. The books of the whole controller are kept in every reachable state, however checks, deletions,
  timers, release passes and node connections interleave and whatever the cluster, the nodes and
  Prometheus answer: every configuration any function lists refers to a GPU record and owns all its
  items in that GPU's packer; no two configurations, of the same or of different functions, own the
  same item; every packer is well-formed; and the release queue is there whenever a timer may use it.
\<close>

theorem autoscaler_books:
  assumes "sys_reachable E itv store s" "env_ok E"
  shows "(\<forall>k c. configs_of (fastFuncMap (sys_ctl s)) k = Some c \<longrightarrow> owned (ctl_heap (sys_ctl s)) c) \<and>
    (\<forall>k l c d. configs_of (fastFuncMap (sys_ctl s)) k = Some c \<and> configs_of (fastFuncMap (sys_ctl s)) l = Some d \<and> k \<noteq> l \<longrightarrow>
      no_sharing c d) \<and>
    (\<forall>g \<in> set (ctl_heap (sys_ctl s)). wf_packer (Usage g)) \<and>
    (ctl_timers (sys_ctl s) \<noteq> [] \<longrightarrow> gpuReleaseQueue (sys_rec s) \<noteq> None)"
proof -
  have inv: "ctl_inv [] (sys_ctl s)" "queue_inv (sys_rec s)" using sys_inv_reachable [OF assms] by (simp_all add: sys_inv_def)
  note B = books_okD [OF inv(1) [unfolded ctl_inv_def]]
  have "\<forall>k c. entries [] (fastFuncMap (sys_ctl s)) (Inl k) = Some c \<longrightarrow> owned (ctl_heap (sys_ctl s)) c"
      "\<forall>k l c d. entries [] (fastFuncMap (sys_ctl s)) (Inl k) = Some c \<and> entries [] (fastFuncMap (sys_ctl s)) (Inl l) = Some d \<and>
        k \<noteq> l \<longrightarrow> no_sharing c d"
    using owners_okD [OF B(4)] by blast+
  then show ?thesis using budgetD(2) [OF B(1)] inv(2) unfolding queue_inv_def entries_Inl by blast
qed


text \<open>
  A deleted function comes back. The loop over the functions uses the list it has fetched before; a check of a function
  that was deleted since makes a new record for it, which no later call of \<open>Reconcile\<close> will remove.
\<close>

theorem check_revives_deleted:
  assumes "UpdateFunction E ords (handleDeletedFaSTFunc ords' st (ff_Name f)) f rps10s rps30s rps30s_earlier minRps preferredGPU =
    Some (st', err)"
  shows "fmlookup (fastFuncMap st') (ff_Name f) \<noteq> None"
proof -
  let ?st = "handleDeletedFaSTFunc ords' st (ff_Name f)"
  have "fmlookup (fastFuncMap ?st) (ff_Name f) = None"
    by (auto simp: handleDeletedFaSTFunc_def Let_def fmdrop_lookup_if split: option.split)
  then show ?thesis
    using assms by (auto simp: UpdateFunction_def decide_up_if_new scale_up_def Let_def
        split: Option.bind_splits sum.splits prod.splits option.splits)
qed

definition example_environment :: "(unit, unit, unit) environment" where
  "example_environment = \<lparr>env_types = \<lparr>AllocationTypeNone = [], AllocationTypeExclusive = ''exclusive'',
       AllocationTypeFastPod = ''fastpod'', AllocationTypeMPS = ''mps''\<rparr>, env_GetAllocationType = (\<lambda>s. ''fastpod''),
     env_sortGPUs = insertionSort, env_sortConfigs = insertionSort, env_uuids = Itoa \<circ> int, env_answers = (\<lambda>n c u p. None),
     env_client = empty_cluster, env_keys = example_keys, env_setref = (\<lambda>f pod. Some pod)\<rparr>"

lemma example_env_ok: "env_ok example_environment"
proof -
  have "slice_sort (insertionSort :: (Config \<Rightarrow> Config \<Rightarrow> bool) \<Rightarrow> _)" "slice_sort (insertionSort :: (nat \<Rightarrow> nat \<Rightarrow> bool) \<Rightarrow> _)"
    by unfold_locales
  then show ?thesis by (simp add: env_ok_def example_environment_def answers_sane_def)
qed



text \<open>
  C14. Scaling down books the wrong rate: with 10 and 100 replicas of one request per second each and a
  load of 2, the third check in a row removes the small configuration and cuts the other one down to
  2 replicas, but the capacity of the function is then recorded as 98 requests per second and the
  configuration as having 100 replicas; a load of 40 afterwards would not make it scale up.
\<close>

definition example_running :: "unit controller" where
  "example_running = \<lparr>fastFuncMap = fmupd ''bert'' example_fn fmempty,
     ctl_prep = \<lparr>prep_nm = NewNodeManager 5 NewEmptyQPSStore, prep_heap = [example_gpu], prep_calls = 0\<rparr>,
     ctl_uuid = 0, ctl_cluster = (), ctl_timers = []\<rparr>"

definition example_orders :: orders where
  "example_orders = \<lparr>ord_nodes = [], ord_configs = [''a'', ''b''], ord_items = (\<lambda>c. [])\<rparr>"

lemma example_rates:
  "predictedRate (f64 2) (f64 2) (f64 1) = f64 2" "deltaUp (f64 2) (f64 110) = f64 (- 107)" "loadRatio (f64 2) (f64 110) < f64 (1/2)"
  "\<not> f64 (- 107) > f64 0" "f64 2 - f64 2 \<le> f64 0" "f64 110 - f64 2 = f64 108" "f64 108 - f64 10 = f64 98"
  "\<not> deltaUp (predictedRate (f64 40) (f64 40) (f64 1)) (f64 98) > f64 0"
  by (simp_all add: predictedRate_def deltaUp_def loadRatio_def SCALE_FACTOR_def math_Max_def is_zero_def f64_eval)

lemma example_decide: "decide True (f64 110) 2 2 (f64 (- 107)) (f64 2) (f64 2) = (False, True, 0)"
  using example_rates(3-5)
  by (simp add: decide_def Let_def SCALE_DOWN_THRESHOLD_def SCALE_DOWN_CONSECUTIVE_REQUIRED_def wrap64_eval)

lemma example_reduce:
  "ReduceConfig [] g c n = (g', c', e) \<Longrightarrow> c' = c"
  "DeallocateConfig [] g c = (g', c', e) \<Longrightarrow> c' = c"
  by (auto simp: ReduceConfig_def DeallocateConfig_def Let_def split: if_splits)


text \<open>What a reduction leaves, if the count of the configuration is not that of its items.\<close>

lemma Reduce_leaves:
  assumes "range_order order (shelfItems c)" "ReduceConfig order g c k = (g', c', e)" "int64 (AllocatedReplica c)" "0 \<le> k" "k < AllocatedReplica c"
  shows "int (gm_len (shelfItems c')) = max 0 (int (gm_len (shelfItems c)) - (AllocatedReplica c - k))"
    "AllocatedReplica c' = AllocatedReplica c" "cfg_UUID c' = cfg_UUID c"
proof -
  let ?d = "AllocatedReplica c - k"
  have w: "wrap64 ?d = ?d" using assms(3-5) by (intro wrap64_id) (simp add: int64_def)
  have c': "c' = c\<lparr>shelfItems := fold fmdrop (take (nat ?d) order) (shelfItems c)\<rparr>"
    using assms(2,5) w by (auto simp: ReduceConfig_def reduce_loop_eq Let_def)
  have "range_order (drop (nat ?d) order) (shelfItems c')" unfolding c' by (simp, rule range_order_drop) (simp add: assms(1))
  then show "int (gm_len (shelfItems c')) = max 0 (int (gm_len (shelfItems c)) - ?d)"
    using range_order_length [OF assms(1)] range_order_length assms(5) by fastforce
  show "AllocatedReplica c' = AllocatedReplica c" "cfg_UUID c' = cfg_UUID c" unfolding c' by simp_all
qed

lemma reduce_one_stores:
  assumes "reduce_one ords info (st, fn) = (st', fn')"
  obtains g c e where "ReduceConfig (ord_items ords (ri_Config info)) (ctl_heap st ! associatedGpu (ri_Config info)) (ri_Config info) (NewReplica info) =
      (g, c, e)" "fmlookup (configUUIDToConfig fn') (cfg_UUID c) = Some c"
proof -
  obtain g c e where r: "ReduceConfig (ord_items ords (ri_Config info)) (ctl_heap st ! associatedGpu (ri_Config info)) (ri_Config info)
      (NewReplica info) = (g, c, e)" using prod_cases3 by blast
  then have "fmlookup (configUUIDToConfig fn') (cfg_UUID c) = Some c" using assms by (auto simp: reduce_one_def Let_def)
  with r show ?thesis using that by blast
qed

text \<open>
  C15. A second reduction strands replicas. Reducing a configuration leaves its count of replicas as it was, so the next reduction
  takes the difference to the old count away once more: after a reduction of \<open>n\<close> replicas to \<open>m\<close>, one to any \<open>k\<close> replicas
  leaves \<open>m + k - n\<close> items, or none, and in every case fewer than the \<open>k\<close> replicas that its FaSTPod goes on
  running. What other goroutines do to the controller in between does not matter.
\<close>

theorem second_reduction_strands_replicas:
  assumes "AllocatedReplica c = int (gm_len (shelfItems c))" "int64 (AllocatedReplica c)" "0 < m" "m < AllocatedReplica c"
    and "0 < k" "k < AllocatedReplica c" "\<forall>d. range_order (ord_items ords1 d) (shelfItems d)" "\<forall>d. range_order (ord_items ords2 d) (shelfItems d)"
    and "reduce_one ords1 \<lparr>ri_Config = c, NewReplica = m, ReducedDelta = d1\<rparr> (st, fn) = (st1, fn1)"
    and "fmlookup (configUUIDToConfig fn1) (cfg_UUID c) = Some c1"
    and "reduce_one ords2 \<lparr>ri_Config = c1, NewReplica = k, ReducedDelta = d2\<rparr> (st1', fn1) = (st2, fn2)"
    and "fmlookup (configUUIDToConfig fn2) (cfg_UUID c) = Some c2"
  shows "int (gm_len (shelfItems c1)) = m \<and> int (gm_len (shelfItems c2)) = max 0 (m + k - AllocatedReplica c) \<and>
    int (gm_len (shelfItems c2)) < k"
proof -
  obtain g d e where r: "ReduceConfig (ord_items ords1 c) (ctl_heap st ! associatedGpu c) c m = (g, d, e)"
      "fmlookup (configUUIDToConfig fn1) (cfg_UUID d) = Some d"
    using reduce_one_stores [OF assms(9)] by auto
  note L = Reduce_leaves [OF spec [OF assms(7)] r(1) assms(2) less_imp_le [OF assms(3)] assms(4)]
  have d: "d = c1" using r(2) assms(10) L(3) by simp
  obtain g' d' e' where r': "ReduceConfig (ord_items ords2 c1) (ctl_heap st1' ! associatedGpu c1) c1 k = (g', d', e')"
      "fmlookup (configUUIDToConfig fn2) (cfg_UUID d') = Some d'"
    using reduce_one_stores [OF assms(11)] by auto
  have A: "AllocatedReplica c1 = AllocatedReplica c" "cfg_UUID c1 = cfg_UUID c" using L(2,3) d by simp_all
  note L' = Reduce_leaves [OF spec [OF assms(8)] r'(1) assms(2) [folded A(1)] less_imp_le [OF assms(5)] assms(6) [folded A(1)]]
  have "d' = c2" using r'(2) assms(12) L'(3) A(2) by simp
  then show ?thesis using L(1) L'(1) assms(1,3-6) A(1) d by auto
qed

text \<open>Two replicas, reduced to one twice: the one that is left has no share.\<close>

definition item_order :: "Config \<Rightarrow> int list" where
  "item_order c = sorted_list_of_fset (fmdom (shelfItems c))"

lemma item_order: "range_order (item_order c) (shelfItems c)"
  unfolding range_order_def item_order_def by (simp add: fset_inject [symmetric] fset_of_list.rep_eq sorted_list_of_fset.rep_eq)

definition two_replicas :: Config where
  "two_replicas = example_config\<lparr>cfg_UUID := ''b'', shelfItems := fmupd 1 True (fmupd 2 True fmempty), AllocatedReplica := 2\<rparr>"

definition item_orders :: orders where
  "item_orders = \<lparr>ord_nodes = [], ord_configs = [], ord_items = item_order\<rparr>"

theorem second_reduction_strands_replicas_witness:
  "\<exists>st1 fn1 c1 st2 fn2 c2.
    reduce_one item_orders \<lparr>ri_Config = two_replicas, NewReplica = 1, ReducedDelta = f64 1\<rparr> (example_running, example_fn) = (st1, fn1) \<and>
    fmlookup (configUUIDToConfig fn1) ''b'' = Some c1 \<and> gm_len (shelfItems c1) = 1 \<and>
    reduce_one item_orders \<lparr>ri_Config = c1, NewReplica = 1, ReducedDelta = f64 1\<rparr> (st1, fn1) = (st2, fn2) \<and>
    fmlookup (configUUIDToConfig fn2) ''b'' = Some c2 \<and> gm_len (shelfItems c2) = 0"
proof -
  let ?i = "\<lambda>c. \<lparr>ri_Config = c, NewReplica = 1, ReducedDelta = f64 1\<rparr>"
  obtain st1 fn1 where s1: "reduce_one item_orders (?i two_replicas) (example_running, example_fn) = (st1, fn1)" by force
  have c: "cfg_UUID two_replicas = ''b''" "AllocatedReplica two_replicas = 2" "gm_len (shelfItems two_replicas) = 2"
      "int64 (AllocatedReplica two_replicas)"
    by (simp_all add: two_replicas_def gm_len_upd int64_def)
  have o: "\<forall>d. range_order (ord_items item_orders d) (shelfItems d)" by (simp add: item_orders_def item_order)
  have L: "ReduceConfig (ord_items item_orders d) g d 1 = (g', d', e) \<Longrightarrow> int64 (AllocatedReplica d) \<Longrightarrow> 1 < AllocatedReplica d \<Longrightarrow>
      cfg_UUID d' = cfg_UUID d \<and> AllocatedReplica d' = AllocatedReplica d" for g d g' d' e
    using Reduce_leaves(2,3) [OF spec [OF o]] by simp
  obtain g c1 e where r1: "ReduceConfig (ord_items item_orders two_replicas) (ctl_heap example_running ! associatedGpu two_replicas)
      two_replicas 1 = (g, c1, e)" "fmlookup (configUUIDToConfig fn1) (cfg_UUID c1) = Some c1"
    using reduce_one_stores [OF s1] by auto
  have c1: "fmlookup (configUUIDToConfig fn1) ''b'' = Some c1" "cfg_UUID c1 = ''b''" "AllocatedReplica c1 = 2"
    using r1(2) L [OF r1(1) c(4)] c(1,2) by simp_all
  obtain st2 fn2 where s2: "reduce_one item_orders (?i c1) (st1, fn1) = (st2, fn2)" by force
  obtain g' c2 e' where r2: "ReduceConfig (ord_items item_orders c1) (ctl_heap st1 ! associatedGpu c1) c1 1 = (g', c2, e')"
      "fmlookup (configUUIDToConfig fn2) (cfg_UUID c2) = Some c2"
    using reduce_one_stores [OF s2] by auto
  have c2: "fmlookup (configUUIDToConfig fn2) ''b'' = Some c2" using r2(2) L [OF r2(1)] c1(2,3) by (simp add: int64_def)
  have "int (gm_len (shelfItems c1)) = 1 \<and> int (gm_len (shelfItems c2)) = max 0 (1 + 1 - AllocatedReplica two_replicas) \<and>
      int (gm_len (shelfItems c2)) < 1"
    by (rule second_reduction_strands_replicas [OF _ c(4) _ _ _ _ o o s1 _ s2]) (simp_all add: c c1 c2)
  then show ?thesis using s1 s2 c1(1) c2 c(2)
    by - (rule exI [of _ st1], rule exI [of _ fn1], rule exI [of _ c1], rule exI [of _ st2], rule exI [of _ fn2], rule exI [of _ c2], simp)
qed

text \<open>
  C12. When a function is scaled down: a check scales up exactly if the predicted rate with its reserve
  exceeds the capacity or the function is new, and then never down; it scales down exactly if this is
  the third check in a row that finds the load below half the capacity, more than one configuration
  and no rise; any other check starts the count again, and the count stays between 0 and 2.
\<close>

theorem decide_spec:
  assumes "0 \<le> cnt" "cnt \<le> 2" "decide old cap num cnt delta r10 r30 = (up, down, cnt')"
  shows "(up \<longleftrightarrow> delta > f64 0 \<or> \<not> old) \<and>
    (let idle = (\<not> up \<and> loadRatio r10 cap < SCALE_DOWN_THRESHOLD \<and> num > 1 \<and> r10 - r30 \<le> f64 0)
     in (down \<longleftrightarrow> idle \<and> cnt = 2) \<and> cnt' = (if idle \<and> cnt < 2 then cnt + 1 else 0)) \<and> 0 \<le> cnt' \<and> cnt' \<le> 2"
proof -
  have "wrap64 (cnt + 1) = cnt + 1" using assms(1,2) by (intro wrap64_id) (simp add: int64_def)
  then show ?thesis
    using assms by (auto simp: decide_def Let_def SCALE_DOWN_CONSECUTIVE_REQUIRED_def split: if_splits)
qed

theorem decide_spec_witness:
  "decide True (f64 110) 2 2 (f64 (- 107)) (f64 2) (f64 2) = (False, True, 0) \<and>
    f64 2 - f64 2 \<le> f64 0 \<and> loadRatio (f64 2) (f64 110) < SCALE_DOWN_THRESHOLD"
  using decide_spec [OF _ _ example_decide] example_decide by (simp add: Let_def)

text \<open>A client that also keeps a list of the FaSTPods it was asked to create.\<close>

definition logging :: "('s, 'p, 'o) kube_client \<Rightarrow> ('s \<times> ('p, 'o) FaSTPod list, 'p, 'o) kube_client" where
  "logging kc = \<lparr>kube_Get = \<lambda>(s, l) n ns. (case kube_Get kc s n ns of (s, r) \<Rightarrow> ((s, l), r)),
     kube_Create = \<lambda>(s, l) pod. (case kube_Create kc s pod of (s, e) \<Rightarrow> ((s, l @ [pod]), e)),
     kube_Update = \<lambda>(s, l) pod. (case kube_Update kc s pod of (s, e) \<Rightarrow> ((s, l), e)),
     kube_Delete = \<lambda>(s, l) pod. (case kube_Delete kc s pod of (s, e) \<Rightarrow> ((s, l), e))\<rparr>"

text \<open>
  C16. However many FaSTPods a list holds and however many of them are missing in the cluster,
  \<open>AddFastPods\<close> asks for the creation of at most one: it returns after the first creation. So of the
  configurations a scale-up commits and counts, at most one gets a FaSTPod. (The logging client behaves
  as the client it wraps.)
\<close>

theorem AddFastPods_creates_at_most_one:
  "\<exists>s' created err. AddFastPods (logging kc) (s, []) fastpods = ((s', created), err) \<and>
    AddFastPods kc s fastpods = (s', err) \<and> length created \<le> 1"
proof (induction fastpods arbitrary: s)
  case (Cons pod fastpods)
  obtain s1 r where g: "kube_Get kc s (pod_Name pod) (pod_Namespace pod) = (s1, r)" by force
  show ?case
  proof (cases r)
    case (Inl e)
    obtain s2 c where "kube_Create kc s1 pod = (s2, c)" by force
    then show ?thesis using g Inl by (cases e) (simp_all add: logging_def)
  next
    case (Inr existed)
    obtain s2 u where u: "kube_Update kc s1 (existed\<lparr>pod_Replicas := wrap32 (pod_Replicas pod)\<rparr>) = (s2, u)" by force
    show ?thesis
    proof (cases u)
      case None
      then show ?thesis using g Inr u Cons.IH [of s2] by (simp add: logging_def)
    qed (use g Inr u in \<open>simp add: logging_def\<close>)
  qed
qed simp

end
