(* ===== verification/Deletion.thy ===== *)
theory Deletion
  imports Ownership
begin

text \<open>
  The end of a function, \<open>handleDeletedFaSTFunc\<close> of \<^verbatim>\<open>internal/controller/fastfunc_controller.go\<close>: it gives back every item
  of every configuration and releases the virtual GPUs that become empty. The configurations are shared by pointer
  with a scale-down in flight, which goes on with them.
\<close>

section \<open>Giving everything back\<close>

text \<open>A reduction to no replicas takes all items, since there are no more of them than replicas counted.\<close>

lemma Reduce_to_none:
  assumes o: "range_order order (shelfItems c)" and n: "counted c" and R: "ReduceConfig order g c 0 = (g', c', e)"
  shows "Usage g' = remove_loop Remove order (Usage g)" "c' = c\<lparr>shelfItems := fmempty\<rparr>" "e = IsEmpty (Usage g')"
    "virtual g' = virtual g" "gpu_UUID g' = gpu_UUID g" "gpu_NodeName g' = gpu_NodeName g"
proof -
  have w: "wrap64 (AllocatedReplica c - 0) = AllocatedReplica c" using n wrap64_id [of "AllocatedReplica c"] by (simp add: counted_def)
  have "length order \<le> nat (AllocatedReplica c)" using n range_order_length [OF o] by (simp add: counted_def) linarith
  then have t: "take (nat (AllocatedReplica c - 0)) order = order" by simp
  have "fold fmdrop order (shelfItems c) = fmempty"
    by (rule fmap_ext) (use range_order_mem [OF o] in \<open>auto simp: fold_fmdrop_lookup\<close>)
  moreover have "order = [] \<and> shelfItems c = fmempty" if "AllocatedReplica c = 0"
  proof -
    have "order = []" using n that range_order_length [OF o] by (simp add: counted_def)
    with calculation show ?thesis by simp
  qed
  ultimately show "Usage g' = remove_loop Remove order (Usage g)" "c' = c\<lparr>shelfItems := fmempty\<rparr>" "e = IsEmpty (Usage g')"
    "virtual g' = virtual g" "gpu_UUID g' = gpu_UUID g" "gpu_NodeName g' = gpu_NodeName g"
    using R unfolding ReduceConfig_def w Let_def reduce_loop_eq t by (auto split: if_splits)
qed

text \<open>The heap of GPUs after the configurations have been released.\<close>

definition taken :: "Config list \<Rightarrow> gpu_addr \<Rightarrow> int \<Rightarrow> bool" where
  "taken cs a i \<longleftrightarrow> (\<exists>c \<in> set cs. associatedGpu c = a \<and> i |\<in>| fmdom (shelfItems c))"

lemma release_config_eq:
  assumes "ReduceConfig (ord_items ords c) (ctl_heap st ! associatedGpu c) c 0 = (g, c', e)"
  shows "ctl_heap (release_config ords c st) = (ctl_heap st)[associatedGpu c := g]"
    "ctl_timers (release_config ords c st) = ctl_timers st @ (if e \<and> virtual g then [(gpu_UUID g, gpu_NodeName g)] else [])"
  using assms by (simp_all add: release_config_def set_gpu_def scheduleForDeletion_def Let_def)

lemma amid_counted:
  assumes "amid X ords name funcs (c # cs) (st, fn)"
  shows "owned (ctl_heap st) c" "range_order (ord_items ords c) (shelfItems c)" "wf_packer (Usage (ctl_heap st ! associatedGpu c))"
proof -
  have b: "books_ok X (fmupd name fn funcs) (ctl_prep st)" and c: "configs_of (fmupd name fn funcs) (name, cfg_UUID c) = Some c"
    using assms by (simp_all add: amid_def configs_of_upd)
  show o: "owned (ctl_heap st) c" using owners_okD(1) [OF books_okD(4) [OF b], of "Inl (name, cfg_UUID c)"] c by simp
  show "range_order (ord_items ords c) (shelfItems c)" using assms by (simp add: amid_def)
  show "wf_packer (Usage (ctl_heap st ! associatedGpu c))"
    using budgetD(2) [OF books_okD(1) [OF b] nth_mem] o by (simp add: owned_def)
qed

lemma fold_release_gives_back:
  assumes "amid X ords name funcs cs (st, fn)" "a < length (ctl_heap st)"
  shows "placed (Usage (ctl_heap (fold (release_config ords) cs st) ! a)) =
    (\<lambda>i. if taken cs a i then None else placed (Usage (ctl_heap st ! a)) i)"
  using assms
proof (induction cs arbitrary: st fn)
  case (Cons c cs)
  obtain g c' e where r: "ReduceConfig (ord_items ords c) (ctl_heap st ! associatedGpu c) c 0 = (g, c', e)"
    using prod_cases3 by blast
  note C = amid_counted [OF Cons.prems(1)]
  have n: "counted c" "associatedGpu c < length (ctl_heap st)" using C(1) by (simp_all add: owned_def)
  note E = release_config_eq [OF r]
  obtain fn' where "amid X ords name funcs cs (release_config ords c st, fn')" using amid_release [OF Cons.prems(1)] by blast
  note IH = Cons.IH [OF this]
  have "placed (Usage (ctl_heap (release_config ords c st) ! a)) i =
      (if associatedGpu c = a \<and> i |\<in>| fmdom (shelfItems c) then None else placed (Usage (ctl_heap st ! a)) i)" for i
    using remove_loop_facts(2) [OF C(3), of "ord_items ords c"] range_order_mem [OF C(2), of i] n(2)
    unfolding E Reduce_to_none(1) [OF C(2) n(1) r] by (auto simp: nth_list_update Reduce_to_none(1) [OF C(2) n(1) r] fmlookup_dom_iff)
  then show ?case using IH Cons.prems(2) by (auto simp: E(1) taken_def fun_eq_iff)
qed (simp add: taken_def)

text \<open>A virtual GPU that is empty in the end is scheduled for release.\<close>

lemma ReduceConfig_frame:
  "ReduceConfig order g c n = (g', c', e) \<Longrightarrow> e = IsEmpty (Usage g') \<and> virtual g' = virtual g \<and> gpu_UUID g' = gpu_UUID g \<and>
    gpu_NodeName g' = gpu_NodeName g"
  by (auto simp: ReduceConfig_def reduce_loop_eq Let_def split: if_splits)

definition same_gpu :: "GPUInfo \<Rightarrow> GPUInfo \<Rightarrow> bool" where
  "same_gpu g g' \<longleftrightarrow> virtual g' = virtual g \<and> gpu_UUID g' = gpu_UUID g \<and> gpu_NodeName g' = gpu_NodeName g"

lemma release_config_gpu:
  assumes "a < length (ctl_heap st)"
  shows "a < length (ctl_heap (release_config ords c st))" "same_gpu (ctl_heap st ! a) (ctl_heap (release_config ords c st) ! a)"
    "set (ctl_timers st) \<subseteq> set (ctl_timers (release_config ords c st))"
    "associatedGpu c \<noteq> a \<Longrightarrow> ctl_heap (release_config ords c st) ! a = ctl_heap st ! a"
    "associatedGpu c = a \<Longrightarrow> IsEmpty (Usage (ctl_heap (release_config ords c st) ! a)) \<Longrightarrow> virtual (ctl_heap st ! a) \<Longrightarrow>
      (gpu_UUID (ctl_heap st ! a), gpu_NodeName (ctl_heap st ! a)) \<in> set (ctl_timers (release_config ords c st))"
proof -
  obtain g c' e where r: "ReduceConfig (ord_items ords c) (ctl_heap st ! associatedGpu c) c 0 = (g, c', e)"
    using prod_cases3 by blast
  note E = release_config_eq [OF r] ReduceConfig_frame [OF r]
  show "a < length (ctl_heap (release_config ords c st))" "same_gpu (ctl_heap st ! a) (ctl_heap (release_config ords c st) ! a)"
    "set (ctl_timers st) \<subseteq> set (ctl_timers (release_config ords c st))"
    "associatedGpu c \<noteq> a \<Longrightarrow> ctl_heap (release_config ords c st) ! a = ctl_heap st ! a"
    "associatedGpu c = a \<Longrightarrow> IsEmpty (Usage (ctl_heap (release_config ords c st) ! a)) \<Longrightarrow> virtual (ctl_heap st ! a) \<Longrightarrow>
      (gpu_UUID (ctl_heap st ! a), gpu_NodeName (ctl_heap st ! a)) \<in> set (ctl_timers (release_config ords c st))"
    using E assms by (cases "associatedGpu c = a"; auto simp: same_gpu_def)+
qed

lemma fold_release_gpu:
  assumes "a < length (ctl_heap st)"
  shows "a < length (ctl_heap (fold (release_config ords) cs st)) \<and> same_gpu (ctl_heap st ! a) (ctl_heap (fold (release_config ords) cs st) ! a)"
proof (induction cs rule: rev_induct)
  case (snoc c cs)
  then show ?case using release_config_gpu(1,2) [of a "fold (release_config ords) cs st" ords c] by (simp add: same_gpu_def)
qed (simp add: assms same_gpu_def)

lemma fold_release_schedules:
  assumes "\<exists>c \<in> set cs. associatedGpu c = a" "a < length (ctl_heap st)" "virtual (ctl_heap st ! a)"
    and "IsEmpty (Usage (ctl_heap (fold (release_config ords) cs st) ! a))"
  shows "(gpu_UUID (ctl_heap st ! a), gpu_NodeName (ctl_heap st ! a)) \<in> set (ctl_timers (fold (release_config ords) cs st))"
  using assms(1,4)
proof (induction cs rule: rev_induct)
  case (snoc c cs)
  have F: "a < length (ctl_heap (fold (release_config ords) cs st))" "same_gpu (ctl_heap st ! a) (ctl_heap (fold (release_config ords) cs st) ! a)"
    using fold_release_gpu [OF assms(2)] by blast+
  note R = release_config_gpu [OF F(1), where ords = ords and c = c]
  show ?case
  proof (cases "associatedGpu c = a")
    case True
    then show ?thesis using R(5) F(2) snoc.prems(2) assms(3) by (simp add: same_gpu_def)
  next
    case False
    then show ?thesis using R(3,4) snoc by auto
  qed
qed simp

lemma release_config_heap: "length (ctl_heap (release_config ords c st)) = length (ctl_heap st)"
    "fastFuncMap (release_config ords c st) = fastFuncMap st"
  by (simp_all add: release_config_def set_gpu_def scheduleForDeletion_def Let_def split: prod.splits)

lemma fold_release_config: "length (ctl_heap (fold (release_config ords) cs st)) = length (ctl_heap st)"
    "fastFuncMap (fold (release_config ords) cs st) = fastFuncMap st"
  by (induction cs arbitrary: st) (simp_all add: release_config_heap)

lemma handleDeleted_map: "fastFuncMap (handleDeletedFaSTFunc ords st name) = fmdrop name (fastFuncMap st)"
proof (cases "fmlookup (fastFuncMap st) name")
  case None
  then show ?thesis by (auto simp: handleDeletedFaSTFunc_def fmdrop_lookup_if intro!: fmap_ext)
next
  case (Some fn)
  then show ?thesis by (simp add: handleDeletedFaSTFunc_def Let_def fold_release_config(2))
qed

lemma handleDeleted_gives_back:
  assumes inv: "ctl_inv X st" and fn: "fmlookup (fastFuncMap st) name = Some fn" and o: "orders_ok ords fn" and a: "a < length (ctl_heap st)"
  defines "st' \<equiv> handleDeletedFaSTFunc ords st name" and "its \<equiv> \<lambda>c. \<exists>u. fmlookup (configUUIDToConfig fn) u = Some c \<and> associatedGpu c = a"
  shows "placed (Usage (ctl_heap st' ! a)) =
      (\<lambda>i. if \<exists>c. its c \<and> i |\<in>| fmdom (shelfItems c) then None else placed (Usage (ctl_heap st ! a)) i)"
    "its c \<Longrightarrow> virtual (ctl_heap st ! a) \<Longrightarrow> IsEmpty (Usage (ctl_heap st' ! a)) \<Longrightarrow>
      (gpu_UUID (ctl_heap st ! a), gpu_NodeName (ctl_heap st ! a)) \<in> set (ctl_timers st')"
    "same_gpu (ctl_heap st ! a) (ctl_heap st' ! a)"
proof -
  let ?cs = "CurrentConfigs (ord_configs ords) fn"
  have "fmupd name fn (fastFuncMap st) = fastFuncMap st" using fn by (intro fmap_ext) auto
  then have b: "books_ok X (fmupd name fn (fastFuncMap st)) (ctl_prep st)" using inv by (simp add: ctl_inv_def)
  have A: "amid X ords name (fastFuncMap st) ?cs (st, fn)" using b o by (intro amid_start) simp_all
  have st': "ctl_heap st' = ctl_heap (fold (release_config ords) ?cs st)" "ctl_timers st' = ctl_timers (fold (release_config ords) ?cs st)"
    by (simp_all add: st'_def handleDeletedFaSTFunc_def fn Let_def)
  have m: "c \<in> set ?cs \<longleftrightarrow> (\<exists>u. fmlookup (configUUIDToConfig fn) u = Some c)" for c
    using o by (intro CurrentConfigs_mem) (simp add: orders_ok_def)
  have "taken ?cs a i \<longleftrightarrow> (\<exists>c. its c \<and> i |\<in>| fmdom (shelfItems c))" for i unfolding taken_def its_def using m by blast
  then show "placed (Usage (ctl_heap st' ! a)) =
      (\<lambda>i. if \<exists>c. its c \<and> i |\<in>| fmdom (shelfItems c) then None else placed (Usage (ctl_heap st ! a)) i)"
    using fold_release_gives_back [OF A a] by (simp add: st'(1))
  show "(gpu_UUID (ctl_heap st ! a), gpu_NodeName (ctl_heap st ! a)) \<in> set (ctl_timers st')"
    if "its c" "virtual (ctl_heap st ! a)" "IsEmpty (Usage (ctl_heap st' ! a))"
    using fold_release_schedules [OF _ a that(2), of ?cs ords] that(1,3) m unfolding st' its_def by blast
  show "same_gpu (ctl_heap st ! a) (ctl_heap st' ! a)" using fold_release_gpu [OF a] by (simp add: st'(1))
qed

section \<open>A scale-down that holds the configurations\<close>

text \<open>What a scale-down in flight holds of the configurations of its function.\<close>

definition held :: "'p check_phase \<Rightarrow> (string \<times> Config list) option" where
  "held phase = (case phase of
     Selected f name toRemove toUpdate \<Rightarrow> Some (ff_Name f, held_configs toUpdate toRemove)
   | Agreed f configsUpdated configsRemoved \<Rightarrow> Some (ff_Name f, held_configs configsUpdated configsRemoved)
   | _ \<Rightarrow> None)"

text \<open>Its pointers after a deletion: they refer to the configurations as \<open>ReduceConfig\<close> has left them. What that does to the
  configuration does not depend on the GPU.\<close>

definition detach_config :: "orders \<Rightarrow> gpu_heap \<Rightarrow> Config \<Rightarrow> Config" where
  "detach_config ords heap c = fst (snd (ReduceConfig (ord_items ords c) (heap ! associatedGpu c) c 0))"

definition detach_info :: "orders \<Rightarrow> gpu_heap \<Rightarrow> ReduceInfo \<Rightarrow> ReduceInfo" where
  "detach_info ords heap info = info\<lparr>ri_Config := detach_config ords heap (ri_Config info)\<rparr>"

definition detach :: "orders \<Rightarrow> gpu_heap \<Rightarrow> 'p check_phase \<Rightarrow> 'p check_phase" where
  "detach ords heap phase = (case phase of
     Selected f name toRemove toUpdate \<Rightarrow>
       Selected f name (map (detach_config ords heap) toRemove) (map (detach_info ords heap) toUpdate)
   | Agreed f configsUpdated configsRemoved \<Rightarrow>
       Agreed f (map (detach_info ords heap) configsUpdated) (map (detach_config ords heap) configsRemoved)
   | _ \<Rightarrow> phase)"

lemma held_detach: "held (detach ords heap phase) = map_option (\<lambda>(name, cs). (name, map (detach_config ords heap) cs)) (held phase)"
  by (cases phase) (simp_all add: held_def detach_def held_configs_def detach_info_def)

lemma detach_config_empty:
  assumes "range_order (ord_items ords c) (shelfItems c)" "counted c"
  shows "detach_config ords heap c = c\<lparr>shelfItems := fmempty\<rparr>"
proof -
  obtain g c' e where r: "ReduceConfig (ord_items ords c) (heap ! associatedGpu c) c 0 = (g, c', e)" using prod_cases3 by blast
  show ?thesis using Reduce_to_none(2) [OF assms r] by (simp add: detach_config_def r)
qed

text \<open>The books of a scale-down whose function is gone: the configurations it holds have no items, the packers stay as they
  are, but every GPU that is empty is scheduled for release.\<close>

definition empty_timers :: "gpu_heap \<Rightarrow> Config list \<Rightarrow> (string \<times> string) list" where
  "empty_timers heap cs = map (\<lambda>c. (gpu_UUID (heap ! associatedGpu c), gpu_NodeName (heap ! associatedGpu c)))
     (filter (\<lambda>c. IsEmpty (Usage (heap ! associatedGpu c))) cs)"

definition same_gpus :: "'s controller \<Rightarrow> 's controller \<Rightarrow> bool" where
  "same_gpus st st' \<longleftrightarrow> prep_nm (ctl_prep st') = prep_nm (ctl_prep st) \<and> length (ctl_heap st') = length (ctl_heap st) \<and>
     (\<forall>a. \<exists>m. ctl_heap st' ! a = (ctl_heap st ! a)\<lparr>UsageMemory := m\<rparr>)"

lemma gpu_memory_same: "(g :: GPUInfo)\<lparr>UsageMemory := UsageMemory g\<rparr> = g"
  by simp

lemma same_gpus_refl: "same_gpus st st"
  unfolding same_gpus_def by (metis gpu_memory_same)

lemma same_gpus_set:
  assumes "same_gpus st st'" shows "same_gpus st (set_gpu a ((ctl_heap st' ! a)\<lparr>UsageMemory := m\<rparr>) st')"
proof -
  have "\<exists>n. (ctl_heap st')[a := (ctl_heap st' ! a)\<lparr>UsageMemory := m\<rparr>] ! b = (ctl_heap st ! b)\<lparr>UsageMemory := n\<rparr>" for b
  proof -
    obtain n where n: "ctl_heap st' ! b = (ctl_heap st ! b)\<lparr>UsageMemory := n\<rparr>" using assms unfolding same_gpus_def by blast
    show ?thesis
    proof (cases "b = a \<and> a < length (ctl_heap st')")
      case True
      then show ?thesis using n by (intro exI [of _ m]) simp
    next
      case False
      then have "(ctl_heap st')[a := (ctl_heap st' ! a)\<lparr>UsageMemory := m\<rparr>] ! b = ctl_heap st' ! b"
        by (cases "a < length (ctl_heap st')") (auto simp: nth_list_update_neq list_update_beyond)
      then show ?thesis using n by (intro exI [of _ n]) simp
    qed
  qed
  then show ?thesis using assms by (simp add: same_gpus_def set_gpu_def)
qed

lemma same_gpus_timers [simp]: "same_gpus st (st'\<lparr>ctl_timers := t\<rparr>) = same_gpus st st'"
  by (simp add: same_gpus_def)

lemma same_gpusD:
  assumes "same_gpus st st'"
  shows "Usage (ctl_heap st' ! a) = Usage (ctl_heap st ! a)" "gpu_UUID (ctl_heap st' ! a) = gpu_UUID (ctl_heap st ! a)"
    "gpu_NodeName (ctl_heap st' ! a) = gpu_NodeName (ctl_heap st ! a)"
    "TotalSMPercentage (ctl_heap st' ! a) = TotalSMPercentage (ctl_heap st ! a)"
proof -
  obtain m where "ctl_heap st' ! a = (ctl_heap st ! a)\<lparr>UsageMemory := m\<rparr>" using assms unfolding same_gpus_def by blast
  then show "Usage (ctl_heap st' ! a) = Usage (ctl_heap st ! a)" "gpu_UUID (ctl_heap st' ! a) = gpu_UUID (ctl_heap st ! a)"
    "gpu_NodeName (ctl_heap st' ! a) = gpu_NodeName (ctl_heap st ! a)"
    "TotalSMPercentage (ctl_heap st' ! a) = TotalSMPercentage (ctl_heap st ! a)" by simp_all
qed

text \<open>Configurations without items that are reduced or removed.\<close>

definition idle_change :: "'s controller \<Rightarrow> Config list \<Rightarrow> 's controller \<Rightarrow> bool" where
  "idle_change st cs st' \<longleftrightarrow> fastFuncMap st' = fastFuncMap st \<and> same_gpus st st' \<and>
     ctl_timers st' = ctl_timers st @ empty_timers (ctl_heap st) cs"

lemma idle_reduce:
  assumes "range_order (ord_items ords (ri_Config info)) (shelfItems (ri_Config info))" "shelfItems (ri_Config info) = fmempty"
  shows "idle_change st [ri_Config info] (fst (reduce_one ords info (st, fn)))"
proof -
  let ?c = "ri_Config info"
  have o: "ord_items ords ?c = []" using assms by (simp add: range_order_def fset_of_list_elem) (metis fset_of_list_elem fempty_iff list.set_intros(1) neq_Nil_conv)
  obtain m where "ReduceConfig [] (ctl_heap st ! associatedGpu ?c) ?c (NewReplica info) =
      ((ctl_heap st ! associatedGpu ?c)\<lparr>UsageMemory := m\<rparr>, ?c, IsEmpty (Usage (ctl_heap st ! associatedGpu ?c)))"
    by (cases "wrap64 (AllocatedReplica ?c - NewReplica info) = 0") (auto simp: ReduceConfig_def Let_def intro: that [of "UsageMemory (ctl_heap st ! associatedGpu ?c)"])
  then show ?thesis using same_gpus_set [OF same_gpus_refl, of st "associatedGpu ?c" m]
    by (simp add: idle_change_def reduce_one_def o empty_timers_def Let_def scheduleForDeletion_def) (simp add: set_gpu_def)
qed

lemma idle_remove:
  assumes "range_order (ord_items ords c) (shelfItems c)" "shelfItems c = fmempty"
  shows "idle_change st [c] (fst (remove_one ords c (st, fn)))"
proof -
  have o: "ord_items ords c = []" using assms by (simp add: range_order_def fset_of_list_elem) (metis fset_of_list_elem fempty_iff list.set_intros(1) neq_Nil_conv)
  obtain m where "DeallocateConfig [] (ctl_heap st ! associatedGpu c) c =
      ((ctl_heap st ! associatedGpu c)\<lparr>UsageMemory := m\<rparr>, c, IsEmpty (Usage (ctl_heap st ! associatedGpu c)))"
    by (auto simp: DeallocateConfig_def Let_def)
  then show ?thesis using same_gpus_set [OF same_gpus_refl, of st "associatedGpu c" m]
    by (simp add: idle_change_def remove_one_def o empty_timers_def Let_def scheduleForDeletion_def) (simp add: set_gpu_def)
qed

lemma same_gpus_trans: "same_gpus st st' \<Longrightarrow> same_gpus st' st'' \<Longrightarrow> same_gpus st st''"
proof -
  assume s: "same_gpus st st'" "same_gpus st' st''"
  have "\<exists>m. ctl_heap st'' ! a = (ctl_heap st ! a)\<lparr>UsageMemory := m\<rparr>" for a
  proof -
    obtain m n where "ctl_heap st' ! a = (ctl_heap st ! a)\<lparr>UsageMemory := m\<rparr>" "ctl_heap st'' ! a = (ctl_heap st' ! a)\<lparr>UsageMemory := n\<rparr>"
      using s unfolding same_gpus_def by blast
    then show ?thesis by (intro exI [of _ n]) simp
  qed
  then show "same_gpus st st''" using s unfolding same_gpus_def by simp
qed

lemma idle_refl: "idle_change st [] st"
  by (simp add: idle_change_def same_gpus_refl empty_timers_def)

lemma idle_trans:
  assumes "idle_change st cs st'" "idle_change st' ds st''" shows "idle_change st (cs @ ds) st''"
proof -
  have s: "same_gpus st st'" "same_gpus st' st''" using assms by (simp_all add: idle_change_def)
  have "empty_timers (ctl_heap st') ds = empty_timers (ctl_heap st) ds" unfolding empty_timers_def same_gpusD [OF s(1)] ..
  then show ?thesis using assms same_gpus_trans [OF s] by (simp add: idle_change_def empty_timers_def)
qed

lemma idle_fold_reduce:
  "items_ok ords (map ri_Config infos) \<Longrightarrow> \<forall>i \<in> set infos. shelfItems (ri_Config i) = fmempty \<Longrightarrow>
    idle_change (fst s) (map ri_Config infos) (fst (fold (reduce_one ords) infos s))"
proof (induction infos arbitrary: s)
  case (Cons i infos)
  have "idle_change (fst s) [ri_Config i] (fst (reduce_one ords i s))"
    using idle_reduce [of ords i "fst s" "snd s"] Cons.prems by (simp add: items_ok_def)
  moreover have "idle_change (fst (reduce_one ords i s)) (map ri_Config infos) (fst (fold (reduce_one ords) infos (reduce_one ords i s)))"
    using Cons by (simp add: items_ok_def)
  ultimately show ?case using idle_trans by fastforce
qed (simp add: idle_refl)

lemma idle_fold_remove:
  "items_ok ords cs \<Longrightarrow> \<forall>c \<in> set cs. shelfItems c = fmempty \<Longrightarrow> idle_change (fst s) cs (fst (fold (remove_one ords) cs s))"
proof (induction cs arbitrary: s)
  case (Cons c cs)
  have "idle_change (fst s) [c] (fst (remove_one ords c s))"
    using idle_remove [of ords c "fst s" "snd s"] Cons.prems by (simp add: items_ok_def)
  moreover have "idle_change (fst (remove_one ords c s)) cs (fst (fold (remove_one ords) cs (remove_one ords c s)))"
    using Cons by (simp add: items_ok_def)
  ultimately show ?case using idle_trans by fastforce
qed (simp add: idle_refl)

lemma shrink_unlisted:
  assumes "fmlookup (fastFuncMap st) (ff_Name f) = None" "items_ok ords (held_configs upd rem)"
    and "\<forall>c \<in> set (held_configs upd rem). shelfItems c = fmempty"
  shows "idle_change st (held_configs upd rem) (shrink_phase ords st f upd rem)"
proof -
  obtain st1 fn1 where s1: "fold (reduce_one ords) upd (st, lookup_func st (ff_Name f)) = (st1, fn1)" by force
  obtain st2 fn2 where s2: "fold (remove_one ords) rem (st1, fn1) = (st2, fn2)" by force
  have "idle_change st (map ri_Config upd) st1"
    using idle_fold_reduce [of ords upd "(st, lookup_func st (ff_Name f))"] assms(2,3) s1 by (simp add: items_ok_def held_configs_def)
  moreover have "idle_change st1 rem st2"
    using idle_fold_remove [of ords rem "(st1, fn1)"] assms(2,3) s2 by (simp add: items_ok_def held_configs_def)
  ultimately have "idle_change st (held_configs upd rem) st2" unfolding held_configs_def by (rule idle_trans)
  moreover have "shrink_phase ords st f upd rem = st2" by (simp add: shrink_phase_def s1 s2 assms(1))
  ultimately show ?thesis by simp
qed

lemma same_gpus_owned: "same_gpus st st' \<Longrightarrow> owned (ctl_heap st') c = owned (ctl_heap st) c"
  by (simp add: owned_def owns_def same_gpusD same_gpus_def [of st st', THEN iffD1])

lemma idle_change_inv:
  assumes "idle_change st cs st'" "ctl_inv X st" shows "ctl_inv X st'"
proof -
  have s: "same_gpus st st'" and m: "fastFuncMap st' = fastFuncMap st" using assms(1) by (simp_all add: idle_change_def)
  have l: "length (ctl_heap st') = length (ctl_heap st)" "prep_nm (ctl_prep st') = prep_nm (ctl_prep st)"
    using s by (simp_all add: same_gpus_def)
  have B: "books_ok X (fastFuncMap st) (ctl_prep st)" using assms(2) by (simp add: ctl_inv_def)
  have "budget (ctl_heap st') 0"
    using books_okD(1) [OF B] unfolding budget_def all_set_conv_all_nth l(1) same_gpusD [OF s] .
  moreover have "maps_ok (ctl_heap st') (prep_nm (ctl_prep st'))"
    using books_okD(2) [OF B] unfolding maps_ok_def l by (simp add: same_gpusD [OF s])
  moreover have "owners_ok (ctl_heap st') (entries X (fastFuncMap st'))"
    using books_okD(4) [OF B] unfolding owners_ok_def m same_gpus_owned [OF s] .
  ultimately show ?thesis using B unfolding ctl_inv_def books_ok_def m l(2) by blast
qed

end
