(* ===== verification/Interleaving.thy ===== *)
theory Interleaving
  imports Autoscaler Deletion
begin

text \<open>
  The controller at the grain of its locks: between the phases of a check the release worker, the timers, the
  nodes' connections and \<open>Reconcile\<close> go on. One goroutine runs all checks, so at most one is in flight. The
  theory keeps the books through every interleaving, and shows what a deletion gives back, what is lost when a function is
  deleted while it is scaled up, and what is released twice when it is deleted while it is scaled down.
\<close>

section \<open>The controller between the locks\<close>

text \<open>
  The state: the controller, the check in flight, and a ghost list, which no code reads, of the configurations that were committed
  but that no function will list any more.
\<close>

record ('s, 'p) fine =
  fine_sys :: "'s system"
  fine_phase :: "'p check_phase"
  fine_lost :: "Config list"

text \<open>Configurations the check in flight has committed.\<close>

definition in_flight :: "'p check_phase \<Rightarrow> Config list" where
  "in_flight phase = (case phase of Prepared f new \<Rightarrow> new | Created f new \<Rightarrow> new | _ \<Rightarrow> [])"

text \<open>Those it gives up: \<open>AddFastPods\<close> failed, or there is no function to record them for.\<close>

definition given_up :: "'s controller \<Rightarrow> 'p check_phase \<Rightarrow> client_error option \<Rightarrow> Config list" where
  "given_up st phase err = (case phase of
     Prepared f new \<Rightarrow> if err = None then [] else new
   | Created f new \<Rightarrow> if fmlookup (fastFuncMap st) (ff_Name f) = None then new else []
   | _ \<Rightarrow> [])"

text \<open>The packers' item counters do not run out in the commit.\<close>

definition commit_fits :: "gpu_heap \<Rightarrow> 'p check_phase \<Rightarrow> bool" where
  "commit_fits heap phase = (case phase of
     Picked f req (Inr cs) \<Rightarrow> sum_list (map wanted cs) < 2 ^ 63 - 1 \<and>
       list_all (\<lambda>g. nextItemID (Usage g) + sum_list (map wanted cs) < 2 ^ 63) heap
   | _ \<Rightarrow> True)"

text \<open>
  The steps. \<open>other\<close>: another goroutine, which does not delete the function a scale-down is about. \<open>deletion\<close>: \<open>Reconcile\<close>
  deletes just that function, so the pointers of the scale-down refer to configurations that have been given back.
  \<open>begin_check\<close> and \<open>next_phase\<close>: the check in flight.
\<close>

inductive fine_step :: "('s, 'p, 'o) environment \<Rightarrow> ('s, 'p) fine \<Rightarrow> ('s, 'p) fine \<Rightarrow> bool" for E :: "('s, 'p, 'o) environment" where
  other: "side_step (fine_sys s) t \<Longrightarrow>
    (\<And>name cs. held (fine_phase s) = Some (name, cs) \<Longrightarrow>
      fmlookup (fastFuncMap (sys_ctl t)) name = fmlookup (fastFuncMap (sys_ctl (fine_sys s))) name) \<Longrightarrow>
    fine_step E s (s\<lparr>fine_sys := t\<rparr>)"
| deletion: "held (fine_phase s) = Some (name, cs) \<Longrightarrow> fmlookup (fastFuncMap (sys_ctl (fine_sys s))) name = Some fn \<Longrightarrow>
    orders_ok ords fn \<Longrightarrow> Reconcile ords (Some NotFound) name (sys_rec (fine_sys s)) = (r, err) \<Longrightarrow>
    fine_step E s (s\<lparr>fine_sys := (fine_sys s)\<lparr>sys_rec := r\<rparr>,
      fine_phase := detach ords (ctl_heap (sys_ctl (fine_sys s))) (fine_phase s)\<rparr>)"
| begin_check: "fine_phase s = Idle \<Longrightarrow> once_done (sys_rec (fine_sys s)) \<Longrightarrow>
    orders_ok ords (lookup_func (sys_ctl (fine_sys s)) (ff_Name f)) \<Longrightarrow>
    min_rps f = Some rps \<Longrightarrow>
    getRPSMetrics prom (ff_Name f) (ff_Namespace f) now = Some (rps10s, rps30s, rps30s_earlier) \<Longrightarrow>
    decide_phase E ords (sys_ctl (fine_sys s)) f rps10s rps30s rps30s_earlier (float64_of_int rps) (preferred_gpu f) =
      (c, phase) \<Longrightarrow>
    fine_step E s (s\<lparr>fine_sys := set_ctl c (fine_sys s), fine_phase := phase\<rparr>)"
| next_phase: "fine_phase s \<noteq> Idle \<Longrightarrow> commit_fits (ctl_heap (sys_ctl (fine_sys s))) (fine_phase s) \<Longrightarrow>
    (\<And>f upd rem. fine_phase s = Agreed f upd rem \<Longrightarrow> items_ok ords (held_configs upd rem)) \<Longrightarrow>
    advance E ords (sys_ctl (fine_sys s)) (fine_phase s) = Some (c, phase, err) \<Longrightarrow>
    fine_step E s \<lparr>fine_sys = set_ctl c (fine_sys s), fine_phase = phase,
      fine_lost = given_up (sys_ctl (fine_sys s)) (fine_phase s) err @ fine_lost s\<rparr>"

inductive_cases fine_stepE: "fine_step E s t"

definition fine_start :: "int \<Rightarrow> QPSStore \<Rightarrow> 's \<Rightarrow> int \<Rightarrow> ('s, 'p) fine" where
  "fine_start itv store cluster t = \<lparr>fine_sys = sys_start itv store cluster t, fine_phase = Idle, fine_lost = []\<rparr>"

inductive fine_reachable :: "('s, 'p, 'o) environment \<Rightarrow> int \<Rightarrow> QPSStore \<Rightarrow> ('s, 'p) fine \<Rightarrow> bool"
  for E :: "('s, 'p, 'o) environment" and itv :: int and store :: QPSStore where
  start: "fine_reachable E itv store (fine_start itv store cluster t)"
| step: "fine_reachable E itv store s \<Longrightarrow> fine_step E s t \<Longrightarrow> fine_reachable E itv store t"

section \<open>The invariant\<close>

text \<open>What is in flight can be committed, or has been; \<open>X\<close> is held by no function.\<close>

definition has_items :: "Config \<Rightarrow> bool" where
  "has_items c \<longleftrightarrow> shelfItems c \<noteq> fmempty"

definition phase_ok :: "gpu_heap \<Rightarrow> 'p check_phase \<Rightarrow> bool" where
  "phase_ok heap phase \<longleftrightarrow> (case phase of Picked f req (Inr cs) \<Rightarrow> \<forall>c \<in> set cs. committable heap c | _ \<Rightarrow> True) \<and>
     (\<forall>c \<in> set (in_flight phase). has_items c)"

text \<open>A scale-down holds configurations its function lists; or its function is gone, and they have no items left.\<close>

definition held_ok :: "(string, FastFunc) fmap \<Rightarrow> 'p check_phase \<Rightarrow> bool" where
  "held_ok funcs phase \<longleftrightarrow> (\<forall>name cs. held phase = Some (name, cs) \<longrightarrow>
     (if fmlookup funcs name = None then \<forall>c \<in> set cs. shelfItems c = fmempty else listed funcs name cs))"

definition fine_inv :: "('s, 'p) fine \<Rightarrow> bool" where
  "fine_inv s \<longleftrightarrow> sys_inv (in_flight (fine_phase s) @ fine_lost s) (fine_sys s) \<and>
     phase_ok (ctl_heap (sys_ctl (fine_sys s))) (fine_phase s) \<and> held_ok (fastFuncMap (sys_ctl (fine_sys s))) (fine_phase s) \<and>
     (\<forall>c \<in> set (fine_lost s). has_items c) \<and> (fine_phase s \<noteq> Idle \<longrightarrow> once_done (sys_rec (fine_sys s)))"

lemma committed_has_items: "committed heap c \<Longrightarrow> has_items c"
  by (auto simp: committed_def has_items_def gm_len_def fcard_fempty)

lemma committable_length: "committable heap c \<Longrightarrow> length heap \<le> length heap' \<Longrightarrow> committable heap' c"
  by (auto simp: committable_def)

lemma phase_ok_length: "phase_ok heap phase \<Longrightarrow> length heap \<le> length heap' \<Longrightarrow> phase_ok heap' phase"
  unfolding phase_ok_def by (auto split: check_phase.splits sum.splits intro: committable_length)

text \<open>The other goroutines make no GPU record and add no function; they leave the loop running.\<close>

lemma handleDeleted_frame:
  "length (ctl_heap (handleDeletedFaSTFunc ords st name)) = length (ctl_heap st)"
  "fmlookup (fastFuncMap st) n = None \<Longrightarrow> fmlookup (fastFuncMap (handleDeletedFaSTFunc ords st name)) n = None"
  by (auto simp: handleDeletedFaSTFunc_def Let_def fold_release_config fmdrop_lookup_if split: option.split)

lemma Reconcile_frame:
  assumes "Reconcile ords found name r = (r', err)"
  shows "length (ctl_heap (rec_ctl r')) = length (ctl_heap (rec_ctl r))" "once_done r \<Longrightarrow> once_done r'"
    "fmlookup (fastFuncMap (rec_ctl r)) n = None \<Longrightarrow> fmlookup (fastFuncMap (rec_ctl r')) n = None"
  using assms handleDeleted_frame(2) [of "rec_ctl r" n ords name]
  by (auto simp: Reconcile_def handleDeleted_frame(1) Let_def split: option.splits client_error.splits)

lemma side_step_frame:
  assumes "side_step s t"
  shows "length (ctl_heap (sys_ctl t)) = length (ctl_heap (sys_ctl s))" "once_done (sys_rec s) \<Longrightarrow> once_done (sys_rec t)"
    "fmlookup (fastFuncMap (sys_ctl s)) n = None \<Longrightarrow> fmlookup (fastFuncMap (sys_ctl t)) n = None"
  using assms by (elim side_stepE; auto simp: Reconcile_frame set_nm_def set_ctl_def Let_def)+

text \<open>A phase of the check keeps the books: a commit adds to what is in flight, a record moves it to the function.\<close>

lemma held_okD:
  assumes "held_ok funcs phase" "held phase = Some (name, cs)"
  shows "fmlookup funcs name = None \<Longrightarrow> \<forall>c \<in> set cs. shelfItems c = fmempty" "fmlookup funcs name \<noteq> None \<Longrightarrow> listed funcs name cs"
  using assms unfolding held_ok_def by (auto split: if_splits)

lemma held_ok_None [simp]: "held phase = None \<Longrightarrow> held_ok funcs phase"
  by (simp add: held_ok_def)

lemma held_ok_cong:
  assumes "held_ok funcs phase" "\<And>name cs. held phase = Some (name, cs) \<Longrightarrow> fmlookup funcs' name = fmlookup funcs name"
  shows "held_ok funcs' phase"
proof (cases "held phase")
  case (Some x)
  then obtain name cs where h: "held phase = Some (name, cs)" by (cases x) simp
  have f: "fmlookup funcs' name = fmlookup funcs name" using assms(2) [OF h] .
  then have "listed funcs' name cs = listed funcs name cs" by (simp add: listed_def configs_of_def)
  then show ?thesis using assms(1) h f unfolding held_ok_def by simp
qed simp

lemma held_simps [simp]:
  "held Idle = None" "held (Decided f req) = None" "held (Picked f req r) = None" "held (Prepared f new) = None"
  "held (Created f new) = None" "held (Selected f nm rem upd) = Some (ff_Name f, held_configs upd rem)"
  "held (Agreed f upd rem) = Some (ff_Name f, held_configs upd rem)"
  by (simp_all add: held_def)

lemma held_in_flight: "held phase \<noteq> None \<Longrightarrow> in_flight phase = [] \<and> phase_ok heap phase \<and> phase \<noteq> Idle"
  by (cases phase) (simp_all add: in_flight_def phase_ok_def)

lemma held_ok_fewer:
  assumes "held_ok funcs phase" "held phase = Some (name, cs)" "held phase' = Some (name, ds)" "mset ds \<subseteq># mset cs"
  shows "held_ok funcs phase'"
  using assms listed_submset [OF _ assms(4)] set_mset_mono [OF assms(4)] by (auto simp: held_ok_def split: if_splits)

text \<open>The deletion of the function that a scale-down is about.\<close>

lemma detach_held_ok:
  assumes inv: "ctl_inv X st" and ok: "held_ok (fastFuncMap st) phase" and h: "held phase = Some (name, cs)"
    and fn: "fmlookup (fastFuncMap st) name = Some fn" and o: "orders_ok ords fn"
  shows "held (detach ords heap phase) = Some (name, map (\<lambda>c. c\<lparr>shelfItems := fmempty\<rparr>) cs)"
    "held_ok (fmdrop name (fastFuncMap st)) (detach ords heap phase)"
proof -
  note B = books_okD [OF inv [unfolded ctl_inv_def]]
  have l: "listed (fastFuncMap st) name cs" using held_okD(2) [OF ok h] fn by simp
  have "detach_config ords heap c = c\<lparr>shelfItems := fmempty\<rparr>" if "c \<in> set cs" for c
  proof (rule detach_config_empty)
    have c: "configs_of (fastFuncMap st) (name, cfg_UUID c) = Some c" using l that by (simp add: listed_def)
    then show "range_order (ord_items ords c) (shelfItems c)" using o fn by (auto simp: orders_ok_def configs_of_def)
    show "counted c" using owners_okD(1) [OF B(4), of "Inl (name, cfg_UUID c)"] c by (simp add: owned_def)
  qed
  then show "held (detach ords heap phase) = Some (name, map (\<lambda>c. c\<lparr>shelfItems := fmempty\<rparr>) cs)"
    by (simp add: held_detach h)
  then show "held_ok (fmdrop name (fastFuncMap st)) (detach ords heap phase)" by (simp add: held_ok_def)
qed

lemma pick_phase_inv:
  assumes inv: "ctl_inv X st" and E: "env_ok E" and P: "pick_phase E ords st f req = Some (st', phase)"
  shows "ctl_inv X st' \<and> phase_ok (ctl_heap st') phase \<and> in_flight phase = [] \<and> held phase = None"
proof -
  obtain heap n r where G: "GetConfigs (env_types E) (env_sortGPUs E) (env_uuids E) (ord_nodes ords) (prep_nm (ctl_prep st))
      (ctl_heap st) (ctl_uuid st) req = Some (heap, n, r)"
    and st': "st' = st\<lparr>ctl_prep := (ctl_prep st)\<lparr>prep_heap := heap\<rparr>, ctl_uuid := n\<rparr>" and ph: "phase = Picked f req r"
    using P by (auto simp: pick_phase_def split: Option.bind_splits)
  note ok = inv [unfolded ctl_inv_def]
  have "\<forall>c \<in> set cs. committable heap c" if "r = Inr cs" for cs
    using GetConfigs_committable [OF _ books_okD(2) [OF ok] G [unfolded that]] E by (simp add: env_ok_def)
  then show ?thesis
    using GetConfigs_inv(3) [OF ok G] unfolding st' ph by (auto simp: ctl_inv_def phase_ok_def in_flight_def split: sum.split)
qed

lemma commit_phase_inv:
  assumes inv: "ctl_inv X st" and E: "env_ok E" and ok: "phase_ok (ctl_heap st) (Picked f req r)"
    and fits: "commit_fits (ctl_heap st) (Picked f req r)" and C: "commit_phase E st f req r = (st', phase)"
  shows "ctl_inv (in_flight phase @ X) st' \<and> phase_ok (ctl_heap st') phase \<and> held phase = None"
proof (cases r)
  case (Inl e)
  then show ?thesis using inv C by (auto simp: commit_phase_def ctl_inv_def phase_ok_def in_flight_def)
next
  case (Inr cs)
  obtain prep new where P: "PrepareConfigsRequirements (env_types E) (env_answers E) req (ctl_prep st) cs = (prep, new)" by force
  then have o: "st' = st\<lparr>ctl_prep := prep\<rparr>" "phase = Prepared f new" using C Inr by (simp_all add: commit_phase_def)
  note b = inv [unfolded ctl_inv_def]
  have bud: "budget (ctl_heap st) (sum_list (map wanted cs))"
    using fits books_okD(1) [OF b] wanted_nonneg [of cs] by (auto simp: commit_fits_def Inr budget_def list_all_iff)
  have com: "\<forall>c \<in> set cs. committable (ctl_heap st) c" using ok by (simp add: phase_ok_def Inr)
  have "answers_sane (env_answers E)" using E by (simp add: env_ok_def)
  note I = commit_inv [OF b this com bud P]
  show ?thesis using I(1,3) committed_has_items unfolding o by (auto simp: ctl_inv_def phase_ok_def in_flight_def)
qed

lemma advance_inv:
  assumes inv: "ctl_inv (in_flight phase @ X) st" and ok: "phase_ok (ctl_heap st) phase" and E: "env_ok E"
    and fits: "commit_fits (ctl_heap st) phase" and h: "held_ok (fastFuncMap st) phase"
    and items: "\<And>f upd rem. phase = Agreed f upd rem \<Longrightarrow> items_ok ords (held_configs upd rem)"
    and A: "advance E ords st phase = Some (st', phase', err)"
  shows "ctl_inv (in_flight phase' @ given_up st phase err @ X) st' \<and> phase_ok (ctl_heap st') phase' \<and>
    held_ok (fastFuncMap st') phase' \<and> (\<forall>c \<in> set (given_up st phase err). has_items c)"
proof (cases phase)
  case Idle
  then show ?thesis using inv ok A by (simp add: advance_def given_up_def)
next
  case (Decided f req)
  then obtain "pick_phase E ords st f req = Some (st', phase')" using A by (auto simp: advance_def)
  from pick_phase_inv [OF _ E this] inv show ?thesis by (simp add: Decided given_up_def in_flight_def)
next
  case (Picked f req r)
  then have "commit_phase E st f req r = (st', phase')" using A by (auto simp: advance_def split: prod.splits)
  from commit_phase_inv [OF _ E ok [unfolded Picked] fits [unfolded Picked] this] inv
  show ?thesis by (simp add: Picked given_up_def in_flight_def)
next
  case (Prepared f new)
  then show ?thesis
    using A inv ok by (auto simp: advance_def create_phase_def given_up_def in_flight_def phase_ok_def ctl_inv_def Let_def
        split: prod.splits option.splits)
next
  case (Created f new)
  show ?thesis
  proof (cases "fmlookup (fastFuncMap st) (ff_Name f)")
    case None
    then show ?thesis
      using A inv ok Created by (auto simp: advance_def record_phase_def given_up_def in_flight_def phase_ok_def)
  next
    case (Some fn)
    then have "fmupd (ff_Name f) fn (fastFuncMap st) = fastFuncMap st" by (intro fmap_ext) auto
    then have "books_ok (new @ X) (fmupd (ff_Name f) fn (fastFuncMap st)) (ctl_prep st)"
      using inv by (simp add: ctl_inv_def Created in_flight_def)
    note enlist_inv [OF this]
    then show ?thesis
      using A Created Some by (auto simp: advance_def record_phase_def given_up_def in_flight_def phase_ok_def ctl_inv_def)
  qed
next
  case (Selected f nm rem upd)
  then have A': "agree_phase E st f nm rem upd = Some (st', phase')" using A by (auto simp: advance_def)
  obtain cl upd' rem' where o: "st' = st\<lparr>ctl_cluster := cl\<rparr>" "phase' = Agreed f upd' rem'"
      "mset (held_configs upd' rem') \<subseteq># mset (held_configs upd rem)" using agree_phase_held [OF A'] by blast
  have "held_ok (fastFuncMap st) phase'" by (rule held_ok_fewer [OF h _ _ o(3)]) (simp_all add: Selected o(2))
  then show ?thesis using inv by (simp add: Selected o given_up_def in_flight_def phase_ok_def ctl_inv_def)
next
  case (Agreed f upd rem)
  then have o: "st' = shrink_phase ords st f upd rem" "phase' = Idle" using A by (simp_all add: advance_def)
  have i: "items_ok ords (held_configs upd rem)" using items Agreed by blast
  have inv': "ctl_inv X st" using inv by (simp add: Agreed in_flight_def)
  have "ctl_inv X st'"
  proof (cases "fmlookup (fastFuncMap st) (ff_Name f)")
    case None
    have "\<forall>c \<in> set (held_configs upd rem). shelfItems c = fmempty" using held_okD(1) [OF h _ None] by (simp add: Agreed)
    from idle_change_inv [OF shrink_unlisted [OF None i this] inv'] show ?thesis by (simp add: o)
  next
    case (Some fn)
    have "listed (fastFuncMap st) (ff_Name f) (held_configs upd rem)" using held_okD(2) [OF h] Some by (simp add: Agreed)
    from shrink_phase_inv [OF inv' Some this i] show ?thesis by (simp add: o)
  qed
  then show ?thesis by (simp add: Agreed o(2) given_up_def in_flight_def phase_ok_def)
qed

lemma fine_invD:
  assumes "fine_inv s"
  shows "ctl_inv (in_flight (fine_phase s) @ fine_lost s) (sys_ctl (fine_sys s))"
    "sys_inv (in_flight (fine_phase s) @ fine_lost s) (fine_sys s)"
    "books_ok (in_flight (fine_phase s) @ fine_lost s) (fastFuncMap (sys_ctl (fine_sys s))) (ctl_prep (sys_ctl (fine_sys s)))"
    "phase_ok (ctl_heap (sys_ctl (fine_sys s))) (fine_phase s)" "held_ok (fastFuncMap (sys_ctl (fine_sys s))) (fine_phase s)"
    "\<forall>c \<in> set (fine_lost s). has_items c" "fine_phase s \<noteq> Idle \<Longrightarrow> once_done (sys_rec (fine_sys s))"
  using assms by (simp_all add: fine_inv_def sys_inv_def ctl_inv_def)

lemma fine_step_inv:
  assumes "fine_step E s t" "env_ok E" "fine_inv s" shows "fine_inv t"
  using assms(1)
proof (cases rule: fine_step.cases)
  case (other u)
  note F = fine_invD [OF assms(3)]
  have "sys_inv (in_flight (fine_phase s) @ fine_lost s) u" using side_step_inv [OF other(2) F(2)] .
  moreover have "phase_ok (ctl_heap (sys_ctl u)) (fine_phase s)"
    using F(4) side_step_frame(1) [OF other(2)] phase_ok_length by (metis order_refl)
  moreover have "held_ok (fastFuncMap (sys_ctl u)) (fine_phase s)" using F(5) other(3) by (rule held_ok_cong)
  ultimately show ?thesis using F(6,7) side_step_frame(2) [OF other(2)] unfolding other(1) by (simp add: fine_inv_def)
next
  case (deletion name cs fn ords r err)
  note F = fine_invD [OF assms(3)]
  let ?st = "sys_ctl (fine_sys s)" and ?phase = "detach ords (ctl_heap (sys_ctl (fine_sys s))) (fine_phase s)"
  note D = detach_held_ok [OF F(1,5) deletion(2-4), of "ctl_heap ?st"]
  have p: "in_flight (fine_phase s) = []" "fine_phase s \<noteq> Idle" "in_flight ?phase = []" "phase_ok heap ?phase" for heap
    using held_in_flight [of "fine_phase s"] held_in_flight [of ?phase] deletion(2) D(1) by simp_all
  have ctl: "rec_ctl r = handleDeletedFaSTFunc ords ?st name" "once_done r = once_done (sys_rec (fine_sys s))"
    using deletion(5) by (auto simp: Reconcile_def)
  have "sys_inv (fine_lost s) ((fine_sys s)\<lparr>sys_rec := r\<rparr>)"
    using sys_inv_reconcile [OF F(2) deletion(5)] deletion(3,4) p(1) by simp
  then show ?thesis using F(6) F(7) [OF p(2)] D(2) p(3,4) unfolding deletion(1)
    by (simp add: fine_inv_def ctl handleDeleted_map)
next
  case (begin_check ords f rps prom now rps10s rps30s rps30s_earlier c phase)
  note F = fine_invD [OF assms(3), unfolded begin_check(2)]
  have inv: "sys_inv (fine_lost s) (fine_sys s)" "ctl_inv (fine_lost s) (sys_ctl (fine_sys s))"
    using F(1,2) by (simp_all add: in_flight_def)
  have "slice_sort (env_sortConfigs E)" using assms(2) by (simp add: env_ok_def)
  note D = decide_phase_inv [OF inv(2) begin_check(4) this begin_check(7)]
  have "in_flight phase = []" "phase_ok heap phase" "held_ok (fastFuncMap c) phase" for heap
    using D(4,7) by (auto simp: in_flight_def phase_ok_def held_ok_def)
  moreover have "sys_inv (fine_lost s) (set_ctl c (fine_sys s))" using sys_inv_set_ctl [OF inv(1) begin_check(3) D(1)] .
  ultimately show ?thesis using F(6) begin_check(3) unfolding begin_check(1) by (simp add: fine_inv_def set_ctl_def)
next
  case (next_phase ords c phase err)
  note F = fine_invD [OF assms(3)]
  note A = advance_inv [OF F(1,4) assms(2) next_phase(3) F(5) next_phase(4,5)]
  then show ?thesis
    using sys_inv_set_ctl [OF F(2) F(7) [OF next_phase(2)]] F(6) F(7) [OF next_phase(2)]
    unfolding next_phase(1) by (auto simp: fine_inv_def set_ctl_def)
qed

lemma fine_inv_start: "fine_inv (fine_start itv store cluster t)"
  using sys_inv_start by (simp add: fine_inv_def fine_start_def in_flight_def phase_ok_def)

lemma fine_inv_reachable: "fine_reachable E itv store s \<Longrightarrow> env_ok E \<Longrightarrow> fine_inv s"
  by (induction rule: fine_reachable.induct) (auto intro: fine_inv_start fine_step_inv)

section \<open>The whole check as one step\<close>

text \<open>Phases that follow each other without interference. The counters suffice in the commit if they suffice before.\<close>

definition counters_ok :: "('s, 'p, 'o) environment \<Rightarrow> orders \<Rightarrow> 's controller \<Rightarrow> 'p check_phase \<Rightarrow> bool" where
  "counters_ok E ords st phase = (case phase of Decided f req \<Rightarrow> ids_suffice E ords st req
     | Selected f nm toRemove toUpdate \<Rightarrow> items_ok ords (held_configs toUpdate toRemove)
     | Agreed f configsUpdated configsRemoved \<Rightarrow> items_ok ords (held_configs configsUpdated configsRemoved)
     | _ \<Rightarrow> commit_fits (ctl_heap st) phase)"

lemma counters_ok_commit: "counters_ok E ords st phase \<Longrightarrow> commit_fits (ctl_heap st) phase"
    "counters_ok E ords st phase \<Longrightarrow> phase = Agreed f upd rem \<Longrightarrow> items_ok ords (held_configs upd rem)"
  by (cases phase; simp add: counters_ok_def commit_fits_def)+

lemma counters_ok_advance:
  assumes "counters_ok E ords st phase" "advance E ords st phase = Some (st', phase', err)" shows "counters_ok E ords st' phase'"
proof (cases phase)
  case (Selected f nm rem upd)
  then obtain "agree_phase E st f nm rem upd = Some (st', phase')" using assms(2) by (auto simp: advance_def)
  from agree_phase_held [OF this] show ?thesis
    using assms(1) items_ok_submset unfolding Selected counters_ok_def by fastforce
qed (use assms in \<open>auto simp: counters_ok_def commit_fits_def ids_suffice_def advance_def pick_phase_def commit_phase_def
      create_phase_def Let_def split: Option.bind_splits sum.splits prod.splits option.splits\<close>)

lemma advance_error: "advance E ords st phase = Some (st', phase', Some e) \<Longrightarrow> phase' = Idle"
  by (cases phase) (auto simp: advance_def commit_phase_def create_phase_def Let_def split: prod.splits option.splits)

lemma run_phases_fine:
  assumes "run_phases n E ords st phase = Some (st', err)" "counters_ok E ords st phase"
    and "fine_reachable E itv store \<lparr>fine_sys = set_ctl st s, fine_phase = phase, fine_lost = lost\<rparr>"
  shows "\<exists>lost'. fine_reachable E itv store \<lparr>fine_sys = set_ctl st' s, fine_phase = Idle, fine_lost = lost'\<rparr>"
  using assms
proof (induction n arbitrary: st phase lost)
  case 0
  then show ?case by (cases phase) auto
next
  case (Suc n)
  show ?case
  proof (cases "phase = Idle")
    case False
    then obtain st1 phase1 err1 where A: "advance E ords st phase = Some (st1, phase1, err1)"
      and R: "(case err1 of Some e \<Rightarrow> Some (st1, Some e) | None \<Rightarrow> run_phases n E ords st1 phase1) = Some (st', err)"
      using Suc.prems(1) by (cases phase) (auto split: Option.bind_splits)
    have "fine_step E \<lparr>fine_sys = set_ctl st s, fine_phase = phase, fine_lost = lost\<rparr>
        \<lparr>fine_sys = set_ctl st1 s, fine_phase = phase1, fine_lost = given_up st phase err1 @ lost\<rparr>"
      using fine_step.next_phase [where s = "\<lparr>fine_sys = set_ctl st s, fine_phase = phase, fine_lost = lost\<rparr>" and ords = ords and E = E]
        False A counters_ok_commit [OF Suc.prems(2)] by auto
    with Suc.prems(3) have F: "fine_reachable E itv store
        \<lparr>fine_sys = set_ctl st1 s, fine_phase = phase1, fine_lost = given_up st phase err1 @ lost\<rparr>"
      by (rule fine_reachable.step)
    show ?thesis
    proof (cases err1)
      case None
      then show ?thesis using Suc.IH [OF _ counters_ok_advance [OF Suc.prems(2) A] F] R by simp
    next
      case (Some e)
      then show ?thesis using advance_error [of E ords st phase st1 phase1 e] A F R by auto
    qed
  qed (use Suc.prems in auto)
qed

lemma check_fine:
  assumes s: "fine_reachable E itv store \<lparr>fine_sys = s, fine_phase = Idle, fine_lost = lost\<rparr>" and o: "once_done (sys_rec s)"
    and ords: "orders_ok ords (lookup_func (sys_ctl s) (ff_Name f))"
    and ids: "counters_suffice E prom now ords (sys_ctl s) f"
    and R: "reconcile_one E prom now ords (sys_ctl s) f = Some c" and srt: "slice_sort (env_sortConfigs E)"
    and inv: "ctl_inv X (sys_ctl s)"
  shows "\<exists>lost'. fine_reachable E itv store \<lparr>fine_sys = set_ctl c s, fine_phase = Idle, fine_lost = lost'\<rparr>"
proof (cases "min_rps f")
  case None
  then show ?thesis using R s by (auto simp: reconcile_one_def)
next
  case (Some rps)
  show ?thesis
  proof (cases "getRPSMetrics prom (ff_Name f) (ff_Namespace f) now")
    case None
    then show ?thesis using R s Some by (auto simp: reconcile_one_def)
  next
    case (Some rates)
    obtain a b d where rates: "rates = (a, b, d)" using prod_cases3 by blast
    obtain err where "UpdateFunction E ords (sys_ctl s) f a b d (float64_of_int rps) (preferred_gpu f) = Some (c, err)"
      using R Some \<open>min_rps f = Some rps\<close> rates by (auto simp: reconcile_one_def)
    then obtain c1 phase where D: "decide_phase E ords (sys_ctl s) f a b d (float64_of_int rps) (preferred_gpu f) = (c1, phase)"
      and run: "run_phases 4 E ords c1 phase = Some (c, err)"
      unfolding UpdateFunction_phases by (auto split: prod.splits)
    note I = decide_phase_inv [OF inv ords srt D]
    have "orders_ok ords (lookup_func c1 (ff_Name f))" using ords I(6) by (simp add: orders_ok_def)
    then have "counters_ok E ords c1 phase"
      using I(2,3,7) ids \<open>min_rps f = Some rps\<close> Some rates held_items_ok
      by (auto simp: counters_ok_def commit_fits_def ids_suffice_def counters_suffice_def)
    moreover have "fine_step E \<lparr>fine_sys = s, fine_phase = Idle, fine_lost = lost\<rparr>
        \<lparr>fine_sys = set_ctl c1 s, fine_phase = phase, fine_lost = lost\<rparr>"
      using fine_step.begin_check [where s = "\<lparr>fine_sys = s, fine_phase = Idle, fine_lost = lost\<rparr>" and ords = ords and E = E]
        o ords D \<open>min_rps f = Some rps\<close> Some rates by simp
    ultimately show ?thesis using run_phases_fine [OF run] fine_reachable.step [OF s] by blast
  qed
qed

lemma whole_checks_fine:
  assumes "sys_reachable E itv store s" "env_ok E"
  shows "\<exists>lost. fine_reachable E itv store \<lparr>fine_sys = s, fine_phase = Idle, fine_lost = lost\<rparr>"
  using assms(1)
proof (induction rule: sys_reachable.induct)
  case (start cluster t)
  then show ?case using fine_reachable.start [of E itv store cluster t] by (auto simp: fine_start_def)
next
  case (step s s')
  then obtain lost where s: "fine_reachable E itv store \<lparr>fine_sys = s, fine_phase = Idle, fine_lost = lost\<rparr>" by blast
  from step.hyps(2) show ?case
  proof (cases rule: sys_step.cases)
    case side
    then show ?thesis
      using fine_reachable.step [OF s fine_step.other, of s'] by auto
  next
    case (check ords f prom now c)
    have "sys_inv [] s" using sys_inv_reachable [OF step.hyps(1) assms(2)] .
    then have "ctl_inv [] (sys_ctl s)" by (simp add: sys_inv_def)
    moreover have "slice_sort (env_sortConfigs E)" using assms(2) by (simp add: env_ok_def)
    ultimately show ?thesis using check_fine [OF s check(2-5)] check(1) by blast
  qed
qed

section \<open>Properties\<close>



text \<open>
  C2. The books are kept at the grain of the locks. Whatever the release worker, the timers, the nodes and the
  deletion of functions do between the phases of a check: every configuration that is listed, in
  flight or lost refers to a GPU record and owns all its items in that GPU's packer, no two of them own the same item, and
  every packer is well-formed.
\<close>

theorem interleaved_books:
  assumes "fine_reachable E itv store s" "env_ok E"
  defines "books \<equiv> entries (in_flight (fine_phase s) @ fine_lost s) (fastFuncMap (sys_ctl (fine_sys s)))"
  shows "(\<forall>k c. books k = Some c \<longrightarrow> owned (ctl_heap (sys_ctl (fine_sys s))) c) \<and>
    (\<forall>k l c d. books k = Some c \<and> books l = Some d \<and> k \<noteq> l \<longrightarrow> no_sharing c d) \<and>
    (\<forall>g \<in> set (ctl_heap (sys_ctl (fine_sys s))). wf_packer (Usage g))"
proof -
  note B = books_okD [OF fine_invD(3) [OF fine_inv_reachable [OF assms(1,2)]]]
  show ?thesis using owners_okD [OF B(4)] budgetD(2) [OF B(1)] unfolding books_def by blast
qed

lemma lost_stays: "fine_step E s t \<Longrightarrow> set (fine_lost s) \<subseteq> set (fine_lost t)"
  by (elim fine_stepE) auto

text \<open>What happens to a check whose function is gone: its configurations are lost in the end.\<close>

definition doomed :: "'p FaSTFunc \<Rightarrow> Config list \<Rightarrow> ('s, 'p) fine \<Rightarrow> bool" where
  "doomed f new s \<longleftrightarrow> fine_phase s \<in> {Prepared f new, Created f new} \<and>
     fmlookup (fastFuncMap (sys_ctl (fine_sys s))) (ff_Name f) = None \<or> set new \<subseteq> set (fine_lost s)"

lemma doomed_step:
  assumes "fine_step E s t" "doomed f new s" shows "doomed f new t"
proof (cases "set new \<subseteq> set (fine_lost s)")
  case True
  then show ?thesis using lost_stays [OF assms(1)] unfolding doomed_def by blast
next
  case False
  then have s: "fine_phase s \<in> {Prepared f new, Created f new}"
      "fmlookup (fastFuncMap (sys_ctl (fine_sys s))) (ff_Name f) = None"
    using assms(2) unfolding doomed_def by blast+
  from assms(1) show ?thesis
  proof (cases rule: fine_step.cases)
    case (other u)
    then show ?thesis using s side_step_frame(3) [OF other(2)] by (simp add: doomed_def)
  next
    case begin_check
    then show ?thesis using s by auto
  next
    case deletion
    then show ?thesis using s by auto
  next
    case (next_phase ords c phase err)
    then show ?thesis
      using s by (auto simp: doomed_def advance_def create_phase_def given_up_def Let_def split: prod.splits option.splits)
  qed
qed

lemma doomed_steps: "(fine_step E)\<^sup>*\<^sup>* s t \<Longrightarrow> doomed f new s \<Longrightarrow> doomed f new t"
  by (induction rule: rtranclp_induct) (auto intro: doomed_step)

lemma fine_reachable_steps: "(fine_step E)\<^sup>*\<^sup>* s t \<Longrightarrow> fine_reachable E itv store s \<Longrightarrow> fine_reachable E itv store t"
  by (induction rule: rtranclp_induct) (auto intro: fine_reachable.step)

lemma lost_unlisted:
  assumes "fine_inv s" "c \<in> set (in_flight (fine_phase s) @ fine_lost s)"
  shows "owned (ctl_heap (sys_ctl (fine_sys s))) c" "has_items c" "configs_of (fastFuncMap (sys_ctl (fine_sys s))) k \<noteq> Some c"
proof -
  let ?X = "in_flight (fine_phase s) @ fine_lost s" and ?funcs = "fastFuncMap (sys_ctl (fine_sys s))"
  note O = books_okD(4) [OF fine_invD(3) [OF assms(1)]]
  obtain i where i: "i < length ?X" "?X ! i = c" using assms(2) by (metis in_set_conv_nth)
  then have e: "entries ?X ?funcs (Inr i) = Some c" by (simp add: entries_def)
  show "owned (ctl_heap (sys_ctl (fine_sys s))) c" using owners_okD(1) [OF O e] .
  show h: "has_items c" using assms by (auto simp: fine_inv_def phase_ok_def)
  show "configs_of ?funcs k \<noteq> Some c"
  proof
    assume "configs_of ?funcs k = Some c"
    then have "no_sharing c c" using owners_okD(2) [OF O, of "Inl k" c "Inr i" c] e by simp
    then have "fmdom (shelfItems c) = {||}" by (simp add: no_sharing_def)
    then have "shelfItems c = fmempty" by (intro fmap_ext) (simp add: fmdom_notD)
    then show False using h by (simp add: has_items_def)
  qed
qed

text \<open>
  C7. Deleting a function during its check leaks GPU shares. \<open>handleDeletedFaSTFunc\<close> gives back only what the
  function lists; if the check in flight has committed configurations by then, it records them in a \<^verbatim>\<open>FastFunc\<close>
  that nothing refers to. In every state after that, each of these configurations still holds its
  items, at least one, in its GPU's packer, and no function lists it, so nothing will ever give them back.
\<close>

theorem deletion_during_check_leaks:
  assumes "fine_reachable E itv store s" "env_ok E" "fine_phase s \<in> {Prepared f new, Created f new}"
    and "fmlookup (fastFuncMap (sys_ctl (fine_sys s))) (ff_Name f) = None" "(fine_step E)\<^sup>*\<^sup>* s t" "c \<in> set new"
  shows "owned (ctl_heap (sys_ctl (fine_sys t))) c \<and> shelfItems c \<noteq> fmempty \<and>
    (\<forall>k. configs_of (fastFuncMap (sys_ctl (fine_sys t))) k \<noteq> Some c)"
proof -
  have "doomed f new s" using assms(3,4) by (simp add: doomed_def)
  from doomed_steps [OF assms(5) this] have "c \<in> set (in_flight (fine_phase t) @ fine_lost t)"
    using assms(6) by (auto simp: doomed_def in_flight_def)
  note L = lost_unlisted [OF fine_inv_reachable [OF fine_reachable_steps [OF assms(5,1)] assms(2)] this]
  show ?thesis using L by (simp add: has_items_def)
qed

end
