(* ===== verification/Http_Server.thy ===== *)
theory Http_Server
  imports Autoscaler
begin

text \<open>
  The HTTP handler of \<open>startAPIServer\<close> in \<^verbatim>\<open>internal/controller/fastfunc_controller.go\<close>: \<^verbatim>\<open>/current-configs?name=\<close>
  answers with the configurations of a function. The JSON it sends is modelled as the tree of values
  that \<^verbatim>\<open>encoding/json\<close> makes of a \<^verbatim>\<open>[]*Config\<close> (the exported fields under their names), not as text.
\<close>

section \<open>JSON\<close>

datatype json = JString string | JInt int | JFloat float64 | JArray "json list" | JObject "(string \<times> json) list"

text \<open>\<^verbatim>\<open>encoding/json\<close> cannot write NaN and the infinities; the error makes the whole value fail.\<close>

primrec encodable :: "json \<Rightarrow> bool" where
  "encodable (JString s) = True"
| "encodable (JInt i) = True"
| "encodable (JFloat x) = is_finite x"
| "encodable (JArray vs) = list_all id (map encodable vs)"
| "encodable (JObject fs) = list_all (\<lambda>(k, ok). ok) (map (map_prod id encodable) fs)"

definition json_of_config :: "Config \<Rightarrow> json" where
  "json_of_config c = JObject
    [(''AllocationType'', JString (cfg_AllocationType c)), (''UUID'', JString (cfg_UUID c)),
     (''QuotaReq'', JFloat (QuotaReq c)), (''QuotaLimit'', JFloat (QuotaLimit c)), (''MemoryReq'', JInt (MemoryReq c)),
     (''SMPartition'', JInt (SMPartition c)), (''NodeName'', JString (cfg_NodeName c)), (''VGPUUUID'', JString (VGPUUUID c)),
     (''RequiredReplica'', JInt (RequiredReplica c)), (''SatisfiableRPS'', JFloat (SatisfiableRPS c)),
     (''QpsPerReplica'', JFloat (QpsPerReplica c)), (''Cost'', JFloat (Cost c)),
     (''AllocatedReplica'', JInt (AllocatedReplica c)), (''AllocatedRPS'', JFloat (AllocatedRPS c))]"

section \<open>The handler\<close>

datatype http_body = PlainText string | Json json

record http_response =
  status_code :: int
  http_body :: http_body

definition http_Error :: "string \<Rightarrow> int \<Rightarrow> http_response" where
  "http_Error msg code = \<lparr>status_code = code, http_body = PlainText msg\<rparr>"

text \<open>The handler reads the map of functions without changing anything; \<open>order\<close> is the order in which the function's
  configurations are visited.\<close>

definition current_configs :: "(string, FastFunc) fmap \<Rightarrow> string list \<Rightarrow> string \<Rightarrow> http_response" where
  "current_configs funcs order name =
    (if name = [] then http_Error ''Missing 'name' query parameter'' 400
     else case fmlookup funcs name of
       None \<Rightarrow> http_Error ''Function not found'' 404
     | Some fastfunc \<Rightarrow>
         let configs = JArray (map json_of_config (CurrentConfigs order fastfunc))
         in if encodable configs then \<lparr>status_code = 200, http_body = Json configs\<rparr>
            else http_Error ''Failed to encode configs'' 500)"

text \<open>What a client reads: a field of an object.\<close>

definition json_field :: "string \<Rightarrow> json \<Rightarrow> json option" where
  "json_field k v = (case v of JObject fs \<Rightarrow> map_of fs k | _ \<Rightarrow> None)"

lemmas http_eval [go_eval] =
  json_of_config_def http_Error_def current_configs_def json_field_def

text \<open>
  How the server is started, with the package's \<open>init\<close>: what the package \<^verbatim>\<open>net/http\<close> has been told. \<^verbatim>\<open>HandleFunc\<close> panics (None) if the
  pattern is there already; \<^verbatim>\<open>sync.Once\<close> counts a call that panics as done.
\<close>

record api_server =
  apiServerOnce :: bool
  http_patterns :: "string list"
  http_listening :: "string list"

definition startAPIServer :: "api_server \<Rightarrow> api_server option" where
  "startAPIServer s =
    (if ''/current-configs'' \<in> set (http_patterns s) then None
     else Some (s\<lparr>http_patterns := ''/current-configs'' # http_patterns s, http_listening := '':9001'' # http_listening s\<rparr>))"

definition controller_init :: "api_server \<Rightarrow> api_server option" where
  "controller_init s = (if apiServerOnce s then Some s else startAPIServer (s\<lparr>apiServerOnce := True\<rparr>))"

lemma controller_init_once:
  assumes "''/current-configs'' \<notin> set (http_patterns s)" "\<not> apiServerOnce s"
  obtains t where "controller_init s = Some t" "http_listening t = '':9001'' # http_listening s" "controller_init t = Some t"
  using assms by (simp add: controller_init_def startAPIServer_def)

section \<open>What is served\<close>

definition finite_rates :: "Config \<Rightarrow> bool" where
  "finite_rates c \<longleftrightarrow> is_finite (QuotaReq c) \<and> is_finite (QuotaLimit c) \<and> is_finite (SatisfiableRPS c) \<and>
     is_finite (QpsPerReplica c) \<and> is_finite (Cost c) \<and> is_finite (AllocatedRPS c)"

lemma encodable_config [simp]: "encodable (json_of_config c) = finite_rates c"
  by (auto simp: json_of_config_def finite_rates_def)

lemma served_uuids: "map (json_field ''UUID'') (map json_of_config cs) = map (Some \<circ> JString \<circ> cfg_UUID) cs"
  by (simp add: json_field_def json_of_config_def)

text \<open>
  C21. In every reachable state of the controller the server tells the truth: asked for a function it
  answers 400 without a name, 404 if there is no such function, 500 if one of its configurations
  has a rate, quota or cost that is not finite, and otherwise 200 with one object for each
  configuration of the function, under distinct UUIDs that are those of the function's books,
  from which the configuration's node, share, memory and replicas can be read back.
\<close>

theorem current_configs_truthful:
  assumes "sys_reachable E itv store s" "env_ok E"
    and "\<And>fn. fmlookup (fastFuncMap (sys_ctl s)) name = Some fn \<Longrightarrow> range_order order (configUUIDToConfig fn)"
  shows "case (name = [], fmlookup (fastFuncMap (sys_ctl s)) name) of
      (True, _) \<Rightarrow> status_code (current_configs (fastFuncMap (sys_ctl s)) order name) = 400
    | (False, None) \<Rightarrow> status_code (current_configs (fastFuncMap (sys_ctl s)) order name) = 404
    | (False, Some fn) \<Rightarrow>
        if \<forall>u c. fmlookup (configUUIDToConfig fn) u = Some c \<longrightarrow> finite_rates c
        then \<exists>objs. current_configs (fastFuncMap (sys_ctl s)) order name = \<lparr>status_code = 200, http_body = Json (JArray objs)\<rparr> \<and>
          map (json_field ''UUID'') objs = map (Some \<circ> JString) order \<and>
          (\<forall>u c. fmlookup (configUUIDToConfig fn) u = Some c \<longrightarrow> (\<exists>obj \<in> set objs.
            json_field ''UUID'' obj = Some (JString u) \<and> json_field ''NodeName'' obj = Some (JString (cfg_NodeName c)) \<and>
            json_field ''SMPartition'' obj = Some (JInt (SMPartition c)) \<and> json_field ''QuotaReq'' obj = Some (JFloat (QuotaReq c)) \<and>
            json_field ''MemoryReq'' obj = Some (JInt (MemoryReq c)) \<and>
            json_field ''AllocatedReplica'' obj = Some (JInt (AllocatedReplica c))))
        else status_code (current_configs (fastFuncMap (sys_ctl s)) order name) = 500"
proof (cases "name = [] \<or> fmlookup (fastFuncMap (sys_ctl s)) name = None")
  case True
  then show ?thesis by (cases "name = []") (auto simp: current_configs_def http_Error_def)
next
  case False
  then obtain fn where fn: "name \<noteq> []" "fmlookup (fastFuncMap (sys_ctl s)) name = Some fn" by auto
  note ro = assms(3) [OF fn(2)]
  have mem: "c \<in> set (CurrentConfigs order fn) \<longleftrightarrow> (\<exists>u. fmlookup (configUUIDToConfig fn) u = Some c)" for c
    using CurrentConfigs_mem [OF ro] .
  have "ctl_inv [] (sys_ctl s)" using sys_inv_reachable [OF assms(1,2)] by (simp add: sys_inv_def)
  then have u: "cfg_UUID c = u" if "fmlookup (configUUIDToConfig fn) u = Some c" for u c
    using books_okD(5) [of "[]" "fastFuncMap (sys_ctl s)" "ctl_prep (sys_ctl s)" name u c] that fn(2)
    by (simp add: ctl_inv_def configs_of_def)
  let ?objs = "map json_of_config (CurrentConfigs order fn)"
  have enc: "encodable (JArray ?objs) \<longleftrightarrow> (\<forall>u c. fmlookup (configUUIDToConfig fn) u = Some c \<longrightarrow> finite_rates c)"
    using mem by (auto simp: list_all_iff)
  show ?thesis
  proof (cases "\<exists>u c. fmlookup (configUUIDToConfig fn) u = Some c \<and> \<not> finite_rates c")
    case True
    then show ?thesis using fn enc by (auto simp: current_configs_def http_Error_def)
  next
    case fin: False
    then have "encodable (JArray ?objs)" using enc by blast
    then have r: "current_configs (fastFuncMap (sys_ctl s)) order name = \<lparr>status_code = 200, http_body = Json (JArray ?objs)\<rparr>"
      using fn by (simp add: current_configs_def)
    have "map cfg_UUID (List.map_filter (fmlookup (configUUIDToConfig fn)) us) = filter (\<lambda>u. fmlookup (configUUIDToConfig fn) u \<noteq> None) us" for us
      using u by (induction us) (auto simp: List.map_filter_def)
    moreover have "filter (\<lambda>u. fmlookup (configUUIDToConfig fn) u \<noteq> None) order = order"
      using range_order_mem [OF ro] by (auto simp: filter_id_conv)
    ultimately have "map cfg_UUID (CurrentConfigs order fn) = order" by (simp add: CurrentConfigs_def)
    then have uu: "map (json_field ''UUID'') ?objs = map (Some \<circ> JString) order"
      unfolding served_uuids by (metis list.map_comp)
    have f: "\<exists>obj \<in> set ?objs.
        json_field ''UUID'' obj = Some (JString v) \<and> json_field ''NodeName'' obj = Some (JString (cfg_NodeName c)) \<and>
        json_field ''SMPartition'' obj = Some (JInt (SMPartition c)) \<and> json_field ''QuotaReq'' obj = Some (JFloat (QuotaReq c)) \<and>
        json_field ''MemoryReq'' obj = Some (JInt (MemoryReq c)) \<and> json_field ''AllocatedReplica'' obj = Some (JInt (AllocatedReplica c))"
      if "fmlookup (configUUIDToConfig fn) v = Some c" for v c
      using that u [OF that] mem [of c] by (intro bexI [of _ "json_of_config c"]) (auto simp: json_field_def json_of_config_def)
    show ?thesis using fn fin r uu f by auto
  qed
qed

end
