(* ===== verification/Scenario.thy ===== *)
theory Scenario
  imports Interleaving Http_Server
begin

text \<open>
  A concrete run: a node with one free A100 connects, \<open>Reconcile\<close> starts the loop, and a check of a new function
  picks the whole GPU, has it provisioned, commits a replica on it and creates its FaSTPod. It shows
  that the properties of the whole controller speak of states in which configurations are
  committed. The allocation type is the exclusive one, so the search looks at a single pair.
\<close>

definition exclusive_store :: QPSStore where
  "exclusive_store = \<lparr>data = [(\<lparr>key_ModelName = ''bert'', key_GPUType = ''a100'', SMPercentage = 100, Quota = Fin 1\<rparr>, Fin 10)]\<rparr>"

definition exclusive_environment :: "(unit, unit, unit) environment" where
  "exclusive_environment = example_environment\<lparr>env_GetAllocationType := (\<lambda>s. ''exclusive''),
     env_answers := (\<lambda>n c mps p. Some ([], \<lparr>pg_Uuid = ''gpu-1'', pg_MemoryBytes = 40000000000, pg_ParentUuid = ''a100-1''\<rparr>))\<rparr>"

definition one_node :: orders where
  "one_node = \<lparr>ord_nodes = [''n1''], ord_configs = [], ord_items = (\<lambda>c. [])\<rparr>"

definition free_gpu :: GPUInfo where
  "free_gpu = NewGPUDevInfo ''n1'' ''NVIDIA A100-PCIE-40GB'' True None ''v1'' 40000000000 100 10"

definition started :: NodeManager where
  "started = fst (the (handshake (NewNodeManager 5 exclusive_store) example_env 0))"

definition exclusive_request :: ResourceRequest where
  "exclusive_request = \<lparr>req_ModelName = ''bert'', req_QPS = f64 3, req_AllocationType = ''exclusive'', PreferredGPU = []\<rparr>"

lemma started: "handshake (NewNodeManager 5 exclusive_store) example_env 0 = Some (started, ''n1'')"
  by (simp add: started_def handshake_def example_env_def)

lemma started_node:
  obtains node where "fmlookup (nodes started) ''n1'' = Some node" "NodeName node = ''n1''" "Status node = NodeReady"
    "availableGPUs node = the (gpuList example_env)" "physicalGPUsMap node = fmempty" "nodes started = fmupd ''n1'' node fmempty"
    "qpsStore started = exclusive_store"
  by (simp add: started_def handshake_def example_env_def NewNodeManager_def Let_def)

lemma exclusive_env_ok: "env_ok exclusive_environment"
  using example_env_ok by (simp add: env_ok_def exclusive_environment_def answers_sane_def)

lemma free_gpu_simps:
  "gpu_NodeName free_gpu = ''n1''" "gpu_UUID free_gpu = ''v1''" "virtual free_gpu" "profileID free_gpu = None"
  "TotalMemory free_gpu = 40000000000" "UsageMemory free_gpu = 0" "TotalSMPercentage free_gpu = 100"
  "Usage free_gpu = NewShelf 100" "allocationType free_gpu = []" "GetTypeShortName free_gpu = ''a100''"
  by (simp_all add: free_gpu_def NewGPUDevInfo_def GetTypeShortName_def)

lemma exclusive_qps: "GetQPS exclusive_store ''bert'' (GetTypeShortName free_gpu) 100 (Fin 1) 0 = Fin 10"
proof -
  have "round_quota (Fin 1) = Fin 1" by (simp add: round_quota_def f64_eval)
  moreover have "float64_eq (Fin 1) (Fin 1)" by (simp add: float64_eq_def)
  ultimately show ?thesis by (simp add: GetQPS_def Get_def exclusive_store_def key_eq_def free_gpu_simps)
qed

lemma exclusive_fits: "Fits free_gpu 100 (Fin 1) 2073741824 = Inr True"
  by (simp add: Fits_def CanFit_def AvailableMemory_def free_gpu_simps NewShelf_def wrap64_eval)

lemma exclusive_max: "MaxInsertableItems (Usage free_gpu) (Fin 1) 100 = 1"
proof -
  have "int_of_float64 (Fin 1 / Fin 1) = 1" by (simp add: f64_eval)
  then show ?thesis by (simp add: free_gpu_simps MaxInsertableItems_def NewShelf_def wrap64_eval go_div_def)
qed

lemma exclusive_floats:
  "float64_of_int 1 = Fin 1" "Fin 10 * Fin 1 = Fin 10" "f64 3 = Fin 3" "Fin 10 > Fin 3" "\<not> float64_eq (Fin 10) (Fin 0)"
  "math_Ceil (Fin 3 / Fin 10) = Fin 1" "int_of_float64 (Fin 1) = 1" "\<not> Fin 3 \<le> Fin 0" "Fin 3 - Fin 10 \<le> Fin 0"
  by (simp_all add: f64_eval float64_eq_def)

lemma exclusive_by_memory:
  "math_Min (Fin 1) (math_Floor (float64_of_int 40000000000 / float64_of_int 2073741824)) = Fin 1"
proof -
  let ?m = "math_Floor (float64_of_int 40000000000 / float64_of_int 2073741824)"
  have "is_finite ?m" "fval ?m = of_int (40000000000 div 2073741824)" by (rule replicas_by_memory; simp)+
  then have "is_finite (math_Min (Fin 1) ?m)" "fval (math_Min (Fin 1) ?m) = 1"
    using math_Min_finite [of "Fin 1" ?m] by simp_all
  then show ?thesis by (cases "math_Min (Fin 1) ?m") simp_all
qed

lemma exclusive_limit: "is_finite (math_Min (Fin 1) (Fin 1 + f64 (3/10)))"
proof -
  have "f64 (3/10) = Fin (5404319552844595/18014398509481984)" by (simp add: f64_eval)
  moreover have "Fin 1 + Fin (5404319552844595/18014398509481984) = Fin (5854679515581645/4503599627370496)" by (simp add: f64_eval)
  ultimately show ?thesis by (simp only:) (simp add: math_Min_finite)
qed

text \<open>Arithmetic on whole numbers is exact up to \<open>2^53\<close>.\<close>

lemma exact_ints:
  assumes "is_finite x" "is_finite y" "fval x = of_int i" "fval y = of_int j" 
  shows "\<bar>i * j\<bar> \<le> 2 ^ 53 \<Longrightarrow> is_finite (x * y) \<and> fval (x * y) = of_int (i * j)"
    "i = k * j \<Longrightarrow> j \<noteq> 0 \<Longrightarrow> \<bar>k\<bar> \<le> 2 ^ 53 \<Longrightarrow> is_finite (x / y) \<and> fval (x / y) = of_int k"
proof -
  have big: "\<bar>of_int k\<bar> \<le> (2::rat) ^ 1023" if "\<bar>k\<bar> \<le> 2 ^ 53" for k :: int
  proof -
    have "\<bar>of_int k\<bar> \<le> (2::rat) ^ 53" using that by (metis of_int_abs of_int_le_iff of_int_numeral of_int_power)
    also have "(2::rat) ^ 53 \<le> 2 ^ 1023" by (rule power_increasing) simp_all
    finally show ?thesis .
  qed
  show "is_finite (x * y) \<and> fval (x * y) = of_int (i * j)" if "\<bar>i * j\<bar> \<le> 2 ^ 53"
    using times_finite [OF assms(1,2)] big [OF that] fl_of_int [OF that] assms(3,4) by (simp del: power_numeral)
  show "is_finite (x / y) \<and> fval (x / y) = of_int k" if "i = k * j" "j \<noteq> 0" "\<bar>k\<bar> \<le> 2 ^ 53"
    using divide_finite [OF assms(1,2)] big [OF that(3)] fl_of_int [OF that(3)] assms(3,4) that(1,2)
    by (simp del: power_numeral)
qed

lemma exclusive_cost: "is_finite (float64_of_int 12000 * float64_of_int 100 / f64 100 * Fin 1 * Fin 1)"
proof -
  have i: "is_finite (float64_of_int 12000)" "fval (float64_of_int 12000) = of_int 12000"
      "is_finite (float64_of_int 100)" "fval (float64_of_int 100) = of_int 100"
    using float64_of_int_exact [of 12000] float64_of_int_exact [of 100] by simp_all
  have h: "is_finite (f64 100)" "fval (f64 100) = of_int 100" "is_finite (Fin 1)" "fval (Fin 1) = of_int 1"
    by (simp_all add: f64_eval)
  have a: "is_finite (float64_of_int 12000 * float64_of_int 100)" "fval (float64_of_int 12000 * float64_of_int 100) = of_int 1200000"
    using exact_ints(1) [OF i(1,3,2,4)] by simp_all
  have b: "is_finite (float64_of_int 12000 * float64_of_int 100 / f64 100)"
      "fval (float64_of_int 12000 * float64_of_int 100 / f64 100) = of_int 12000"
    using exact_ints(2) [OF a(1) h(1) a(2) h(2), of 12000] by simp_all
  have c: "is_finite (float64_of_int 12000 * float64_of_int 100 / f64 100 * Fin 1)"
      "fval (float64_of_int 12000 * float64_of_int 100 / f64 100 * Fin 1) = of_int 12000"
    using exact_ints(1) [OF b(1) h(3) b(2) h(4)] by simp_all
  show ?thesis using exact_ints(1) [OF c(1) h(3) c(2) h(4)] by simp
qed

lemma exclusive_candidate:
  obtains c where "candidate exclusive_store free_gpu 0 ''bert'' (Fin 3) 2073741824 ''exclusive'' 100 (Fin 1) u = Some c"
    "RequiredReplica c = 1" "SatisfiableRPS c = Fin 10" "QuotaReq c = Fin 1" "SMPartition c = 100" "associatedGpu c = 0"
    "shelfItems c = fmempty" "cfg_UUID c = u" "QpsPerReplica c = Fin 10" "finite_rates c"
proof -
  have a: "AvailableMemory free_gpu = 40000000000" by (simp add: AvailableMemory_def free_gpu_simps wrap64_eval)
  have cost: "costPerSecond free_gpu = 12000"
    by (simp add: free_gpu_def NewGPUDevInfo_def GetTypeShortName_def GetCost_def costsPerSecondMap_def)
  obtain c where c: "candidate exclusive_store free_gpu 0 ''bert'' (Fin 3) 2073741824 ''exclusive'' 100 (Fin 1) u = Some c"
    "RequiredReplica c = 1" "SatisfiableRPS c = Fin 10" "QuotaReq c = Fin 1" "SMPartition c = 100" "associatedGpu c = 0"
    "shelfItems c = fmempty" "cfg_UUID c = u" "QpsPerReplica c = Fin 10" "AllocatedRPS c = f64 0"
    "QuotaLimit c = math_Min (f64 1) (Fin 1 + f64 (3/10))"
    "Cost c = float64_of_int (costPerSecond free_gpu) * float64_of_int 100 / f64 100 * Fin 1 * Fin 1"
    by (simp add: candidate_def Let_def exclusive_fits exclusive_qps exclusive_max a exclusive_floats exclusive_by_memory)
  have "is_finite (Cost c)" "is_finite (QuotaLimit c)" "is_finite (AllocatedRPS c)"
    unfolding c(10-12) cost f64_1 using exclusive_limit exclusive_cost by simp_all
  then have "finite_rates c" by (simp add: finite_rates_def c(3,4,9))
  then show ?thesis using c(1-9) that by blast
qed

text \<open>The controller when the check of the new function has decided.\<close>

definition new_func :: FastFunc where
  "new_func = \<lparr>fn_Name = ''bert'', configUUIDToConfig = fmempty, currentRPSCapacity = f64 0, scaleDownConsecutiveCount = 0\<rparr>"

definition idle_ctl :: "unit controller" where
  "idle_ctl = \<lparr>fastFuncMap = fmempty, ctl_prep = \<lparr>prep_nm = started, prep_heap = [], prep_calls = 0\<rparr>,
     ctl_uuid = 0, ctl_cluster = (), ctl_timers = []\<rparr>"

definition decided_ctl :: "unit controller" where
  "decided_ctl = idle_ctl\<lparr>fastFuncMap := fmupd ''bert'' new_func fmempty\<rparr>"

lemma scenario_rates:
  "predictedRate (f64 2) (f64 2) (float64_of_int 1) = f64 2" "deltaUp (f64 2) (f64 0) = f64 3" "float64_of_int 1 = f64 1"
  by (simp_all add: predictedRate_def deltaUp_def SCALE_FACTOR_def math_Max_def is_zero_def f64_eval)

lemma scenario_decides:
  "decide_phase exclusive_environment one_node idle_ctl example_func (f64 2) (f64 2) (f64 2) (float64_of_int 1) [] =
    (decided_ctl, Decided example_func exclusive_request)"
proof -
  have f: "ff_Name example_func = ''bert''" by (simp add: example_func_def)
  have fn: "lookup_func idle_ctl ''bert'' = new_func" "fmlookup (fastFuncMap idle_ctl) ''bert'' = None"
      "totalRPSCap idle_ctl ''bert'' = f64 0" "new_func\<lparr>scaleDownConsecutiveCount := 0\<rparr> = new_func"
    by (simp_all add: lookup_func_def idle_ctl_def new_func_def totalRPSCap_def)
  have "func_request exclusive_environment example_func (f64 3) [] = exclusive_request"
    by (simp add: func_request_def exclusive_environment_def exclusive_request_def example_func_def)
  then show ?thesis
    unfolding decide_phase_def Let_def f fn scenario_rates(1,2)
    by (simp add: decide_up_if_new fn decided_ctl_def) (simp add: idle_ctl_def)
qed

lemma scenario_picks:
  obtains c where "pick_phase exclusive_environment one_node decided_ctl example_func exclusive_request =
      Some (decided_ctl\<lparr>ctl_prep := (ctl_prep decided_ctl)\<lparr>prep_heap := [free_gpu]\<rparr>, ctl_uuid := 1\<rparr>, Picked example_func exclusive_request (Inr [c]))"
    "RequiredReplica c = 1" "QuotaReq c = Fin 1" "SMPartition c = 100" "associatedGpu c = 0" "shelfItems c = fmempty"
    "cfg_UUID c = Itoa 0" "QpsPerReplica c = Fin 10" "finite_rates c"
proof -
  let ?T = "env_types exclusive_environment"
  obtain node where n: "fmlookup (nodes started) ''n1'' = Some node" "NodeName node = ''n1''" "Status node = NodeReady"
      "availableGPUs node = the (gpuList example_env)" "qpsStore started = exclusive_store"
    using started_node by metis
  have T: "AllocationTypeExclusive ?T = ''exclusive''" "env_uuids exclusive_environment 0 = Itoa 0"
      "env_sortGPUs exclusive_environment = insertionSort"
    by (simp_all add: exclusive_environment_def example_environment_def)
  have "extractGPUSFromNode ?T node [] = ([free_gpu], [0])"
    by (simp add: extractGPUSFromNode_def n example_env_def dev_info_def T free_gpu_simps wrap64_eval flip: free_gpu_def)
  then have g: "collect_gpus ?T (nodes started) [''n1''] [] = ([free_gpu], [0])" by (simp add: n)
  have srt: "sortGPUInfos insertionSort s h [0] r = [0]" for s h r by (simp add: sortGPUInfos_def insertionSort_def)
  obtain c where c: "candidate exclusive_store free_gpu 0 ''bert'' (Fin 3) 2073741824 ''exclusive'' 100 (Fin 1) (Itoa 0) = Some c"
      "RequiredReplica c = 1" "SatisfiableRPS c = Fin 10" "QuotaReq c = Fin 1" "SMPartition c = 100" "associatedGpu c = 0"
      "shelfItems c = fmempty" "cfg_UUID c = Itoa 0" "QpsPerReplica c = Fin 10" "finite_rates c"
    using exclusive_candidate [of "Itoa 0"] by metis
  have "\<not> f64 3 \<le> f64 0" by (simp add: exclusive_floats)
  from getConfig_search [OF this, of ?T exclusive_store "env_uuids exclusive_environment" 0 free_gpu 0 "''bert''" 2073741824 "''exclusive''"]
  have "getConfig ?T exclusive_store (env_uuids exclusive_environment) 0 free_gpu 0 ''bert'' (f64 3) 2073741824 ''exclusive'' =
      Some (Some c, 1)"
    by (simp add: search_pairs_def T free_gpu_simps(7) exclusive_floats c better_def)
  then have "GetConfigs ?T insertionSort (env_uuids exclusive_environment) [''n1''] started [] 0 exclusive_request =
      Some ([free_gpu], 1, Inr [c])"
    by (simp add: GetConfigs_def exclusive_request_def GetModelMemory_def modelMemoryMap_def g n(5) srt FitsMemory_def
        free_gpu_simps c(3) exclusive_floats Let_def del: collect_gpus.simps)
  then show ?thesis
    by (intro that [OF _ c(2,4-10)]) (simp add: pick_phase_def T(3) one_node_def decided_ctl_def idle_ctl_def)
qed

text \<open>The commit: the node provisions the GPU, and the packer takes the replica as its first item.\<close>

lemma whole_gpu_insert: "\<exists>p. Insert (NewShelf 100) (Fin 1) 100 = (p, Inr 1) \<and> nextItemID p = 2"
  by (simp add: go_eval f64_eval)

text \<open>The configuration takes all of the second GPU record.\<close>

definition takes_whole_gpu :: "GPUInfo list \<Rightarrow> Config \<Rightarrow> bool" where
  "takes_whole_gpu heap c \<longleftrightarrow> associatedGpu c = 1 \<and> shelfItems c = fmupd 1 True fmempty \<and> QuotaReq c = Fin 1 \<and>
    SMPartition c = 100 \<and> length heap = 2 \<and> nextItemID (Usage (heap ! 1)) = 2 \<and> TotalSMPercentage (heap ! 1) = 100 \<and>
    virtual (heap ! 1) \<and> gpu_UUID (heap ! 1) = ''gpu-1'' \<and> gpu_NodeName (heap ! 1) = ''n1''"

lemma scenario_commits:
  assumes "RequiredReplica c = 1" "QuotaReq c = Fin 1" "SMPartition c = 100" "associatedGpu c = 0" "shelfItems c = fmempty"
    "QpsPerReplica c = Fin 10" "finite_rates c"
  obtains st new where "commit_phase exclusive_environment (decided_ctl\<lparr>ctl_prep := (ctl_prep decided_ctl)\<lparr>prep_heap := [free_gpu]\<rparr>,
      ctl_uuid := 1\<rparr>) example_func exclusive_request (Inr [c]) = (st, Prepared example_func [new])"
    "fastFuncMap st = fmupd ''bert'' new_func fmempty" "takes_whole_gpu (ctl_heap st) new" "cfg_UUID new = cfg_UUID c"
    "finite_rates new"
proof -
  let ?T = "env_types exclusive_environment" and ?A = "env_answers exclusive_environment"
  let ?prep = "(ctl_prep decided_ctl)\<lparr>prep_heap := [free_gpu]\<rparr>"
  obtain node where n: "fmlookup (nodes started) ''n1'' = Some node" "physicalGPUsMap node = fmempty"
    using started_node by metis
  have answer: "?A k cl mps q = Some ([], \<lparr>pg_Uuid = ''gpu-1'', pg_MemoryBytes = 40000000000, pg_ParentUuid = ''a100-1''\<rparr>)" for k cl mps q
    by (simp add: exclusive_environment_def)
  obtain prep1 g where r: "resolve_gpu ?T ?A exclusive_request ?prep c = (prep1, Some 1)" "prep_heap prep1 = [free_gpu, g]"
      "Usage g = NewShelf 100" "TotalSMPercentage g = 100" "virtual g" "gpu_UUID g = ''gpu-1''" "gpu_NodeName g = ''n1''"
    using n answer assms(4) by (simp add: resolve_gpu_def decided_ctl_def idle_ctl_def free_gpu_simps)
  let ?c = "c\<lparr>associatedGpu := 1, VGPUUUID := gpu_UUID g\<rparr>"
  obtain p where "Insert (Usage g) (Fin 1) 100 = (p, Inr 1)" "nextItemID p = 2" using whole_gpu_insert r(3) by auto
  then obtain g' new ok where A: "AllocateAndCommitConfig g ?c = (g', new, ok)" "associatedGpu new = 1"
      "shelfItems new = fmupd 1 True fmempty" "cfg_UUID new = cfg_UUID c" "AllocatedReplica new = 1"
      "finite_rates new" "QuotaReq new = Fin 1" "SMPartition new = 100" "nextItemID (Usage g') = 2" "TotalSMPercentage g' = 100"
      "virtual g'" "gpu_UUID g' = ''gpu-1''" "gpu_NodeName g' = ''n1''"
    using assms r(4-7) by (simp add: AllocateAndCommitConfig_def finite_rates_def exclusive_floats)
  obtain prep2 where P: "PrepareConfigsRequirements ?T ?A exclusive_request ?prep [c] = (prep2, [new])" "prep_heap prep2 = [free_gpu, g']"
    using r(1,2) A(1,5) by (simp add: prepare_one_def)
  show ?thesis
    by (rule that [of "decided_ctl\<lparr>ctl_prep := prep2, ctl_uuid := 1\<rparr>" new])
      (use P A in \<open>simp_all add: commit_phase_def decided_ctl_def takes_whole_gpu_def\<close>)
qed

lemma scenario_creates:
  "create_phase exclusive_environment st example_func [new] = (st, Created example_func [new], None)"
  by (simp add: create_phase_def exclusive_environment_def example_environment_def empty_cluster_def)

text \<open>The run up to the creation of the FaSTPod.\<close>

definition connected :: "unit system" where
  "connected = \<lparr>sys_rec = \<lparr>rec_ctl = idle_ctl, gpuReleaseQueue = Some {#}, processingGPUs = fmempty, gpuWorkerStarted = True,
     once_done = True\<rparr>, sys_clock = 0, sys_conns = fmupd 1 ''n1'' fmempty\<rparr>"

lemma started_sane: "nodes_sane started"
  by (rule started_node) (simp add: nodes_sane_def example_env_def int64_def)

lemma scenario_connects: "sys_reachable exclusive_environment 5 exclusive_store connected"
proof -
  let ?s0 = "sys_start 5 exclusive_store () 0 :: unit system"
  let ?v = "(nm_view ?s0)\<lparr>mgr := started, conns := fmupd 1 ''n1'' (conns (nm_view ?s0))\<rparr>"
  let ?s1 = "(set_nm (mgr ?v) ?s0)\<lparr>sys_clock := clock ?v, sys_conns := conns ?v\<rparr>"
  have "nm_step (nm_view ?s0) ?v"
    by (rule nm_step.connect [where env = example_env and nodeName = "''n1''"]) (simp_all add: nm_view_def sys_start_def started)
  then have "side_step ?s0 ?s1" using started_sane by (intro side_step.node) simp_all
  then have r1: "sys_reachable exclusive_environment 5 exclusive_store ?s1"
    by (intro sys_reachable.step [OF sys_reachable.start] sys_step.side)
  obtain r err where R: "Reconcile one_node None ''bert'' (sys_rec ?s1) = (r, err)" by force
  then have r: "r = sys_rec connected"
    by (auto simp: Reconcile_def connected_def idle_ctl_def sys_start_def set_nm_def set_ctl_def nm_view_def)
  have "side_step ?s1 (?s1\<lparr>sys_rec := r\<rparr>)"
    by (rule side_step.reconcile [OF R]) (simp add: sys_start_def set_nm_def set_ctl_def)
  moreover have "?s1\<lparr>sys_rec := r\<rparr> = connected"
    by (simp add: r connected_def sys_start_def set_nm_def set_ctl_def nm_view_def)
  ultimately show ?thesis using sys_reachable.step [OF r1 sys_step.side] by simp
qed

text \<open>A Prometheus that always answers two requests per second.\<close>

definition steady :: prometheus where
  "steady = (\<lambda>query ts. Some [f64 2])"

lemma scenario_metrics:
  "getRPSMetrics steady n ns now = Some (f64 2, f64 2, f64 2)" "min_rps example_func = Some 1" "preferred_gpu example_func = []"
proof -
  have "doPromQuery steady query ts = Some (f64 2)" for query ts by (simp add: doPromQuery_def steady_def f64_eval)
  then show "getRPSMetrics steady n ns now = Some (f64 2, f64 2, f64 2)" by (simp add: getRPSMetrics_def)
qed (simp_all add: min_rps_def preferred_gpu_def example_func_def gm_str_def)

lemma scenario_orders: "orders_ok one_node (lookup_func idle_ctl ''bert'')" "orders_ok one_node new_func"
  by (simp_all add: orders_ok_def range_order_def one_node_def lookup_func_def idle_ctl_def new_func_def)

lemma connected_ctl: "sys_ctl connected = idle_ctl" "once_done (sys_rec connected)"
  by (simp_all add: connected_def)

text \<open>The phases of the check.\<close>

lemma scenario_phases:
  obtains st1 c st2 new where
    "advance exclusive_environment one_node decided_ctl (Decided example_func exclusive_request) =
      Some (st1, Picked example_func exclusive_request (Inr [c]), None)"
    "advance exclusive_environment one_node st1 (Picked example_func exclusive_request (Inr [c])) = Some (st2, Prepared example_func [new], None)"
    "advance exclusive_environment one_node st2 (Prepared example_func [new]) = Some (st2, Created example_func [new], None)"
    "advance exclusive_environment one_node st2 (Created example_func [new]) =
      Some (st2\<lparr>fastFuncMap := fmupd ''bert'' (add_config new new_func) fmempty\<rparr>, Idle, None)"
    "fastFuncMap st2 = fmupd ''bert'' new_func fmempty" "takes_whole_gpu (ctl_heap st2) new"
    "wanted c = 1" "ctl_heap st1 = [free_gpu]" "cfg_UUID new = Itoa 0" "finite_rates new"
proof -
  obtain c where P: "pick_phase exclusive_environment one_node decided_ctl example_func exclusive_request =
      Some (decided_ctl\<lparr>ctl_prep := (ctl_prep decided_ctl)\<lparr>prep_heap := [free_gpu]\<rparr>, ctl_uuid := 1\<rparr>, Picked example_func exclusive_request (Inr [c]))"
    and c: "RequiredReplica c = 1" "QuotaReq c = Fin 1" "SMPartition c = 100" "associatedGpu c = 0" "shelfItems c = fmempty"
      "QpsPerReplica c = Fin 10" "finite_rates c" and u: "cfg_UUID c = Itoa 0"
    using scenario_picks by metis
  obtain st2 new where C: "commit_phase exclusive_environment (decided_ctl\<lparr>ctl_prep := (ctl_prep decided_ctl)\<lparr>prep_heap := [free_gpu]\<rparr>,
      ctl_uuid := 1\<rparr>) example_func exclusive_request (Inr [c]) = (st2, Prepared example_func [new])"
    "fastFuncMap st2 = fmupd ''bert'' new_func fmempty" "takes_whole_gpu (ctl_heap st2) new"
    "cfg_UUID new = cfg_UUID c" "finite_rates new"
    using scenario_commits [OF c] by metis
  have f: "ff_Name example_func = ''bert''" by (simp add: example_func_def)
  show ?thesis
    by (rule that [of "decided_ctl\<lparr>ctl_prep := (ctl_prep decided_ctl)\<lparr>prep_heap := [free_gpu]\<rparr>, ctl_uuid := 1\<rparr>" c st2 new])
      (simp_all add: advance_def P C scenario_creates record_phase_def f wanted_def c u del: One_nat_def)
qed

lemma scenario_counters: "counters_suffice exclusive_environment steady 0 one_node idle_ctl example_func"
proof -
  have r: "func_request exclusive_environment example_func (deltaUp (predictedRate (f64 2) (f64 2) (float64_of_int 1))
      (totalRPSCap idle_ctl (ff_Name example_func))) [] = exclusive_request"
    unfolding scenario_rates(1) by (simp add: totalRPSCap_def idle_ctl_def scenario_rates(2) [unfolded f64_0] func_request_def
        exclusive_environment_def exclusive_request_def example_func_def)
  obtain st1 c where A: "advance exclusive_environment one_node decided_ctl (Decided example_func exclusive_request) =
      Some (st1, Picked example_func exclusive_request (Inr [c]), None)" "wanted c = 1" "ctl_heap st1 = [free_gpu]"
    using scenario_phases by metis
  then obtain n where "GetConfigs (env_types exclusive_environment) (env_sortGPUs exclusive_environment)
      (env_uuids exclusive_environment) (ord_nodes one_node) started [] 0 exclusive_request = Some ([free_gpu], n, Inr [c])"
    by (auto simp: advance_def pick_phase_def decided_ctl_def idle_ctl_def split: Option.bind_splits)
  then show ?thesis
    unfolding counters_suffice_def scenario_metrics option.case prod.case r
    using A(2) by (simp add: ids_suffice_def idle_ctl_def free_gpu_simps NewShelf_def)
qed

section \<open>Witnesses\<close>

lemma scenario_recorded:
  obtains s :: "unit system" and c fn where "sys_reachable exclusive_environment 5 exclusive_store s"
    "fmlookup (fastFuncMap (sys_ctl s)) ''bert'' = Some fn" "configUUIDToConfig fn = fmupd (cfg_UUID c) c fmempty"
    "shelfItems c = fmupd 1 True fmempty" "finite_rates c" "takes_whole_gpu (ctl_heap (sys_ctl s)) c"
    "once_done (sys_rec s)"
proof -
  obtain st1 c st2 new where A: "advance exclusive_environment one_node decided_ctl (Decided example_func exclusive_request) =
      Some (st1, Picked example_func exclusive_request (Inr [c]), None)"
    "advance exclusive_environment one_node st1 (Picked example_func exclusive_request (Inr [c])) = Some (st2, Prepared example_func [new], None)"
    "advance exclusive_environment one_node st2 (Prepared example_func [new]) = Some (st2, Created example_func [new], None)"
    "advance exclusive_environment one_node st2 (Created example_func [new]) =
      Some (st2\<lparr>fastFuncMap := fmupd ''bert'' (add_config new new_func) fmempty\<rparr>, Idle, None)"
    "takes_whole_gpu (ctl_heap st2) new" "finite_rates new"
    using scenario_phases by metis
  let ?st = "st2\<lparr>fastFuncMap := fmupd ''bert'' (add_config new new_func) fmempty\<rparr>"
  have four: "(4::nat) = Suc (Suc (Suc (Suc 0)))" by simp
  have "run_phases 4 exclusive_environment one_node decided_ctl (Decided example_func exclusive_request) = Some (?st, None)"
    unfolding four by (simp add: A)
  then have "reconcile_one exclusive_environment steady 0 one_node idle_ctl example_func = Some ?st"
    by (simp add: reconcile_one_def scenario_metrics UpdateFunction_phases scenario_decides del: f64_eval)
  then have "sys_step exclusive_environment connected (set_ctl ?st connected)"
    using scenario_orders(1) scenario_counters
    by (intro sys_step.check [where f = example_func and prom = steady and now = 0 and ords = one_node])
      (simp_all add: connected_ctl example_func_def)
  then have "sys_reachable exclusive_environment 5 exclusive_store (set_ctl ?st connected)"
    by (rule sys_reachable.step [OF scenario_connects])
  then show ?thesis
    by (rule that [of _ "add_config new new_func" new]) (simp_all add: A(5,6) A(5) [unfolded takes_whole_gpu_def] add_config_def new_func_def connected_ctl(2) set_ctl_def)
qed

theorem autoscaler_books_witness:
  "\<exists>(s :: unit system) c. sys_reachable exclusive_environment 5 exclusive_store s \<and>
    configs_of (fastFuncMap (sys_ctl s)) (''bert'', cfg_UUID c) = Some c \<and> shelfItems c = fmupd 1 True fmempty \<and>
    owned (ctl_heap (sys_ctl s)) c"
proof -
  obtain s c fn where r: "sys_reachable exclusive_environment 5 exclusive_store (s :: unit system)"
    "fmlookup (fastFuncMap (sys_ctl s)) ''bert'' = Some fn" "configUUIDToConfig fn = fmupd (cfg_UUID c) c fmempty"
    "shelfItems c = fmupd 1 True fmempty"
    using scenario_recorded by metis
  have l: "configs_of (fastFuncMap (sys_ctl s)) (''bert'', cfg_UUID c) = Some c" using r(2,3) by (simp add: configs_of_def)
  then have "owned (ctl_heap (sys_ctl s)) c" using autoscaler_books [OF r(1) exclusive_env_ok] by blast
  then show ?thesis using r(1,4) l by blast
qed

theorem current_configs_truthful_witness:
  "\<exists>(s :: unit system) u objs. sys_reachable exclusive_environment 5 exclusive_store s \<and>
    current_configs (fastFuncMap (sys_ctl s)) [u] ''bert'' = \<lparr>status_code = 200, http_body = Json (JArray objs)\<rparr> \<and>
    map (json_field ''UUID'') objs = [Some (JString u)]"
proof -
  obtain s c fn where r: "sys_reachable exclusive_environment 5 exclusive_store (s :: unit system)"
    "fmlookup (fastFuncMap (sys_ctl s)) ''bert'' = Some fn" "configUUIDToConfig fn = fmupd (cfg_UUID c) c fmempty" "finite_rates c"
    using scenario_recorded by metis
  have "range_order [cfg_UUID c] (configUUIDToConfig f)" if "fmlookup (fastFuncMap (sys_ctl s)) ''bert'' = Some f" for f
    using that r(2,3) by (simp add: range_order_def)
  note T = current_configs_truthful [where name = "''bert''", OF r(1) exclusive_env_ok this]
  have "\<forall>u d. fmlookup (configUUIDToConfig fn) u = Some d \<longrightarrow> finite_rates d" using r(3,4) by auto
  then obtain objs where "current_configs (fastFuncMap (sys_ctl s)) [cfg_UUID c] ''bert'' =
      \<lparr>status_code = 200, http_body = Json (JArray objs)\<rparr>" "map (json_field ''UUID'') objs = [Some (JString (cfg_UUID c))]"
    using T r(2) by auto
  then show ?thesis using r(1) by - (rule exI [of _ s], rule exI [of _ "cfg_UUID c"], rule exI [of _ objs], intro conjI)
qed

text \<open>The same check, with its replica committed but not yet recorded.\<close>

lemma scenario_in_flight:
  obtains st2 new lost where "fine_reachable exclusive_environment 5 exclusive_store
      (\<lparr>fine_sys = set_ctl st2 connected, fine_phase = Created example_func [new], fine_lost = lost\<rparr> :: (unit, unit) fine)"
    "fastFuncMap st2 = fmupd ''bert'' new_func fmempty" "takes_whole_gpu (ctl_heap st2) new"
proof -
  let ?E = exclusive_environment
  obtain st1 c st2 new where A: "advance ?E one_node decided_ctl (Decided example_func exclusive_request) =
      Some (st1, Picked example_func exclusive_request (Inr [c]), None)"
    "advance ?E one_node st1 (Picked example_func exclusive_request (Inr [c])) = Some (st2, Prepared example_func [new], None)"
    "advance ?E one_node st2 (Prepared example_func [new]) = Some (st2, Created example_func [new], None)"
    "fastFuncMap st2 = fmupd ''bert'' new_func fmempty" "takes_whole_gpu (ctl_heap st2) new"
    "wanted c = 1" "ctl_heap st1 = [free_gpu]"
    using scenario_phases by metis
  obtain lost where r0: "fine_reachable ?E 5 exclusive_store \<lparr>fine_sys = connected, fine_phase = Idle, fine_lost = lost\<rparr>"
    using whole_checks_fine [OF scenario_connects exclusive_env_ok] by blast
  let ?s = "\<lambda>st phase. \<lparr>fine_sys = set_ctl st connected, fine_phase = phase, fine_lost = lost\<rparr>"
  have "fine_step ?E \<lparr>fine_sys = connected, fine_phase = Idle, fine_lost = lost\<rparr> (?s decided_ctl (Decided example_func exclusive_request))"
    using fine_step.begin_check [where s = "\<lparr>fine_sys = connected, fine_phase = Idle, fine_lost = lost\<rparr>" and ords = one_node and
        E = ?E and f = example_func and prom = steady and now = 0, OF _ _ _ scenario_metrics(2,1)] scenario_decides scenario_orders(1)
    by (simp add: connected_ctl scenario_metrics(3)) (simp add: example_func_def)
  from fine_reachable.step [OF r0 this] have r1: "fine_reachable ?E 5 exclusive_store (?s decided_ctl (Decided example_func exclusive_request))" .
  have r: "fine_reachable ?E 5 exclusive_store (?s st' phase')"
    if "fine_reachable ?E 5 exclusive_store (?s st phase)" "advance ?E one_node st phase = Some (st', phase', None)" "phase \<noteq> Idle"
      "commit_fits (ctl_heap st) phase" "given_up st phase None = []" "\<forall>f upd rem. phase \<noteq> Agreed f upd rem" for st phase st' phase'
    using fine_reachable.step [OF that(1) fine_step.next_phase [OF _ _ , where ords = one_node]] that by auto
  have r2: "fine_reachable ?E 5 exclusive_store (?s st1 (Picked example_func exclusive_request (Inr [c])))"
    by (rule r [OF r1 A(1)]) (simp_all add: commit_fits_def given_up_def)
  have r3: "fine_reachable ?E 5 exclusive_store (?s st2 (Prepared example_func [new]))"
    by (rule r [OF r2 A(2)]) (simp_all add: commit_fits_def given_up_def A(6,7) free_gpu_simps NewShelf_def)
  have r4: "fine_reachable ?E 5 exclusive_store (?s st2 (Created example_func [new]))"
    by (rule r [OF r3 A(3)]) (simp_all add: commit_fits_def given_up_def)
  then show ?thesis using that A(4,5) by blast
qed

text \<open>There the function is deleted.\<close>

lemma scenario_deleted:
  obtains s new where "fine_reachable exclusive_environment 5 exclusive_store (s :: (unit, unit) fine)"
    "fine_phase s = Created example_func [new]" "fastFuncMap (sys_ctl (fine_sys s)) = fmempty" "shelfItems new = fmupd 1 True fmempty"
proof -
  let ?E = exclusive_environment
  obtain st2 new lost where r4: "fine_reachable ?E 5 exclusive_store
      (\<lparr>fine_sys = set_ctl st2 connected, fine_phase = Created example_func [new], fine_lost = lost\<rparr> :: (unit, unit) fine)"
    and A: "fastFuncMap st2 = fmupd ''bert'' new_func fmempty" "takes_whole_gpu (ctl_heap st2) new"
    using scenario_in_flight by metis
  let ?t = "set_ctl st2 connected"
  obtain r' err where R: "Reconcile one_node (Some NotFound) ''bert'' (sys_rec ?t) = (r', err)" by force
  have "side_step ?t (?t\<lparr>sys_rec := r'\<rparr>)"
    using scenario_orders(2) A(1) by (intro side_step.reconcile [OF R]) (auto simp: set_ctl_def)
  from fine_reachable.step [OF r4 fine_step.other, of "?t\<lparr>sys_rec := r'\<rparr>"] this
  have r5: "fine_reachable ?E 5 exclusive_store \<lparr>fine_sys = ?t\<lparr>sys_rec := r'\<rparr>, fine_phase = Created example_func [new], fine_lost = lost\<rparr>"
    by simp
  have "fastFuncMap (rec_ctl r') = fmempty"
    using R A(1) by (auto simp: Reconcile_def handleDeletedFaSTFunc_def set_ctl_def CurrentConfigs_def one_node_def List.map_filter_def
        intro: fmap_ext)
  then show ?thesis using that [OF r5] A(2) by (simp add: takes_whole_gpu_def)
qed

theorem deletion_during_check_leaks_witness:
  "\<exists>(s :: (unit, unit) fine) c. fine_reachable exclusive_environment 5 exclusive_store s \<and>
    fastFuncMap (sys_ctl (fine_sys s)) = fmempty \<and> owned (ctl_heap (sys_ctl (fine_sys s))) c \<and> shelfItems c \<noteq> fmempty"
proof -
  obtain s new where s: "fine_reachable exclusive_environment 5 exclusive_store (s :: (unit, unit) fine)"
    "fine_phase s = Created example_func [new]" "fastFuncMap (sys_ctl (fine_sys s)) = fmempty"
    using scenario_deleted by metis
  have "owned (ctl_heap (sys_ctl (fine_sys s))) new \<and> shelfItems new \<noteq> fmempty"
    using deletion_during_check_leaks [OF s(1) exclusive_env_ok, of example_func "[new]" s new] s(2,3) by simp
  then show ?thesis using s by blast
qed

theorem interleaved_books_witness:
  "\<exists>(s :: (unit, unit) fine) c. fine_reachable exclusive_environment 5 exclusive_store s \<and>
    in_flight (fine_phase s) = [c] \<and> shelfItems c = fmupd 1 True fmempty \<and> owned (ctl_heap (sys_ctl (fine_sys s))) c"
proof -
  obtain s new where s: "fine_reachable exclusive_environment 5 exclusive_store (s :: (unit, unit) fine)"
    "fine_phase s = Created example_func [new]" "shelfItems new = fmupd 1 True fmempty"
    using scenario_deleted by metis
  have "entries (in_flight (fine_phase s) @ fine_lost s) (fastFuncMap (sys_ctl (fine_sys s))) (Inr 0) = Some new"
    by (simp add: s(2) in_flight_def entries_def)
  then have "owned (ctl_heap (sys_ctl (fine_sys s))) new"
    using interleaved_books [OF s(1) exclusive_env_ok] by blast
  then show ?thesis using s by (auto simp: in_flight_def)
qed



end
