(* ===== verification/Gpu_Load.thy ===== *)
theory Gpu_Load
  imports Scenario
begin

text \<open>
  What all configurations together ask of a GPU, against what the GPU has: the purpose of the packers, stated for the
  whole controller.
\<close>

section \<open>The load of a GPU\<close>

text \<open>The share of a GPU a configuration takes: each replica its SM percentage for its part of the time.\<close>

definition demand :: "Config \<Rightarrow> rat" where
  "demand c = of_nat (gm_len (shelfItems c)) * (fval (QuotaReq c) * of_int (SMPartition c))"

lemma owned_demand:
  assumes "owned heap c"
  shows "(\<Sum>i \<in> fmdom' (shelfItems c). item_area (the (placed (Usage (heap ! associatedGpu c)) i))) = demand c"
    "\<forall>i \<in> fmdom' (shelfItems c). placed (Usage (heap ! associatedGpu c)) i \<noteq> None"
proof -
  have p: "placed (Usage (heap ! associatedGpu c)) i = Some \<lparr>item_ID = i, item_Width = QuotaReq c, item_Height = SMPartition c\<rparr>"
    if "i \<in> fmdom' (shelfItems c)" for i
    using assms that by (simp add: owned_def owns_def fmdom'_alt_def)
  have "(\<Sum>i \<in> fmdom' (shelfItems c). item_area (the (placed (Usage (heap ! associatedGpu c)) i))) =
      (\<Sum>i \<in> fmdom' (shelfItems c). fval (QuotaReq c) * of_int (SMPartition c))"
    using p by (intro sum.cong) (simp_all add: item_area_def)
  then show "(\<Sum>i \<in> fmdom' (shelfItems c). item_area (the (placed (Usage (heap ! associatedGpu c)) i))) = demand c"
    by (simp add: demand_def gm_len_def fcard.rep_eq fmdom'_alt_def)
  show "\<forall>i \<in> fmdom' (shelfItems c). placed (Usage (heap ! associatedGpu c)) i \<noteq> None" using p by simp
qed

text \<open>Owners of items on one GPU together ask for no more than the packer has placed.\<close>

lemma owners_load:
  assumes O: "owners_ok heap ent" and s: "sound_packer h (Usage (heap ! a))" "spent (Usage (heap ! a)) \<le> 2 ^ 52"
    and K: "finite K" "\<forall>k \<in> K. \<exists>c. ent k = Some c \<and> associatedGpu c = a"
  shows "(\<Sum>k \<in> K. demand (the (ent k))) \<le> (1 + drift (Usage (heap ! a))) * of_int (max 0 h)"
proof -
  let ?items = "\<lambda>k. fmdom' (shelfItems (the (ent k)))" and ?p = "placed (Usage (heap ! a))"
  have c: "owned heap (the (ent k))" "associatedGpu (the (ent k)) = a" if "k \<in> K" for k
    using K(2) that owners_okD(1) [OF O] by fastforce+
  have dis: "?items k \<inter> ?items l = {}" if kl: "k \<in> K" "l \<in> K" "k \<noteq> l" for k l
  proof -
    obtain d e where "ent k = Some d" "ent l = Some e" "associatedGpu d = associatedGpu e" using K(2) kl(1,2) by metis
    moreover from this have "no_sharing d e" using owners_okD(2) [OF O _ _ kl(3)] by blast
    ultimately have "fmdom (shelfItems d) |\<inter>| fmdom (shelfItems e) = {||}" "ent k = Some d" "ent l = Some e"
      by (simp_all add: no_sharing_def)
    then show ?thesis by (auto simp: fmdom'_alt_def)
  qed
  have "(\<Sum>k \<in> K. demand (the (ent k))) = (\<Sum>k \<in> K. \<Sum>i \<in> ?items k. item_area (the (?p i)))"
    using owned_demand(1) [OF c(1)] c(2) by (intro sum.cong) simp_all
  also have "\<dots> = (\<Sum>i \<in> (\<Union>k \<in> K. ?items k). item_area (the (?p i)))"
    using K(1) dis by (intro sum.UNION_disjoint [symmetric]) auto
  also have "\<dots> \<le> (1 + drift (Usage (heap ! a))) * of_int (max 0 h)"
    using owned_demand(2) [OF c(1)] c(2) by (intro sound_load [OF s]) auto
  finally show ?thesis .
qed

lemma drift_le:
  assumes "wf_packer sp" "nextItemID sp \<le> 2 ^ 51"
  shows "spent sp \<le> 2 ^ 52" "drift sp \<le> of_int (nextItemID sp) / 2 ^ 52"
proof -
  have n: "spent sp \<le> 2 * nextItemID sp" by (simp add: spent_def)
  then show "spent sp \<le> 2 ^ 52" using assms(2) by simp
  have "(of_int (spent sp) :: rat) \<le> of_int (2 * nextItemID sp)" using n by (rule of_int_le_iff [THEN iffD2])
  then show "drift sp \<le> of_int (nextItemID sp) / 2 ^ 52" by (simp add: drift_def)
qed

section \<open>Properties\<close>

text \<open>
  C3. No GPU is over-committed. In every state the controller reaches, however the phases of checks, deletions,
  releases and connections interleave: the replicas of all configurations on a GPU record, listed by any
  functions, in flight or lost, together take no more than the GPU's SM percentage, weighted with their
  time quota, up to the rounding of the packer's floating-point accounts, which after \<open>n\<close> insertions
  is less than \<open>(n + 1) / 2^52\<close> of the GPU.
\<close>

theorem gpus_not_overcommitted:
  assumes "fine_reachable E itv store s" "env_ok E"
  defines "heap \<equiv> ctl_heap (sys_ctl (fine_sys s))"
    and "books \<equiv> entries (in_flight (fine_phase s) @ fine_lost s) (fastFuncMap (sys_ctl (fine_sys s)))"
  assumes "a < length heap" "nextItemID (Usage (heap ! a)) \<le> 2 ^ 51"
    and "finite K" "\<forall>k \<in> K. \<exists>c. books k = Some c \<and> associatedGpu c = a"
  shows "(\<Sum>k \<in> K. demand (the (books k))) \<le>
    (1 + of_int (nextItemID (Usage (heap ! a))) / 2 ^ 52) * of_int (max 0 (TotalSMPercentage (heap ! a)))"
proof -
  note B = books_okD [OF fine_invD(3) [OF fine_inv_reachable [OF assms(1,2)]]]
  note g = budgetD [OF B(1) nth_mem [OF assms(5) [unfolded heap_def]], folded heap_def]
  note D = drift_le [OF g(2) assms(6)]
  have "(\<Sum>k \<in> K. demand (the (books k))) \<le> (1 + drift (Usage (heap ! a))) * of_int (max 0 (TotalSMPercentage (heap ! a)))"
    using owners_load [OF B(4) g(1) [unfolded heap_def] D(1) [unfolded heap_def] assms(7)] assms(8)
    unfolding heap_def books_def by blast
  also have "\<dots> \<le> (1 + of_int (nextItemID (Usage (heap ! a))) / 2 ^ 52) * of_int (max 0 (TotalSMPercentage (heap ! a)))"
    using D(2) by (intro mult_right_mono) simp_all
  finally show ?thesis .
qed

theorem gpus_not_overcommitted_witness:
  "\<exists>(s :: (unit, unit) fine) c. fine_reachable exclusive_environment 5 exclusive_store s \<and>
    in_flight (fine_phase s) = [c] \<and> demand c = 100 \<and> demand c \<le> (1 + 2 / 2 ^ 52) * 100"
proof -
  obtain st new lost where r: "fine_reachable exclusive_environment 5 exclusive_store
      (\<lparr>fine_sys = set_ctl st connected, fine_phase = Created example_func [new], fine_lost = lost\<rparr> :: (unit, unit) fine)"
    "takes_whole_gpu (ctl_heap st) new"
    using scenario_in_flight by metis
  let ?s = "\<lparr>fine_sys = set_ctl st connected, fine_phase = Created example_func [new], fine_lost = lost\<rparr>"
  have a: "1 < length (ctl_heap (sys_ctl (fine_sys ?s)))" "nextItemID (Usage (ctl_heap (sys_ctl (fine_sys ?s)) ! 1)) = 2"
      "TotalSMPercentage (ctl_heap (sys_ctl (fine_sys ?s)) ! 1) = 100"
    using r(2) by (simp_all add: takes_whole_gpu_def set_ctl_def)
  have k: "entries (in_flight (fine_phase ?s) @ fine_lost ?s) (fastFuncMap (sys_ctl (fine_sys ?s))) (Inr 0) = Some new"
    by (simp add: in_flight_def entries_def)
  have "demand new \<le> (1 + 2 / 2 ^ 52) * 100"
    using gpus_not_overcommitted [OF r(1) exclusive_env_ok a(1), of "{Inr 0}"] a(2,3) k r(2)
    by (simp add: takes_whole_gpu_def)
  moreover have "demand new = 100" using r(2) by (simp add: takes_whole_gpu_def demand_def gm_len_def fcard.rep_eq)
  ultimately show ?thesis using r(1) by (intro exI [of _ ?s] exI [of _ new]) (simp add: in_flight_def)
qed

end
