(* ===== verification/Ledger.thy ===== *)
theory Ledger
  imports Scenario
begin

text \<open>
  An abstract specification of the controller: a ledger of grants, each a set of items of one size on one GPU, under the name
  of a function and the UUID of a configuration. Four events change it. The controller refines it, at the
  grain of its locks: whatever the checks, deletions, releases and connections do, the books of the functions change
  by these events only.
\<close>

section \<open>The ledger\<close>

record grant =
  gr_gpu :: gpu_addr
  gr_quota :: float64
  gr_sm :: int
  gr_items :: "int fset"

type_synonym ledger = "string \<times> string \<Rightarrow> grant option"

text \<open>Grants of no common item; and a grant of which some items are left.\<close>

definition apart :: "grant \<Rightarrow> grant \<Rightarrow> bool" where
  "apart G H \<longleftrightarrow> (gr_gpu G = gr_gpu H \<longrightarrow> gr_items G |\<inter>| gr_items H = {||})"

definition part_of :: "grant \<Rightarrow> grant \<Rightarrow> bool" where
  "part_of G H \<longleftrightarrow> gr_gpu G = gr_gpu H \<and> gr_quota G = gr_quota H \<and> gr_sm G = gr_sm H \<and> gr_items G |\<subseteq>| gr_items H"

text \<open>
  The events, each of one function at most: nothing; new grants, apart from all that are there and from each other, none
  of them empty; grants that are dropped or lose items; the end of a function.
\<close>

datatype ledger_event = Keep | Grant string | Shrink string | Close string

inductive ledger_step :: "ledger_event \<Rightarrow> ledger \<Rightarrow> ledger \<Rightarrow> bool" where
  keep: "ledger_step Keep L L"
| grant: "(\<And>k G. N k = Some G \<Longrightarrow> fst k = n \<and> gr_items G \<noteq> {||}) \<Longrightarrow>
    (\<And>k G l H. N k = Some G \<Longrightarrow> L l = Some H \<Longrightarrow> apart G H) \<Longrightarrow>
    (\<And>k G l H. N k = Some G \<Longrightarrow> N l = Some H \<Longrightarrow> k \<noteq> l \<Longrightarrow> apart G H) \<Longrightarrow>
    ledger_step (Grant n) L (L ++ N)"
| shrink: "(\<And>k. fst k \<noteq> n \<Longrightarrow> L' k = L k) \<Longrightarrow> (\<And>k G. L' k = Some G \<Longrightarrow> \<exists>H. L k = Some H \<and> part_of G H) \<Longrightarrow>
    ledger_step (Shrink n) L L'"
| close: "ledger_step (Close n) L (\<lambda>k. if fst k = n then None else L k)"

inductive_cases ledger_stepE: "ledger_step e L L'"

text \<open>What the ledger promises: no item is granted twice.\<close>

definition ledger_ok :: "ledger \<Rightarrow> bool" where
  "ledger_ok L \<longleftrightarrow> (\<forall>k l G H. L k = Some G \<longrightarrow> L l = Some H \<longrightarrow> k \<noteq> l \<longrightarrow> apart G H)"

lemma apart_sym: "apart G H \<Longrightarrow> apart H G"
  by (simp add: apart_def inf_commute)

lemma apart_part: "apart G H \<Longrightarrow> part_of G' G \<Longrightarrow> part_of H' H \<Longrightarrow> apart G' H'"
  by (auto simp: apart_def part_of_def)

lemma ledger_step_ok: "ledger_step e L L' \<Longrightarrow> ledger_ok L \<Longrightarrow> ledger_ok L'"
proof (induction rule: ledger_step.induct)
  case (grant N n L)
  show ?case unfolding ledger_ok_def
  proof (intro allI impI)
    fix k l G H
    assume kl: "(L ++ N) k = Some G" "(L ++ N) l = Some H" "k \<noteq> l"
    have "L k = Some G \<Longrightarrow> L l = Some H \<Longrightarrow> apart G H" using grant(4) kl(3) unfolding ledger_ok_def by blast
    then show "apart G H"
      using kl grant(2) [of k G l H] grant(2) [of l H k G] grant(3) [of k G l H] apart_sym [of H G]
      unfolding map_add_Some_iff by blast
  qed
next
  case (shrink n L' L)
  show ?case unfolding ledger_ok_def
  proof (intro allI impI)
    fix k l G H
    assume "L' k = Some G" "L' l = Some H" "k \<noteq> l"
    moreover from this obtain G' H' where "L k = Some G'" "part_of G G'" "L l = Some H'" "part_of H H'" using shrink(2) by metis
    ultimately show "apart G H" using shrink(3) apart_part unfolding ledger_ok_def by blast
  qed
qed (auto simp: ledger_ok_def split: if_splits)

text \<open>An event of one function leaves the grants of the others.\<close>

fun concerns :: "ledger_event \<Rightarrow> string \<Rightarrow> bool" where
  "concerns Keep n = False"
| "concerns (Grant m) n = (m = n)"
| "concerns (Shrink m) n = (m = n)"
| "concerns (Close m) n = (m = n)"

lemma ledger_step_frame: "ledger_step e L L' \<Longrightarrow> \<not> concerns e n \<Longrightarrow> L' (n, u) = L (n, u)"
  by (induction rule: ledger_step.induct) (fastforce simp: map_add_def split: option.splits)+

inductive ledger_reachable :: "ledger \<Rightarrow> bool" where
  start: "ledger_reachable (\<lambda>k. None)"
| event: "ledger_reachable L \<Longrightarrow> ledger_step e L L' \<Longrightarrow> ledger_reachable L'"

lemma ledger_reachable_ok: "ledger_reachable L \<Longrightarrow> ledger_ok L"
  by (induction rule: ledger_reachable.induct) (auto simp: ledger_ok_def dest: ledger_step_ok)

section \<open>The books as a ledger\<close>

definition grant_of :: "Config \<Rightarrow> grant" where
  "grant_of c = \<lparr>gr_gpu = associatedGpu c, gr_quota = QuotaReq c, gr_sm = SMPartition c, gr_items = fmdom (shelfItems c)\<rparr>"

definition ledger_of :: "(string, FastFunc) fmap \<Rightarrow> ledger" where
  "ledger_of funcs = (\<lambda>k. map_option grant_of (configs_of funcs k))"

lemma ledger_cong: "configs_of funcs' = configs_of funcs \<Longrightarrow> ledger_of funcs' = ledger_of funcs"
  by (simp add: ledger_of_def)

lemma apart_no_sharing: "no_sharing c d \<Longrightarrow> apart (grant_of c) (grant_of d)"
  by (simp add: no_sharing_def apart_def grant_of_def)

lemma gives_back_part: "gives_back g c g' c' \<Longrightarrow> part_of (grant_of c') (grant_of c)"
  by (auto simp: gives_back_def part_of_def grant_of_def fmlookup_dom_iff fold_fmdrop_lookup split: if_splits)

section \<open>Scaling down\<close>

text \<open>A function's record whose configurations are parts of those it had.\<close>

definition shrunk :: "FastFunc \<Rightarrow> FastFunc \<Rightarrow> bool" where
  "shrunk fn fn' \<longleftrightarrow> (\<forall>u c'. fmlookup (configUUIDToConfig fn') u = Some c' \<longrightarrow>
     (\<exists>c. fmlookup (configUUIDToConfig fn) u = Some c \<and> part_of (grant_of c') (grant_of c)))"

lemma part_of_refl [simp]: "part_of G G"
  by (simp add: part_of_def)

lemma part_of_trans: "part_of G H \<Longrightarrow> part_of H K \<Longrightarrow> part_of G K"
  by (auto simp: part_of_def)

lemma shrunk_refl: "shrunk fn fn"
  by (auto simp: shrunk_def)

lemma shrunk_trans: "shrunk fn fn' \<Longrightarrow> shrunk fn' fn'' \<Longrightarrow> shrunk fn fn''"
  unfolding shrunk_def by (meson part_of_trans)

lemma shrunk_reduce:
  assumes "amid X ords name funcs (ri_Config info # rest) (st, fn)" "reduce_one ords info (st, fn) = (st', fn')"
  shows "shrunk fn fn'"
proof -
  let ?c = "ri_Config info"
  obtain g c e where r: "ReduceConfig (ord_items ords ?c) (ctl_heap st ! associatedGpu ?c) ?c (NewReplica info) = (g, c, e)"
    using prod_cases3 by blast
  have c: "fmlookup (configUUIDToConfig fn) (cfg_UUID ?c) = Some ?c" "range_order (ord_items ords ?c) (shelfItems ?c)"
    using assms(1) by (simp_all add: amid_def)
  note gb = Reduce_gives_back [OF c(2) r]
  then have "cfg_UUID c = cfg_UUID ?c" by (auto simp: gives_back_def)
  then have "configUUIDToConfig fn' = fmupd (cfg_UUID ?c) c (configUUIDToConfig fn)"
    using assms(2) r by (auto simp: reduce_one_def Let_def)
  then show ?thesis using c(1) gives_back_part [OF gb] by (simp add: shrunk_def)
qed

lemma shrunk_remove: "remove_one ords config (st, fn) = (st', fn') \<Longrightarrow> shrunk fn fn'"
  by (auto simp: remove_one_def shrunk_def Let_def fmdrop_lookup_if split: prod.splits if_splits)

lemma shrunk_fold_reduce:
  "amid X ords name funcs (map ri_Config updated @ rest) s \<Longrightarrow> shrunk (snd s) (snd (fold (reduce_one ords) updated s))"
proof (induction updated arbitrary: s)
  case (Cons info updated)
  obtain st fn where s: "s = (st, fn)" by force
  obtain st' fn' where r: "reduce_one ords info (st, fn) = (st', fn')" by force
  have "shrunk fn fn'" using Cons.prems unfolding s by (intro shrunk_reduce [OF _ r]) simp
  moreover have "amid X ords name funcs (map ri_Config updated @ rest) (st', fn')"
    using amid_reduce [of X ords name funcs info "map ri_Config updated @ rest" s] Cons.prems by (simp add: s r)
  ultimately show ?case using Cons.IH shrunk_trans by (fastforce simp: s r)
qed (simp add: shrunk_refl)

lemma shrunk_fold_remove: "shrunk (snd s) (snd (fold (remove_one ords) removed s))"
proof (induction removed arbitrary: s)
  case (Cons config removed)
  obtain st fn st' fn' where s: "s = (st, fn)" and r: "remove_one ords config (st, fn) = (st', fn')" by (metis surj_pair)
  show ?case using shrunk_remove [OF r] Cons.IH [of "(st', fn')"] shrunk_trans by (simp add: s r)
qed (simp add: shrunk_refl)

lemma shrink_phase_shrinks:
  assumes "ctl_inv X st" "fmlookup (fastFuncMap st) (ff_Name f) = Some fn"
    and "listed (fastFuncMap st) (ff_Name f) (held_configs upd rem)" "items_ok ords (held_configs upd rem)"
  shows "\<exists>fn'. fastFuncMap (shrink_phase ords st f upd rem) = fmupd (ff_Name f) fn' (fastFuncMap st) \<and> shrunk fn fn'"
proof -
  note A = shrink_amid [OF assms, unfolded held_configs_def]
  obtain st1 fn1 where s1: "fold (remove_one ords) rem (fold (reduce_one ords) upd (st, fn)) = (st1, fn1)" by force
  have "shrunk fn fn1"
    using shrunk_trans [OF shrunk_fold_reduce [OF A] shrunk_fold_remove [of _ ords rem]] by (simp add: s1)
  moreover have "fastFuncMap st1 = fastFuncMap st"
    using amid_fold_remove [OF amid_fold_reduce [OF A]] by (simp add: s1 amid_def)
  ultimately show ?thesis unfolding shrink_known [OF assms(2) s1] by auto
qed

lemma ledger_shrunk:
  assumes "shrunk fn fn'" "configUUIDToConfig fn = configUUIDToConfig (lookup_func st name)"
    and funcs': "fmdrop name funcs' = fmdrop name (fastFuncMap st)"
  shows "ledger_step (Shrink name) (ledger_of (fastFuncMap st)) (ledger_of (fmupd name fn' funcs'))"
proof (rule ledger_step.shrink)
  have other: "configs_of (fmupd name fn' funcs') k = configs_of (fastFuncMap st) k" if "fst k \<noteq> name" for k
  proof -
    have "fmlookup funcs' (fst k) = fmlookup (fastFuncMap st) (fst k)"
      using arg_cong [OF funcs', of "\<lambda>m. fmlookup m (fst k)"] that by (simp add: fmdrop_lookup_if)
    then show ?thesis using that by (cases k) (simp add: configs_of_def)
  qed
  show "ledger_of (fmupd name fn' funcs') k = ledger_of (fastFuncMap st) k" if "fst k \<noteq> name" for k
    using other [OF that] by (simp add: ledger_of_def)
  show "\<exists>H. ledger_of (fastFuncMap st) k = Some H \<and> part_of G H" if G: "ledger_of (fmupd name fn' funcs') k = Some G" for k G
  proof (cases "fst k = name")
    case True
    then obtain u c' where k: "k = (name, u)" "fmlookup (configUUIDToConfig fn') u = Some c'" "G = grant_of c'"
      using G by (cases k) (auto simp: ledger_of_def configs_of_upd)
    then obtain c where "fmlookup (configUUIDToConfig (lookup_func st name)) u = Some c" "part_of G (grant_of c)"
      using assms unfolding shrunk_def by metis
    then show ?thesis unfolding k(1) by (auto simp: ledger_of_def configs_of_def lookup_func_def split: option.splits)
  next
    case False
    show ?thesis using G other [OF False] by (intro exI [of _ G]) (simp add: ledger_of_def)
  qed
qed

section \<open>Recording configurations\<close>

definition recorded :: "string \<Rightarrow> Config list \<Rightarrow> string \<times> string \<Rightarrow> Config option" where
  "recorded name new k = (if fst k = name then map_of (rev (map (\<lambda>c. (cfg_UUID c, c)) new)) (snd k) else None)"

lemma configs_of_fold_add:
  "configs_of (fmupd name (fold add_config new fn) funcs) = configs_of (fmupd name fn funcs) ++ recorded name new"
proof (induction new arbitrary: fn)
  case (Cons c new)
  show ?case
    unfolding fold_Cons comp_apply Cons.IH configs_of_add
    by (rule ext) (auto simp: recorded_def map_add_def split: option.splits)
qed (auto simp: recorded_def map_add_def fun_eq_iff)

lemma recorded_Some:
  assumes "recorded name new k = Some c"
  obtains i where "i < length new" "c = new ! i" "k = (name, cfg_UUID c)"
proof -
  have k: "fst k = name" "map_of (rev (map (\<lambda>c. (cfg_UUID c, c)) new)) (snd k) = Some c"
    using assms by (auto simp: recorded_def split: if_splits)
  then have "(snd k, c) \<in> set (rev (map (\<lambda>c. (cfg_UUID c, c)) new))" by (intro map_of_SomeD)
  then have "c \<in> set new" "snd k = cfg_UUID c" by auto
  with k(1) show ?thesis using that by (metis in_set_conv_nth prod.collapse)
qed

lemma record_grants:
  assumes ok: "owners_ok heap (entries (new @ X) funcs)" and full: "\<forall>c \<in> set new. has_items c"
    and fn: "fmlookup funcs name = Some fn"
  shows "ledger_step (Grant name) (ledger_of funcs) (ledger_of (fmupd name (fold add_config new fn) funcs))"
proof -
  let ?N = "\<lambda>k. map_option grant_of (recorded name new k)"
  have "fmupd name fn funcs = funcs" using fn by (intro fmap_ext) auto
  then have L: "ledger_of (fmupd name (fold add_config new fn) funcs) = ledger_of funcs ++ ?N"
    by (auto simp: ledger_of_def configs_of_fold_add fun_eq_iff map_add_def split: option.splits)
  have entry: "entries (new @ X) funcs (Inr i) = Some (new ! i)" if "i < length new" for i
    using that by (simp add: entries_def nth_append)
  show ?thesis unfolding L
  proof (rule ledger_step.grant)
    fix k G
    assume "?N k = Some G"
    then obtain c where c: "recorded name new k = Some c" "G = grant_of c" by auto
    obtain i where i: "i < length new" "c = new ! i" "k = (name, cfg_UUID c)" using recorded_Some [OF c(1)] by blast
    have "has_items c" using full i(1,2) by simp
    then have "fmdom (shelfItems c) \<noteq> {||}" by (metis fmdom_empty fmrestrict_fset_dom fmrestrict_fset_null has_items_def)
    then show "fst k = name \<and> gr_items G \<noteq> {||}" using i(3) c(2) by (simp add: grant_of_def)
    show "apart G H" if H: "ledger_of funcs l = Some H" for l H
    proof -
      obtain d where d: "configs_of funcs l = Some d" "H = grant_of d" using H by (auto simp: ledger_of_def)
      then have "entries (new @ X) funcs (Inl l) = Some d" by simp
      from owners_okD(2) [OF ok entry [OF i(1)] this] show ?thesis using apart_no_sharing by (simp add: c(2) d(2) i(2))
    qed
    show "apart G H" if l: "?N l = Some H" "k \<noteq> l" for l H
    proof -
      obtain d where d: "recorded name new l = Some d" "H = grant_of d" using l(1) by auto
      obtain j where j: "j < length new" "d = new ! j" "l = (name, cfg_UUID d)" using recorded_Some [OF d(1)] by blast
      have "i \<noteq> j" using i(2,3) j(2,3) l(2) by auto
      then have "no_sharing (new ! i) (new ! j)" using owners_okD(2) [OF ok entry [OF i(1)] entry [OF j(1)]] by simp
      then show ?thesis using apart_no_sharing by (simp add: c(2) d(2) i(2) j(2))
    qed
  qed
qed

section \<open>Every step is an event\<close>

lemma ledger_keep: "configs_of funcs' = configs_of funcs \<Longrightarrow> ledger_step Keep (ledger_of funcs) (ledger_of funcs')"
  by (metis ledger_cong ledger_step.keep)

lemma ledger_drop: "ledger_step (Close name) (ledger_of funcs) (ledger_of (fmdrop name funcs))"
proof -
  have "ledger_of (fmdrop name funcs) = (\<lambda>k. if fst k = name then None else ledger_of funcs k)"
    by (auto simp: ledger_of_def configs_of_def fmdrop_lookup_if fun_eq_iff)
  then show ?thesis using ledger_step.close by simp
qed

lemma side_step_event:
  assumes "side_step s t"
  shows "\<exists>e n. e \<in> {Keep, Close n} \<and> ledger_step e (ledger_of (fastFuncMap (sys_ctl s))) (ledger_of (fastFuncMap (sys_ctl t)))"
  using assms
proof (cases rule: side_step.cases)
  case (reconcile ords found name r err)
  then have "fastFuncMap (rec_ctl r) = fastFuncMap (sys_ctl s) \<or> fastFuncMap (rec_ctl r) = fmdrop name (fastFuncMap (sys_ctl s))"
    by (auto simp: Reconcile_def handleDeleted_map Let_def split: option.splits client_error.splits)
  then show ?thesis
    using ledger_step.keep ledger_drop [of name "fastFuncMap (sys_ctl s)"] by (fastforce simp: reconcile(1))
next
  case (fire before timer after q)
  then show ?thesis using ledger_step.keep by fastforce
next
  case (work q w)
  then show ?thesis using ledger_step.keep by (fastforce simp: set_nm_def set_ctl_def Let_def)
next
  case (node v)
  then show ?thesis using ledger_step.keep by (fastforce simp: set_nm_def set_ctl_def)
qed

lemma advance_event:
  assumes inv: "ctl_inv (in_flight phase @ X) st" and full: "\<forall>c \<in> set (in_flight phase). has_items c"
    and h: "held_ok (fastFuncMap st) phase"
    and items: "\<And>f upd rem. phase = Agreed f upd rem \<Longrightarrow> items_ok ords (held_configs upd rem)"
    and A: "advance E ords st phase = Some (st', phase', err)"
  shows "\<exists>e n. e \<in> {Keep, Grant n, Shrink n} \<and> ledger_step e (ledger_of (fastFuncMap st)) (ledger_of (fastFuncMap st'))"
proof (cases phase)
  case Idle
  then show ?thesis using A ledger_step.keep by (fastforce simp: advance_def)
next
  case (Decided f req)
  then have "fastFuncMap st' = fastFuncMap st" using A by (auto simp: advance_def pick_phase_def split: Option.bind_splits)
  then show ?thesis using ledger_step.keep by fastforce
next
  case (Picked f req r)
  then have "fastFuncMap st' = fastFuncMap st" using A by (auto simp: advance_def commit_phase_def Let_def split: prod.splits)
  then show ?thesis using ledger_step.keep by fastforce
next
  case (Prepared f new)
  then have "fastFuncMap st' = fastFuncMap st" using A by (auto simp: advance_def create_phase_def Let_def split: prod.splits)
  then show ?thesis using ledger_step.keep by fastforce
next
  case (Created f new)
  then have st': "st' = record_phase st f new" using A by (simp add: advance_def)
  show ?thesis
  proof (cases "fmlookup (fastFuncMap st) (ff_Name f)")
    case None
    then show ?thesis using st' ledger_step.keep by (fastforce simp: record_phase_def)
  next
    case (Some fn)
    note ok = books_okD(4) [OF inv [unfolded ctl_inv_def]]
    have "in_flight phase = new" by (simp add: Created in_flight_def)
    from record_grants [OF ok [unfolded this] full [unfolded this] Some]
    show ?thesis using st' Some by (intro exI [of _ "Grant (ff_Name f)"] exI [of _ "ff_Name f"]) (simp add: record_phase_def)
  qed
next
  case (Selected f nm rem upd)
  then have "fastFuncMap st' = fastFuncMap st" using A by (auto simp: advance_def agree_phase_def split: prod.splits Option.bind_splits)
  then show ?thesis using ledger_step.keep by fastforce
next
  case (Agreed f upd rem)
  then have st': "st' = shrink_phase ords st f upd rem" using A by (simp add: advance_def)
  have i: "items_ok ords (held_configs upd rem)" using items Agreed by blast
  have b: "ctl_inv X st" using inv by (simp add: Agreed in_flight_def)
  show ?thesis
  proof (cases "fmlookup (fastFuncMap st) (ff_Name f)")
    case None
    have "\<forall>c \<in> set (held_configs upd rem). shelfItems c = fmempty" using held_okD(1) [OF h _ None] by (simp add: Agreed)
    from shrink_unlisted [OF None i this] have "fastFuncMap st' = fastFuncMap st" by (simp add: st' idle_change_def)
    then show ?thesis using ledger_step.keep by fastforce
  next
    case (Some fn)
    have "listed (fastFuncMap st) (ff_Name f) (held_configs upd rem)" using held_okD(2) [OF h] Some by (simp add: Agreed)
    from shrink_phase_shrinks [OF b Some this i] obtain fn' where
      fn': "fastFuncMap st' = fmupd (ff_Name f) fn' (fastFuncMap st)" "shrunk fn fn'" unfolding st' by blast
    have "configUUIDToConfig fn = configUUIDToConfig (lookup_func st (ff_Name f))" by (simp add: lookup_func_def Some)
    from ledger_shrunk [OF fn'(2) this refl] show ?thesis unfolding fn'(1) by blast
  qed
qed

lemma fine_step_event:
  assumes "fine_step E s t" "env_ok E" "fine_inv s"
  shows "\<exists>e. ledger_step e (ledger_of (fastFuncMap (sys_ctl (fine_sys s)))) (ledger_of (fastFuncMap (sys_ctl (fine_sys t))))"
  using assms(1)
proof (cases rule: fine_step.cases)
  case (other u)
  then show ?thesis using side_step_event [OF other(2)] by auto
next
  case (deletion name cs fn ords r err)
  then have "fastFuncMap (rec_ctl r) = fmdrop name (fastFuncMap (sys_ctl (fine_sys s)))" by (auto simp: Reconcile_def handleDeleted_map)
  then show ?thesis using ledger_drop [of name] unfolding deletion(1) by fastforce
next
  case (begin_check ords f rps prom now rps10s rps30s rps30s_earlier c phase)
  have "slice_sort (env_sortConfigs E)" using assms(2) by (simp add: env_ok_def)
  note D = decide_phase_inv [OF fine_invD(1) [OF assms(3)] begin_check(4) this begin_check(7)]
  show ?thesis using ledger_keep [OF D(5)] unfolding begin_check(1) by (auto simp: set_ctl_def)
next
  case (next_phase ords c phase err)
  note F = fine_invD [OF assms(3)]
  have "\<forall>c \<in> set (in_flight (fine_phase s)). has_items c" using F(4) by (simp add: phase_ok_def)
  from advance_event [OF F(1) this F(5) _ next_phase(5)] next_phase(4) show ?thesis unfolding next_phase(1) by (auto simp: set_ctl_def)
qed

lemma ledger_start: "ledger_of (fastFuncMap (sys_ctl (sys_start itv store cluster t))) = (\<lambda>k. None)"
  by (simp add: ledger_of_def configs_of_def sys_start_def fun_eq_iff)

lemma fine_reachable_ledger:
  "fine_reachable E itv store s \<Longrightarrow> env_ok E \<Longrightarrow> ledger_reachable (ledger_of (fastFuncMap (sys_ctl (fine_sys s))))"
proof (induction rule: fine_reachable.induct)
  case (start cluster t)
  then show ?case using ledger_start [of itv store cluster t] ledger_reachable.start by (simp add: fine_start_def)
next
  case (step s t)
  then show ?case using fine_step_event [OF step(2,4) fine_inv_reachable [OF step(1,4)]] ledger_reachable.event by blast
qed

section \<open>Property\<close>

text \<open>
  C4. The controller refines the ledger. In every run, at the grain of the locks, the books of the functions are a ledger that
  its events can reach, no item is granted twice, and every further step is an event, so it changes the grants of one
  function at most.
\<close>

theorem controller_refines_ledger:
  assumes "fine_reachable E itv store s" "env_ok E"
  shows "ledger_reachable (ledger_of (fastFuncMap (sys_ctl (fine_sys s)))) \<and>
    ledger_ok (ledger_of (fastFuncMap (sys_ctl (fine_sys s)))) \<and>
    (\<forall>t. fine_step E s t \<longrightarrow>
      (\<exists>e. ledger_step e (ledger_of (fastFuncMap (sys_ctl (fine_sys s)))) (ledger_of (fastFuncMap (sys_ctl (fine_sys t))))))"
  using fine_reachable_ledger [OF assms] ledger_reachable_ok fine_step_event [OF _ assms(2) fine_inv_reachable [OF assms]] by blast

theorem controller_refines_ledger_witness:
  "\<exists>(s :: (unit, unit) fine) k G. fine_reachable exclusive_environment 5 exclusive_store s \<and>
    ledger_reachable (ledger_of (fastFuncMap (sys_ctl (fine_sys s)))) \<and>
    ledger_of (fastFuncMap (sys_ctl (fine_sys s))) k = Some G \<and> gr_items G = {|1|}"
proof -
  obtain s c fn where r: "sys_reachable exclusive_environment 5 exclusive_store (s :: unit system)"
    "fmlookup (fastFuncMap (sys_ctl s)) ''bert'' = Some fn" "configUUIDToConfig fn = fmupd (cfg_UUID c) c fmempty"
    "shelfItems c = fmupd 1 True fmempty"
    using scenario_recorded by metis
  obtain lost where f: "fine_reachable exclusive_environment 5 exclusive_store
      (\<lparr>fine_sys = s, fine_phase = Idle, fine_lost = lost\<rparr> :: (unit, unit) fine)"
    using whole_checks_fine [OF r(1) exclusive_env_ok] by blast
  have "ledger_of (fastFuncMap (sys_ctl s)) (''bert'', cfg_UUID c) = Some (grant_of c)" "gr_items (grant_of c) = {|1|}"
    using r(2-4) by (simp_all add: ledger_of_def configs_of_def grant_of_def)
  moreover have "ledger_reachable (ledger_of (fastFuncMap (sys_ctl s)))"
    using controller_refines_ledger [OF f exclusive_env_ok] by simp
  ultimately show ?thesis using f
    by - (rule exI [of _ "\<lparr>fine_sys = s, fine_phase = Idle, fine_lost = lost\<rparr>"], rule exI [of _ "(''bert'', cfg_UUID c)"],
      rule exI [of _ "grant_of c"], simp)
qed

end
