(* ===== verification/Function_End.thy ===== *)
theory Function_End
  imports Scenario
begin

text \<open>
  The end of a function, in the whole controller: what \<open>Reconcile\<close> gives back when the function is gone, and what a
  scale-down does that was in flight then.
\<close>

section \<open>Properties\<close>

text \<open>
  C5. Deleting a function gives everything back and nothing else. In every state the controller reaches, if \<open>Reconcile\<close> finds that
  a listed function is gone, it forgets the function, empties the packers of just the items that the function's
  configurations own, leaving every other replica where it is, and schedules the release of each of their virtual GPUs that
  is empty then. It returns no error.
\<close>

theorem deletion_gives_back:
  assumes "fine_reachable E itv store s" "env_ok E" "Reconcile ords (Some NotFound) name (sys_rec (fine_sys s)) = (r, err)"
    and "fmlookup (fastFuncMap (sys_ctl (fine_sys s))) name = Some fn" "orders_ok ords fn"
  defines "before \<equiv> ctl_heap (sys_ctl (fine_sys s))" and "after \<equiv> ctl_heap (rec_ctl r)"
    and "of_fn \<equiv> \<lambda>a c. \<exists>u. fmlookup (configUUIDToConfig fn) u = Some c \<and> associatedGpu c = a"
  shows "err = None \<and> fastFuncMap (rec_ctl r) = fmdrop name (fastFuncMap (sys_ctl (fine_sys s))) \<and>
    (\<forall>a < length before. placed (Usage (after ! a)) =
      (\<lambda>i. if \<exists>c. of_fn a c \<and> i |\<in>| fmdom (shelfItems c) then None else placed (Usage (before ! a)) i)) \<and>
    (\<forall>a c. of_fn a c \<and> virtual (before ! a) \<and> IsEmpty (Usage (after ! a)) \<longrightarrow>
      (gpu_UUID (before ! a), gpu_NodeName (before ! a)) \<in> set (ctl_timers (rec_ctl r)))"
proof -
  note F = fine_invD [OF fine_inv_reachable [OF assms(1,2)]]
  have r: "rec_ctl r = handleDeletedFaSTFunc ords (sys_ctl (fine_sys s)) name" "err = None"
    using assms(3) by (auto simp: Reconcile_def)
  have len: "a < length before" if "of_fn a c" for a c
  proof -
    obtain u where "fmlookup (configUUIDToConfig fn) u = Some c" "associatedGpu c = a" using \<open>of_fn a c\<close> unfolding of_fn_def by blast
    then have "configs_of (fastFuncMap (sys_ctl (fine_sys s))) (name, u) = Some c" "associatedGpu c = a"
      using assms(4) by (simp_all add: configs_of_def)
    then show ?thesis using owners_okD(1) [OF books_okD(4) [OF F(3)], of "Inl (name, u)" c] by (simp add: owned_def before_def)
  qed
  note G = handleDeleted_gives_back [OF F(1) assms(4,5)]
  have "placed (Usage (after ! a)) =
      (\<lambda>i. if \<exists>c. of_fn a c \<and> i |\<in>| fmdom (shelfItems c) then None else placed (Usage (before ! a)) i)" if "a < length before" for a
    using G(1) [OF that [unfolded before_def]] unfolding after_def before_def of_fn_def r(1) .
  moreover have "(gpu_UUID (before ! a), gpu_NodeName (before ! a)) \<in> set (ctl_timers (rec_ctl r))"
    if "of_fn a c" "virtual (before ! a)" "IsEmpty (Usage (after ! a))" for a c
    using G(2) [OF len [OF that(1), unfolded before_def]] that unfolding after_def before_def of_fn_def r(1) by blast
  moreover have "fastFuncMap (rec_ctl r) = fmdrop name (fastFuncMap (sys_ctl (fine_sys s)))" by (simp add: r handleDeleted_map)
  ultimately show ?thesis using r(2) by blast
qed

text \<open>
  C6. Deleting a function while it is scaled down releases GPUs twice. If the function is deleted after the cluster has agreed to the
  scale-down and before the books are changed, the scale-down goes on with configurations that hold nothing any more. The
  packers and the map of functions stay as the deletion left them, but every configuration whose GPU is empty schedules the release of the
  GPU, whether it is virtual or not; a virtual one has been scheduled by the deletion before. This holds in every state of the
  invariant \<open>fine_inv\<close>, so in every state the controller reaches.
\<close>

theorem deletion_during_scale_down_releases_twice:
  assumes "fine_inv s" "fine_phase s = Agreed f upd rem"
    and "fmlookup (fastFuncMap (sys_ctl (fine_sys s))) (ff_Name f) = Some fn" "orders_ok ords fn" "\<forall>c. range_order (ord_items ords' c) (shelfItems c)"
    and "Reconcile ords (Some NotFound) (ff_Name f) (sys_rec (fine_sys s)) = (r, err)"
    and "advance E ords' (rec_ctl r) (detach ords (ctl_heap (sys_ctl (fine_sys s))) (fine_phase s)) = Some (st, phase, err')"
  shows "phase = Idle \<and> fastFuncMap st = fmdrop (ff_Name f) (fastFuncMap (sys_ctl (fine_sys s))) \<and>
    (\<forall>a. Usage (ctl_heap st ! a) = Usage (ctl_heap (rec_ctl r) ! a)) \<and>
    ctl_timers st = ctl_timers (rec_ctl r) @ empty_timers (ctl_heap (rec_ctl r)) (held_configs upd rem) \<and>
    (\<forall>c \<in> set (held_configs upd rem). let g = ctl_heap (rec_ctl r) ! associatedGpu c; timer = (gpu_UUID g, gpu_NodeName g) in
      virtual g \<and> IsEmpty (Usage g) \<longrightarrow> {#timer, timer#} \<subseteq># mset (ctl_timers st))"
proof -
  let ?old = "sys_ctl (fine_sys s)" and ?new = "rec_ctl r" and ?cs = "held_configs upd rem"
  note F = fine_invD [OF assms(1)]
  have h: "held (fine_phase s) = Some (ff_Name f, ?cs)" by (simp add: assms(2))
  have r: "?new = handleDeletedFaSTFunc ords ?old (ff_Name f)" using assms(6) by (auto simp: Reconcile_def)
  have gone: "fastFuncMap ?new = fmdrop (ff_Name f) (fastFuncMap ?old)" by (simp add: r handleDeleted_map)
  obtain upd' rem' where p: "detach ords (ctl_heap ?old) (fine_phase s) = Agreed f upd' rem'"
    by (simp add: detach_def assms(2))
  have cs: "held_configs upd' rem' = map (\<lambda>c. c\<lparr>shelfItems := fmempty\<rparr>) ?cs"
    using detach_held_ok(1) [OF F(1,5) h assms(3,4), of "ctl_heap ?old"] by (simp add: p)
  have st: "st = shrink_phase ords' ?new f upd' rem'" "phase = Idle" using assms(7) by (simp_all add: p advance_def)
  have "idle_change ?new (held_configs upd' rem') st"
    unfolding st by (rule shrink_unlisted) (use assms(5) in \<open>auto simp: gone cs items_ok_def\<close>)
  moreover have "empty_timers (ctl_heap ?new) (held_configs upd' rem') = empty_timers (ctl_heap ?new) ?cs"
    by (simp add: cs empty_timers_def filter_map comp_def)
  ultimately have I: "fastFuncMap st = fastFuncMap ?new" "same_gpus ?new st"
      "ctl_timers st = ctl_timers ?new @ empty_timers (ctl_heap ?new) ?cs" by (simp_all add: idle_change_def)
  have twice: "{#t, t#} \<subseteq># mset (ctl_timers st)"
    if c: "c \<in> set ?cs" and g: "virtual (ctl_heap ?new ! associatedGpu c)" "IsEmpty (Usage (ctl_heap ?new ! associatedGpu c))"
      and t: "t = (gpu_UUID (ctl_heap ?new ! associatedGpu c), gpu_NodeName (ctl_heap ?new ! associatedGpu c))" for c t
  proof -
    have l: "configs_of (fastFuncMap ?old) (ff_Name f, cfg_UUID c) = Some c"
      using held_okD(2) [OF F(5) h] assms(3) c by (simp add: listed_def)
    then have a: "associatedGpu c < length (ctl_heap ?old)" and u: "\<exists>u. fmlookup (configUUIDToConfig fn) u = Some c"
      using owners_okD(1) [OF books_okD(4) [OF F(3)], of "Inl (ff_Name f, cfg_UUID c)" c] assms(3) by (auto simp: owned_def configs_of_def)
    note G = handleDeleted_gives_back(2,3) [OF F(1) assms(3,4) a, folded r]
    have "t \<in> set (ctl_timers ?new)" using G(1) [of c] G(2) u g t by (auto simp: same_gpu_def)
    moreover have "t \<in> set (empty_timers (ctl_heap ?new) ?cs)" using c g(2) t by (auto simp: empty_timers_def)
    ultimately show ?thesis unfolding I(3) mset_append
      using subset_mset.add_mono [of "{#t#}" "mset (ctl_timers ?new)" "{#t#}"] by (simp add: single_subset_iff)
  qed
  show ?thesis using I(1,3) same_gpusD(1) [OF I(2)] twice st(2) gone by (simp add: Let_def)
qed

text \<open>The scenario's function, with its one replica on a GPU of its own.\<close>

definition visit :: "Config \<Rightarrow> orders" where
  "visit c = \<lparr>ord_nodes = [], ord_configs = [cfg_UUID c], ord_items = item_order\<rparr>"

lemma whole_gpu_items:
  assumes "wf_packer (Usage (heap ! 1))" "takes_whole_gpu heap c" shows "i \<noteq> 1 \<Longrightarrow> placed (Usage (heap ! 1)) i = None"
  using wf_packerD(8) [OF assms(1), of i] assms(2) placed_None [OF assms(1), of i] by (fastforce simp: takes_whole_gpu_def)

lemma scenario_ends:
  obtains s :: "(unit, unit) fine" and c fn r where "fine_reachable exclusive_environment 5 exclusive_store s"
    "fine_phase s = Idle" "once_done (sys_rec (fine_sys s))"
    "fmlookup (fastFuncMap (sys_ctl (fine_sys s))) ''bert'' = Some fn" "fmlookup (configUUIDToConfig fn) (cfg_UUID c) = Some c"
    "orders_ok (visit c) fn" "takes_whole_gpu (ctl_heap (sys_ctl (fine_sys s))) c"
    "Reconcile (visit c) (Some NotFound) ''bert'' (sys_rec (fine_sys s)) = (r, None)"
    "same_gpu (ctl_heap (sys_ctl (fine_sys s)) ! 1) (ctl_heap (rec_ctl r) ! 1)" "IsEmpty (Usage (ctl_heap (rec_ctl r) ! 1))"
proof -
  obtain s c fn where r: "sys_reachable exclusive_environment 5 exclusive_store (s :: unit system)"
    "fmlookup (fastFuncMap (sys_ctl s)) ''bert'' = Some fn" "configUUIDToConfig fn = fmupd (cfg_UUID c) c fmempty"
    "takes_whole_gpu (ctl_heap (sys_ctl s)) c" "once_done (sys_rec s)"
    using scenario_recorded by metis
  obtain lost where f: "fine_reachable exclusive_environment 5 exclusive_store
      (\<lparr>fine_sys = s, fine_phase = Idle, fine_lost = lost\<rparr> :: (unit, unit) fine)"
    using whole_checks_fine [OF r(1) exclusive_env_ok] by blast
  have o: "orders_ok (visit c) fn" by (simp add: orders_ok_def visit_def item_order) (simp add: range_order_def r(3))
  obtain rc where R: "Reconcile (visit c) (Some NotFound) ''bert'' (sys_rec s) = (rc, None)" by (simp add: Reconcile_def)
  let ?t = "s\<lparr>sys_rec := rc\<rparr>"
  have t: "side_step s ?t" using o r(2) by (intro side_step.reconcile [OF R]) simp
  have wf: "wf_packer (Usage (ctl_heap (sys_ctl u) ! 1))" "ctl_inv [] (sys_ctl u)"
    if "sys_reachable exclusive_environment 5 exclusive_store u" "1 < length (ctl_heap (sys_ctl u))" for u :: "unit system"
  proof -
    show i: "ctl_inv [] (sys_ctl u)" using sys_inv_reachable [OF that(1) exclusive_env_ok] by (simp add: sys_inv_def)
    show "wf_packer (Usage (ctl_heap (sys_ctl u) ! 1))"
      using budgetD(2) [OF books_okD(1) [OF i [unfolded ctl_inv_def]] nth_mem [OF that(2)]] .
  qed
  have a: "1 < length (ctl_heap (sys_ctl s))" "1 < length (ctl_heap (sys_ctl ?t))"
    using side_step_frame(1) [OF t] r(4) by (simp_all add: takes_whole_gpu_def)
  have rc: "rec_ctl rc = handleDeletedFaSTFunc (visit c) (sys_ctl s) ''bert''" using R by (auto simp: Reconcile_def)
  note G = handleDeleted_gives_back [OF wf(2) [OF r(1) a(1)] r(2) o a(1), folded rc]
  have c: "fmlookup (configUUIDToConfig fn) (cfg_UUID c) = Some c" "associatedGpu c = 1" "1 |\<in>| fmdom (shelfItems c)"
    using r(3,4) by (simp_all add: takes_whole_gpu_def)
  have "placed (Usage (ctl_heap (rec_ctl rc) ! 1)) i = None" for i
    unfolding G(1) using c whole_gpu_items [OF wf(1) [OF r(1) a(1)] r(4), of i] by (cases "i = 1") auto
  then have "placed (Usage (ctl_heap (rec_ctl rc) ! 1)) = Map.empty" by blast
  then have "IsEmpty (Usage (ctl_heap (rec_ctl rc) ! 1))"
    using IsEmpty_iff [OF wf(1) [OF sys_reachable.step [OF r(1) sys_step.side [OF t]] a(2)]] by simp
  then show ?thesis using that [OF f] r(2,4,5) o R G(3) c(1) by auto
qed

theorem deletion_gives_back_witness:
  "\<exists>(s :: (unit, unit) fine) c r err. fine_reachable exclusive_environment 5 exclusive_store s \<and>
    Reconcile (visit c) (Some NotFound) ''bert'' (sys_rec (fine_sys s)) = (r, err) \<and> shelfItems c = fmupd 1 True fmempty \<and>
    placed (Usage (ctl_heap (rec_ctl r) ! 1)) 1 = None \<and> (''gpu-1'', ''n1'') \<in> set (ctl_timers (rec_ctl r))"
proof -
  obtain s :: "(unit, unit) fine" and c fn r where R: "fine_reachable exclusive_environment 5 exclusive_store s"
    "fmlookup (fastFuncMap (sys_ctl (fine_sys s))) ''bert'' = Some fn" "fmlookup (configUUIDToConfig fn) (cfg_UUID c) = Some c"
    "orders_ok (visit c) fn" "takes_whole_gpu (ctl_heap (sys_ctl (fine_sys s))) c"
    "Reconcile (visit c) (Some NotFound) ''bert'' (sys_rec (fine_sys s)) = (r, None)" "IsEmpty (Usage (ctl_heap (rec_ctl r) ! 1))"
    using scenario_ends by metis
  let ?heap = "ctl_heap (sys_ctl (fine_sys s))" and ?new = "ctl_heap (rec_ctl r)"
  have g: "associatedGpu c = 1" "1 < length ?heap" "virtual (?heap ! 1)" "shelfItems c = fmupd 1 True fmempty"
      "(gpu_UUID (?heap ! 1), gpu_NodeName (?heap ! 1)) = (''gpu-1'', ''n1'')"
    using R(5) by (simp_all add: takes_whole_gpu_def)
  note D = deletion_gives_back [OF R(1) exclusive_env_ok R(6,2,4)]
  have its: "\<exists>d. (\<exists>u. fmlookup (configUUIDToConfig fn) u = Some d \<and> associatedGpu d = 1) \<and> 1 |\<in>| fmdom (shelfItems d)"
    using R(3) g(1,4) by (intro exI [of _ c]) auto
  have "placed (Usage (?new ! 1)) 1 = None" using D g(2) its by simp
  moreover have "(gpu_UUID (?heap ! 1), gpu_NodeName (?heap ! 1)) \<in> set (ctl_timers (rec_ctl r))" using D g(1,3) R(3,7) by blast
  ultimately show ?thesis using R(1,6) g(4) unfolding g(5) by blast
qed

theorem deletion_during_scale_down_releases_twice_witness:
  "\<exists>(s :: (unit, unit) fine) c r err st. fine_inv s \<and> fine_phase s = Agreed example_func [] [c] \<and>
    Reconcile (visit c) (Some NotFound) ''bert'' (sys_rec (fine_sys s)) = (r, err) \<and>
    advance exclusive_environment item_orders (rec_ctl r) (detach (visit c) (ctl_heap (sys_ctl (fine_sys s))) (fine_phase s)) =
      Some (st, Idle, None) \<and> {#(''gpu-1'', ''n1''), (''gpu-1'', ''n1'')#} \<subseteq># mset (ctl_timers st)"
proof -
  obtain s :: "(unit, unit) fine" and c fn r where R: "fine_reachable exclusive_environment 5 exclusive_store s"
    "fine_phase s = Idle" "once_done (sys_rec (fine_sys s))"
    "fmlookup (fastFuncMap (sys_ctl (fine_sys s))) ''bert'' = Some fn" "fmlookup (configUUIDToConfig fn) (cfg_UUID c) = Some c"
    "orders_ok (visit c) fn" "takes_whole_gpu (ctl_heap (sys_ctl (fine_sys s))) c"
    "Reconcile (visit c) (Some NotFound) ''bert'' (sys_rec (fine_sys s)) = (r, None)"
    "same_gpu (ctl_heap (sys_ctl (fine_sys s)) ! 1) (ctl_heap (rec_ctl r) ! 1)" "IsEmpty (Usage (ctl_heap (rec_ctl r) ! 1))"
    using scenario_ends by metis
  let ?s = "s\<lparr>fine_phase := Agreed example_func [] [c]\<rparr>"
  note F = fine_invD [OF fine_inv_reachable [OF R(1) exclusive_env_ok], unfolded R(2)]
  have n: "ff_Name example_func = ''bert''" by (simp add: example_func_def)
  have "listed (fastFuncMap (sys_ctl (fine_sys s))) ''bert'' [c]" using R(4,5) by (simp add: listed_def configs_of_def)
  then have "held_ok (fastFuncMap (sys_ctl (fine_sys s))) (Agreed example_func [] [c])"
    using R(4) by (simp add: held_ok_def held_configs_def n)
  then have s: "fine_inv ?s" using F(2,6) R(3) by (simp add: fine_inv_def in_flight_def phase_ok_def)
  obtain st where A: "advance exclusive_environment item_orders (rec_ctl r)
      (detach (visit c) (ctl_heap (sys_ctl (fine_sys ?s))) (fine_phase ?s)) = Some (st, Idle, None)"
    by (simp add: advance_def detach_def)
  have g: "associatedGpu c = 1" "virtual (ctl_heap (rec_ctl r) ! 1)" "gpu_UUID (ctl_heap (rec_ctl r) ! 1) = ''gpu-1''"
      "gpu_NodeName (ctl_heap (rec_ctl r) ! 1) = ''n1''"
    using R(7,9) by (simp_all add: takes_whole_gpu_def same_gpu_def)
  have o: "\<forall>d. range_order (ord_items item_orders d) (shelfItems d)" by (simp add: item_orders_def item_order)
  have "fmlookup (fastFuncMap (sys_ctl (fine_sys ?s))) (ff_Name example_func) = Some fn"
    "Reconcile (visit c) (Some NotFound) (ff_Name example_func) (sys_rec (fine_sys ?s)) = (r, None)" using R(4,8) by (simp_all add: n)
  note T = deletion_during_scale_down_releases_twice [where f = example_func and upd = "[]" and rem = "[c]", OF s _ this(1) R(6) o this(2) A,
    THEN conjunct2, THEN conjunct2, THEN conjunct2, THEN conjunct2]
  have "{#(''gpu-1'', ''n1''), (''gpu-1'', ''n1'')#} \<subseteq># mset (ctl_timers st)"
    using T R(10) g by (simp add: held_configs_def Let_def)
  then show ?thesis using s A R(8) by (intro exI [of _ ?s] exI [of _ c] exI [of _ r] exI [of _ None] exI [of _ st]) simp
qed

end
