(* ===== verification/Acceptor.thy ===== *)
theory Acceptor
  imports Node_Manager "HOL-Library.Monad_Syntax"
begin

text \<open>
  \<open>StartTCPAcceptor\<close> of \<^verbatim>\<open>internal/controller/node_manager.go\<close>: the loop that accepts the connections of the nodes
  and starts a handler (the \<open>connect\<close> step of \<open>nm_step\<close>) for each. The results of \<^verbatim>\<open>net.Listen\<close> and of the calls of
  \<^verbatim>\<open>Accept\<close> are arguments; the calls are numbered.
\<close>

section \<open>The loop\<close>

datatype accept_result = AcceptError | Connection nat

text \<open>One round: the handlers that run after it.\<close>

definition accept_round :: "accept_result \<Rightarrow> nat list \<Rightarrow> nat list" where
  "accept_round res handlers = (case res of AcceptError \<Rightarrow> handlers | Connection conn \<Rightarrow> handlers @ [conn])"

partial_function (option) accept_loop :: "(nat \<Rightarrow> accept_result) \<Rightarrow> nat \<Rightarrow> nat list \<Rightarrow> nat list option" where
  "accept_loop accepts i handlers = accept_loop accepts (Suc i) (accept_round (accepts i) handlers)"

text \<open>The error of \<^verbatim>\<open>Listen\<close>, if there is one, is what the call returns. None: it does not return.\<close>

definition StartTCPAcceptor :: "string option \<Rightarrow> (nat \<Rightarrow> accept_result) \<Rightarrow> string option option" where
  "StartTCPAcceptor listen accepts =
    (case listen of
       Some err \<Rightarrow> Some (Some err)
     | None \<Rightarrow> map_option (\<lambda>handlers. None) (accept_loop accepts 0 []))"

text \<open>The handlers that have been started after a number of rounds, which is all that can be seen of the loop.\<close>

primrec handlers_after :: "(nat \<Rightarrow> accept_result) \<Rightarrow> nat \<Rightarrow> nat list" where
  "handlers_after accepts 0 = []"
| "handlers_after accepts (Suc n) = accept_round (accepts n) (handlers_after accepts n)"

text \<open>A closed listener refuses every further call: what is documented of \<^verbatim>\<open>Close\<close>.\<close>

definition closed_at :: "(nat \<Rightarrow> accept_result) \<Rightarrow> nat \<Rightarrow> bool" where
  "closed_at accepts n \<longleftrightarrow> (\<forall>i \<ge> n. accepts i = AcceptError)"

lemmas acceptor_eval [go_eval] = accept_round_def StartTCPAcceptor_def

section \<open>Its behaviour\<close>

lemma accept_loop_diverges: "accept_loop accepts i handlers = None"
proof (cases "accept_loop accepts i handlers")
  case (Some r)
  have False by (rule accept_loop.raw_induct [where P = "\<lambda>accepts i handlers r. False", OF _ Some]) blast
  then show ?thesis ..
qed

lemma handlers_served: "set (handlers_after accepts n) = {c. \<exists>i < n. accepts i = Connection c}"
  by (induction n) (auto simp: accept_round_def less_Suc_eq split: accept_result.split)

lemma handlers_closed: "closed_at accepts n \<Longrightarrow> handlers_after accepts (n + k) = handlers_after accepts n"
  by (induction k) (simp_all add: accept_round_def closed_at_def)

section \<open>Properties\<close>



end
