(* ===== verification/Setup.thy ===== *)
theory Setup
  imports Autoscaler Acceptor
begin

text \<open>
  How the program starts: the registration of its types, \<open>main\<close> of \<^verbatim>\<open>cmd/main.go\<close> with the flags of the standard library's
  \<^verbatim>\<open>flag\<close> package, and
  \<open>SetupWithManager\<close> with the listers of \<^verbatim>\<open>internal/controller/fastfunc_controller.go\<close>. What the client libraries answer is
  an argument.
\<close>

section \<open>The scheme\<close>

text \<open>
  The packages that register types: builders and schemes are theirs. An \<^verbatim>\<open>AddToScheme\<close> returns the scheme it has changed and
  its error.
\<close>

record ('b, 's) scheme_library =
  NewScheme :: 's
  NewBuilder :: "string \<times> string \<Rightarrow> 'b"
  Register :: "'b \<Rightarrow> string list \<Rightarrow> 'b"
  Builder_AddToScheme :: "'b \<Rightarrow> 's \<Rightarrow> 's \<times> string option"
  clientgo_AddToScheme :: "'s \<Rightarrow> 's \<times> string option"
  fastpod_AddToScheme :: "'s \<Rightarrow> 's \<times> string option"

text \<open>The variables of \<^verbatim>\<open>api/v1\<close> and its \<open>init\<close>, which Go runs before that of \<^verbatim>\<open>main\<close>. \<open>AddToScheme\<close> is a method of the
  pointer \<open>SchemeBuilder\<close>, so it adds what \<open>init\<close> has registered since.\<close>

definition GroupVersion :: "string \<times> string" where
  "GroupVersion = (''caps.in.tum.fastgshare'', ''v1'')"

definition SchemeBuilder :: "('b, 's) scheme_library \<Rightarrow> 'b" where
  "SchemeBuilder lib = NewBuilder lib GroupVersion"

definition api_init :: "('b, 's) scheme_library \<Rightarrow> 'b \<Rightarrow> 'b" where
  "api_init lib builder = Register lib builder [''FaSTFunc'', ''FaSTFuncList'']"

definition AddToScheme :: "('b, 's) scheme_library \<Rightarrow> 's \<Rightarrow> 's \<times> string option" where
  "AddToScheme lib scheme = Builder_AddToScheme lib (api_init lib (SchemeBuilder lib)) scheme"

text \<open>The \<open>init\<close> of \<^verbatim>\<open>main\<close>. None: \<^verbatim>\<open>Must\<close> panics.\<close>

definition main_init :: "('b, 's) scheme_library \<Rightarrow> 's option" where
  "main_init lib =
    (case clientgo_AddToScheme lib (NewScheme lib) of
       (scheme, Some err) \<Rightarrow> None
     | (scheme, None) \<Rightarrow>
         (case AddToScheme lib scheme of
            (scheme, Some err) \<Rightarrow> None
          | (scheme, None) \<Rightarrow> Some scheme))"

section \<open>The controller's clients\<close>

record InitConfig =
  PrometheusURL :: string
  NodeListenerAddress :: string

text \<open>A lister: of the FaSTPods of a namespace, or of the nodes with a resync period.\<close>

datatype lister = PodLister string | NodeLister int

text \<open>\<open>synced\<close> is the answer of \<^verbatim>\<open>WaitForCacheSync\<close>; a nil lister is None.\<close>

definition getFaSTPodLister :: "string \<Rightarrow> bool \<Rightarrow> lister option" where
  "getFaSTPodLister namespace synced = (if \<not> synced then None else Some (PodLister namespace))"

definition getNodeLister :: "bool \<Rightarrow> lister option" where
  "getNodeLister synced = (if \<not> synced then None else Some (NodeLister (30 * second)))"

text \<open>The answers: the error of the Prometheus client, the syncs of the caches, and the error of \<^verbatim>\<open>Complete\<close>, which looks the
  type of \<^verbatim>\<open>For\<close> up in the scheme.\<close>

record 's setup_answers =
  ans_NewClient :: "string \<Rightarrow> string option"
  ans_pods_synced :: bool
  ans_nodes_synced :: bool
  ans_Complete :: "'s \<Rightarrow> string option"

text \<open>The fields of the reconciler that are set, the scheme it shares with the manager, and the goroutine that is started.\<close>

record 's setup_state =
  set_Scheme :: 's
  set_promv1api :: "string option"
  set_nodeManager :: "NodeManager option"
  set_fastpodLister :: "lister option"
  set_nodesLister :: "lister option"
  acceptor_address :: "string option"

definition SetupWithManager :: "('b, 's) scheme_library \<Rightarrow> 's setup_answers \<Rightarrow> QPSStore \<Rightarrow> InitConfig \<Rightarrow> 's setup_state \<Rightarrow>
    's setup_state \<times> string option" where
  "SetupWithManager lib ans store initConfig r =
    (case ans_NewClient ans (PrometheusURL initConfig) of
       Some err \<Rightarrow> (r, Some err)
     | None \<Rightarrow>
         let r = r\<lparr>set_promv1api := Some (PrometheusURL initConfig)\<rparr>;
             r = r\<lparr>set_nodeManager := Some (NewNodeManager 5 store)\<rparr>;
             r = r\<lparr>acceptor_address := Some (NodeListenerAddress initConfig)\<rparr>;
             r = r\<lparr>set_fastpodLister := getFaSTPodLister ''fast-gshare-fn'' (ans_pods_synced ans)\<rparr>;
             r = r\<lparr>set_nodesLister := getNodeLister (ans_nodes_synced ans)\<rparr>;
             (scheme, err) = fastpod_AddToScheme lib (set_Scheme r);
             r = r\<lparr>set_Scheme := scheme\<rparr>
         in (r, ans_Complete ans (set_Scheme r)))"

section \<open>The command line\<close>

record flags =
  metricsAddr :: string
  enableLeaderElection :: bool
  probeAddr :: string
  secureMetrics :: bool
  enableHTTP2 :: bool
  fl_initConfig :: InitConfig

definition default_flags :: flags where
  "default_flags = \<lparr>metricsAddr = ''0'', enableLeaderElection = False, probeAddr = '':8081'', secureMetrics = True, enableHTTP2 = False,
     fl_initConfig = \<lparr>PrometheusURL = ''http://prometheus.fast-gshare.svc.cluster.local:9090'',
       NodeListenerAddress = ''0.0.0.0:10088''\<rparr>\<rparr>"

text \<open>\<^verbatim>\<open>strconv.ParseBool\<close>.\<close>

definition ParseBool :: "string \<Rightarrow> bool option" where
  "ParseBool s =
    (if s \<in> set [''1'', ''t'', ''T'', ''TRUE'', ''true'', ''True''] then Some True
     else if s \<in> set [''0'', ''f'', ''F'', ''FALSE'', ''false'', ''False''] then Some False else None)"

text \<open>Whether a flag of \<open>main\<close> is a boolean one (None: \<open>main\<close> does not define it), and setting it (None: the value does not parse).\<close>

definition bool_flag :: "string \<Rightarrow> bool option" where
  "bool_flag name = map_of [(''metrics-bind-address'', False), (''health-probe-bind-address'', False), (''leader-elect'', True),
     (''metrics-secure'', True), (''enable-http2'', True), (''node-listener-address'', False), (''prometheus-url'', False)] name"

definition set_flag :: "string \<Rightarrow> string \<Rightarrow> flags \<Rightarrow> flags option" where
  "set_flag name v opts =
    (if name = ''metrics-bind-address'' then Some (opts\<lparr>metricsAddr := v\<rparr>)
     else if name = ''health-probe-bind-address'' then Some (opts\<lparr>probeAddr := v\<rparr>)
     else if name = ''leader-elect'' then map_option (\<lambda>b. opts\<lparr>enableLeaderElection := b\<rparr>) (ParseBool v)
     else if name = ''metrics-secure'' then map_option (\<lambda>b. opts\<lparr>secureMetrics := b\<rparr>) (ParseBool v)
     else if name = ''enable-http2'' then map_option (\<lambda>b. opts\<lparr>enableHTTP2 := b\<rparr>) (ParseBool v)
     else if name = ''node-listener-address'' then Some (opts\<lparr>fl_initConfig := (fl_initConfig opts)\<lparr>NodeListenerAddress := v\<rparr>\<rparr>)
     else Some (opts\<lparr>fl_initConfig := (fl_initConfig opts)\<lparr>PrometheusURL := v\<rparr>\<rparr>))"

text \<open>The flags of other packages (those of the logger are bound in \<open>main\<close>): whether one is boolean and which values it takes.\<close>

type_synonym other_flags = "string \<Rightarrow> (bool \<times> (string \<Rightarrow> bool)) option"

text \<open>An argument as \<^verbatim>\<open>flag.Parse\<close> takes it apart: it ends the flags, is malformed, or names a flag, perhaps with a value.\<close>

datatype flag_arg = EndOfFlags | BadSyntax | NamedFlag string "string option"

definition split_arg :: "string \<Rightarrow> flag_arg" where
  "split_arg s =
    (if length s < 2 \<or> hd s \<noteq> CHR ''-'' then EndOfFlags
     else if s = ''--'' then EndOfFlags
     else let name = (if s ! 1 = CHR ''-'' then drop 2 s else drop 1 s)
       in if name = [] \<or> hd name = CHR ''-'' \<or> hd name = CHR ''='' then BadSyntax
          else NamedFlag (takeWhile (\<lambda>c. c \<noteq> CHR ''='') name)
            (case dropWhile (\<lambda>c. c \<noteq> CHR ''='') name of [] \<Rightarrow> None | c # v \<Rightarrow> Some v))"

text \<open>\<^verbatim>\<open>flag.Parse\<close> on the arguments; on an error the program exits with the code on the left.\<close>

fun flag_Parse :: "other_flags \<Rightarrow> string list \<Rightarrow> flags \<Rightarrow> int + flags" where
  "flag_Parse others [] opts = Inr opts"
| "flag_Parse others (arg # args) opts =
     (case split_arg arg of
        EndOfFlags \<Rightarrow> Inr opts
      | BadSyntax \<Rightarrow> Inl 2
      | NamedFlag name v \<Rightarrow>
          (case (bool_flag name, others name) of
             (None, None) \<Rightarrow> Inl (if name = ''help'' \<or> name = ''h'' then 0 else 2)
           | (None, Some (is_bool, accepts)) \<Rightarrow>
               (case v of
                  Some x \<Rightarrow> if accepts x then flag_Parse others args opts else Inl 2
                | None \<Rightarrow>
                    if is_bool then (if accepts ''true'' then flag_Parse others args opts else Inl 2)
                    else (case args of
                        [] \<Rightarrow> Inl 2
                      | x # args' \<Rightarrow> if accepts x then flag_Parse others args' opts else Inl 2))
           | (Some is_bool, _) \<Rightarrow>
               (case v of
                  Some x \<Rightarrow> (case set_flag name x opts of None \<Rightarrow> Inl 2 | Some opts \<Rightarrow> flag_Parse others args opts)
                | None \<Rightarrow>
                    if is_bool then (case set_flag name ''true'' opts of None \<Rightarrow> Inl 2 | Some opts \<Rightarrow> flag_Parse others args opts)
                    else (case args of
                        [] \<Rightarrow> Inl 2
                      | x # args' \<Rightarrow> (case set_flag name x opts of None \<Rightarrow> Inl 2 | Some opts \<Rightarrow> flag_Parse others args' opts)))))"

section \<open>The program\<close>

record metrics_options =
  BindAddress :: string
  SecureServing :: bool
  metrics_http2_disabled :: bool
  FilterProvider :: bool

record manager_options =
  Metrics :: metrics_options
  webhook_http2_disabled :: bool
  HealthProbeBindAddress :: string
  LeaderElection :: bool

definition manager_options_of :: "flags \<Rightarrow> manager_options" where
  "manager_options_of opts =
    (let tlsOpts = (if \<not> enableHTTP2 opts then [''disableHTTP2''] else []);
         webhookServer = (tlsOpts \<noteq> []);
         metricsServerOptions = \<lparr>BindAddress = metricsAddr opts, SecureServing = secureMetrics opts,
           metrics_http2_disabled = (tlsOpts \<noteq> []), FilterProvider = False\<rparr>;
         metricsServerOptions = (if secureMetrics opts then metricsServerOptions\<lparr>FilterProvider := True\<rparr> else metricsServerOptions)
     in \<lparr>Metrics = metricsServerOptions, webhook_http2_disabled = webhookServer, HealthProbeBindAddress = probeAddr opts,
          LeaderElection = False\<rparr>)"

text \<open>What controller-runtime answers: whether a manager is made from the options, the errors of the two checks, and the error
  \<^verbatim>\<open>Start\<close> ends with.\<close>

record 's manager_answers =
  ans_NewManager :: "'s \<Rightarrow> manager_options \<Rightarrow> bool"
  ans_setup :: "'s setup_answers"
  ans_healthz :: bool
  ans_readyz :: bool
  ans_Start :: "manager_options \<Rightarrow> 's setup_state \<Rightarrow> bool"

text \<open>The exit code, and the manager's options with the state of the set-up if the manager was started. A panic exits with 2.\<close>

definition main_program :: "('b, 's) scheme_library \<Rightarrow> other_flags \<Rightarrow> 's manager_answers \<Rightarrow> QPSStore \<Rightarrow> string list \<Rightarrow>
    int \<times> (manager_options \<times> 's setup_state) option" where
  "main_program lib others ans store args =
    (case main_init lib of None \<Rightarrow> (2, None) | Some scheme \<Rightarrow>
    (case flag_Parse others args default_flags of
       Inl code \<Rightarrow> (code, None)
     | Inr opts \<Rightarrow>
         let options = manager_options_of opts in
         if \<not> ans_NewManager ans scheme options then (1, None)
         else case SetupWithManager lib (ans_setup ans) store (fl_initConfig opts)
             \<lparr>set_Scheme = scheme, set_promv1api = None, set_nodeManager = None, set_fastpodLister = None, set_nodesLister = None, acceptor_address = None\<rparr> of
           (r, Some err) \<Rightarrow> (1, None)
         | (r, None) \<Rightarrow>
             if \<not> ans_healthz ans then (1, None)
             else if \<not> ans_readyz ans then (1, None)
             else (if ans_Start ans options r then 0 else 1, Some (options, r))))"

lemmas setup_eval [go_eval] =
  GroupVersion_def SchemeBuilder_def api_init_def AddToScheme_def main_init_def
  getFaSTPodLister_def getNodeLister_def SetupWithManager_def default_flags_def ParseBool_def bool_flag_def set_flag_def split_arg_def
  manager_options_of_def main_program_def

section \<open>The flag for leader election\<close>

text \<open>Parsing goes the same way whatever the flag for leader election has been set to.\<close>

definition same_but_leader :: "int + flags \<Rightarrow> int + flags \<Rightarrow> bool" where
  "same_but_leader x y \<longleftrightarrow> (case (x, y) of
     (Inl c, Inl d) \<Rightarrow> c = d
   | (Inr a, Inr b) \<Rightarrow> a\<lparr>enableLeaderElection := False\<rparr> = b\<lparr>enableLeaderElection := False\<rparr>
   | _ \<Rightarrow> False)"

lemma set_flag_leader:
  assumes "a\<lparr>enableLeaderElection := False\<rparr> = b\<lparr>enableLeaderElection := False\<rparr>"
  shows "(case (set_flag name v a, set_flag name v b) of
     (None, None) \<Rightarrow> True
   | (Some a', Some b') \<Rightarrow> a'\<lparr>enableLeaderElection := False\<rparr> = b'\<lparr>enableLeaderElection := False\<rparr>
   | _ \<Rightarrow> False)"
  using assms by (cases a; cases b) (auto simp: set_flag_def split: option.split)

lemma set_flag_cases:
  assumes "a\<lparr>enableLeaderElection := False\<rparr> = b\<lparr>enableLeaderElection := False\<rparr>"
  obtains "set_flag name v a = None" "set_flag name v b = None"
  | a' b' where "set_flag name v a = Some a'" "set_flag name v b = Some b'"
    "a'\<lparr>enableLeaderElection := False\<rparr> = b'\<lparr>enableLeaderElection := False\<rparr>"
  using set_flag_leader [OF assms, of name v] by (auto split: option.splits)

lemma parse_leader:
  "a\<lparr>enableLeaderElection := False\<rparr> = b\<lparr>enableLeaderElection := False\<rparr> \<Longrightarrow>
    same_but_leader (flag_Parse others args a) (flag_Parse others args b)"
proof (induction args arbitrary: a b rule: length_induct)
  case (1 args)
  show ?case
  proof (cases args)
    case (Cons arg rest)
    have IH: "same_but_leader (flag_Parse others xs a') (flag_Parse others xs b')"
      if "length xs \<le> length rest" "a'\<lparr>enableLeaderElection := False\<rparr> = b'\<lparr>enableLeaderElection := False\<rparr>" for xs a' b'
      using 1 that Cons by simp
    have S: "same_but_leader (case set_flag name v a of None \<Rightarrow> Inl 2 | Some opts \<Rightarrow> flag_Parse others xs opts)
        (case set_flag name v b of None \<Rightarrow> Inl 2 | Some opts \<Rightarrow> flag_Parse others xs opts)" if "length xs \<le> length rest" for name v xs
      by (rule set_flag_cases [OF "1.prems", of name v]) (simp_all add: IH [OF that], simp add: same_but_leader_def)
    have refl: "same_but_leader (Inl c) (Inl c)" "same_but_leader (Inr a) (Inr b)" for c
      using "1.prems" by (simp_all add: same_but_leader_def)
    note I = IH [OF _ "1.prems"] and step = flag_Parse.simps(2) [of others arg rest]
    show ?thesis
    proof (cases "split_arg arg")
      case (NamedFlag name v)
      show ?thesis
      proof (cases "bool_flag name")
        case None
        show ?thesis
        proof (cases "others name")
          case (Some other)
          obtain is_bool accepts where "other = (is_bool, accepts)" by force
          then show ?thesis unfolding Cons step using NamedFlag None Some
            by (cases v; cases is_bool; cases rest) (simp_all add: refl I del: flag_Parse.simps(2))
        qed (simp add: Cons NamedFlag None refl)
      next
        case (Some is_bool)
        then show ?thesis unfolding Cons step using NamedFlag
          by (cases v; cases is_bool; cases rest) (simp_all add: refl S del: flag_Parse.simps(2))
      qed
    qed (simp_all add: Cons refl)
  qed (use "1.prems" in \<open>simp add: same_but_leader_def\<close>)
qed

lemma options_leader:
  assumes "a\<lparr>enableLeaderElection := False\<rparr> = b\<lparr>enableLeaderElection := False\<rparr>"
  shows "manager_options_of a = manager_options_of b" "fl_initConfig a = fl_initConfig b"
  using assms by (cases a; cases b; simp add: manager_options_of_def)+

lemma main_leader:
  assumes "same_but_leader (flag_Parse others args default_flags) (flag_Parse others args' default_flags)"
  shows "main_program lib others ans store args = main_program lib others ans store args'"
proof (cases "flag_Parse others args default_flags")
  case (Inl c)
  then have "flag_Parse others args' default_flags = Inl c"
    using assms by (cases "flag_Parse others args' default_flags") (simp_all add: same_but_leader_def)
  then show ?thesis by (cases "main_init lib") (simp_all add: main_program_def Inl)
next
  case (Inr a)
  then obtain b where b: "flag_Parse others args' default_flags = Inr b" "a\<lparr>enableLeaderElection := False\<rparr> = b\<lparr>enableLeaderElection := False\<rparr>"
    using assms by (cases "flag_Parse others args' default_flags") (simp_all add: same_but_leader_def)
  show ?thesis unfolding main_program_def Inr b(1) sum.case options_leader [OF b(2)] ..
qed

lemma started_options: "main_program lib others ans store args = (code, Some (options, r)) \<Longrightarrow> \<exists>opts. options = manager_options_of opts"
  by (auto simp: main_program_def Let_def split: sum.splits if_splits prod.splits option.splits)

section \<open>The types that are registered\<close>

text \<open>
  What the packages promise: a builder adds the types registered in it under its group and version, no call takes a type
  out of a scheme, and the one of \<^verbatim>\<open>fastpodv1\<close> adds that package's types \<open>fastpod_kinds\<close> unless it returns an error.
\<close>

definition scheme_laws :: "('b, 's) scheme_library \<Rightarrow> ('b \<Rightarrow> (string \<times> string) \<times> string set) \<Rightarrow>
    ('s \<Rightarrow> ((string \<times> string) \<times> string) set) \<Rightarrow> ((string \<times> string) \<times> string) set \<Rightarrow> bool" where
  "scheme_laws lib content kinds fastpod_kinds \<longleftrightarrow>
    (\<forall>gv. content (NewBuilder lib gv) = (gv, {})) \<and>
    (\<forall>b ts. content (Register lib b ts) = (fst (content b), snd (content b) \<union> set ts)) \<and>
    (\<forall>b s s'. Builder_AddToScheme lib b s = (s', None) \<longrightarrow> kinds s' = kinds s \<union> {fst (content b)} \<times> snd (content b)) \<and>
    (\<forall>s s' err. fastpod_AddToScheme lib s = (s', err) \<longrightarrow> kinds s \<subseteq> kinds s' \<and> (err = None \<longrightarrow> fastpod_kinds \<subseteq> kinds s'))"

text \<open>A program that starts its manager knows the types of this repository; those of the FaSTPods only if an error that is dropped
  did not occur.\<close>

lemma scheme_lawsD:
  assumes "scheme_laws lib content kinds fastpod_kinds"
  shows "content (NewBuilder lib gv) = (gv, {})" "content (Register lib b ts) = (fst (content b), snd (content b) \<union> set ts)"
    "Builder_AddToScheme lib b s = (s', None) \<Longrightarrow> kinds s' = kinds s \<union> {fst (content b)} \<times> snd (content b)"
    "fastpod_AddToScheme lib s = (s', err) \<Longrightarrow> kinds s \<subseteq> kinds s' \<and> (err = None \<longrightarrow> fastpod_kinds \<subseteq> kinds s')"
  using assms unfolding scheme_laws_def by (cases gv; simp)+

lemma main_registers:
  assumes "scheme_laws lib content kinds fastpod_kinds" "main_program lib others ans store args = (code, Some (options, r))"
  shows "(GroupVersion, ''FaSTFunc'') \<in> kinds (set_Scheme r)" "(GroupVersion, ''FaSTFuncList'') \<in> kinds (set_Scheme r)"
    "(\<forall>s. snd (fastpod_AddToScheme lib s) = None) \<Longrightarrow> fastpod_kinds \<subseteq> kinds (set_Scheme r)"
proof -
  obtain s where s: "main_init lib = Some s" using assms(2) by (auto simp: main_program_def split: option.splits)
  obtain s' err where F: "fastpod_AddToScheme lib s = (s', err)" by force
  have r: "set_Scheme r = s'"
    using assms(2) F by (auto simp: main_program_def s SetupWithManager_def Let_def split: sum.splits if_splits prod.splits option.splits)
  obtain s0 where "AddToScheme lib s0 = (s, None)" using s by (auto simp: main_init_def split: prod.splits option.splits)
  then have "kinds s = kinds s0 \<union> {fst (content (api_init lib (SchemeBuilder lib)))} \<times> snd (content (api_init lib (SchemeBuilder lib)))"
    using scheme_lawsD(3) [OF assms(1)] unfolding AddToScheme_def by blast
  moreover note scheme_lawsD(1) [OF assms(1), of GroupVersion]
  then have "content (api_init lib (SchemeBuilder lib)) = (GroupVersion, {''FaSTFunc'', ''FaSTFuncList''})"
    by (simp add: scheme_lawsD(2) [OF assms(1)] api_init_def SchemeBuilder_def)
  ultimately have "{(GroupVersion, ''FaSTFunc''), (GroupVersion, ''FaSTFuncList'')} \<subseteq> kinds s" by auto
  moreover have "kinds s \<subseteq> kinds s'" "err = None \<longrightarrow> fastpod_kinds \<subseteq> kinds s'" using scheme_lawsD(4) [OF assms(1) F] by blast+
  ultimately show "(GroupVersion, ''FaSTFunc'') \<in> kinds (set_Scheme r)" "(GroupVersion, ''FaSTFuncList'') \<in> kinds (set_Scheme r)"
    "(\<forall>s. snd (fastpod_AddToScheme lib s) = None) \<Longrightarrow> fastpod_kinds \<subseteq> kinds (set_Scheme r)"
    using F unfolding r by (auto dest: spec [of _ s])
qed

text \<open>A library that keeps lists of types.\<close>

definition list_library :: "((string \<times> string) \<times> string list, ((string \<times> string) \<times> string) list) scheme_library" where
  "list_library = \<lparr>NewScheme = [], NewBuilder = (\<lambda>gv. (gv, [])), Register = (\<lambda>(gv, ts) us. (gv, ts @ us)),
     Builder_AddToScheme = (\<lambda>(gv, ts) s. (s @ map (Pair gv) ts, None)), clientgo_AddToScheme = (\<lambda>s. (s @ [(([], ''v1''), ''Pod'')], None)),
     fastpod_AddToScheme = (\<lambda>s. (s @ [((''fastgshare.caps.in.tum'', ''v1''), ''FaSTPod'')], None))\<rparr>"

lemma list_library_laws:
  "scheme_laws list_library (\<lambda>(gv, ts). (gv, set ts)) set {((''fastgshare.caps.in.tum'', ''v1''), ''FaSTPod'')}"
  by (auto simp: scheme_laws_def list_library_def)

section \<open>Properties\<close>

text \<open>
  C23. The flag \<^verbatim>\<open>--leader-elect\<close>, documented to ensure that only one controller manager is active, changes nothing:
  whatever the other arguments and whatever the libraries answer, the program ends with the same exit code and
  runs its manager with the same options, without leader election.
\<close>

theorem leader_elect_ignored:
  "main_program lib others ans store (''--leader-elect'' # args) = main_program lib others ans store args \<and>
   (\<forall>code options r. main_program lib others ans store args = (code, Some (options, r)) \<longrightarrow> \<not> LeaderElection options)"
proof -
  have "flag_Parse others (''--leader-elect'' # args) default_flags =
      flag_Parse others args (default_flags\<lparr>enableLeaderElection := True\<rparr>)"
    by (simp add: split_arg_def bool_flag_def set_flag_def ParseBool_def)
  moreover have "same_but_leader (flag_Parse others args (default_flags\<lparr>enableLeaderElection := True\<rparr>))
      (flag_Parse others args default_flags)"
    by (rule parse_leader) simp
  ultimately have "same_but_leader (flag_Parse others (''--leader-elect'' # args) default_flags) (flag_Parse others args default_flags)"
    by simp
  then have "main_program lib others ans store (''--leader-elect'' # args) = main_program lib others ans store args"
    by (rule main_leader)
  moreover have "\<not> LeaderElection (manager_options_of opts)" for opts by (simp add: manager_options_of_def Let_def)
  ultimately show ?thesis using started_options by blast
qed

theorem leader_elect_ignored_witness:
  "\<exists>r. main_program list_library (\<lambda>n. None) \<lparr>ans_NewManager = (\<lambda>s opts. True), ans_setup = \<lparr>ans_NewClient = (\<lambda>url. None),
      ans_pods_synced = True, ans_nodes_synced = False, ans_Complete = (\<lambda>s. None)\<rparr>, ans_healthz = True, ans_readyz = True,
      ans_Start = (\<lambda>opts r. True)\<rparr> NewEmptyQPSStore [''--leader-elect''] = (0, Some r) \<and> \<not> LeaderElection (fst r) \<and>
    set_nodesLister (snd r) = None \<and> (GroupVersion, ''FaSTFunc'') \<in> set (set_Scheme (snd r))"
proof -
  let ?ans = "\<lparr>ans_NewManager = (\<lambda>s opts. True), ans_setup = \<lparr>ans_NewClient = (\<lambda>url. None), ans_pods_synced = True,
      ans_nodes_synced = False, ans_Complete = (\<lambda>s. None)\<rparr>, ans_healthz = True, ans_readyz = True, ans_Start = (\<lambda>opts r. True)\<rparr>"
  obtain r where r: "main_program list_library (\<lambda>n. None) ?ans NewEmptyQPSStore [] = (0, Some r)" "set_nodesLister (snd r) = None"
    by (simp add: main_program_def main_init_def AddToScheme_def api_init_def SchemeBuilder_def list_library_def SetupWithManager_def getNodeLister_def Let_def split: prod.split)
  moreover have "(GroupVersion, ''FaSTFunc'') \<in> set (set_Scheme (snd r))"
    using main_registers(1) [OF list_library_laws, of "\<lambda>n. None" ?ans NewEmptyQPSStore "[]" 0 "fst r" "snd r"] r(1) by simp
  ultimately show ?thesis
    using leader_elect_ignored [of list_library "\<lambda>n. None" ?ans NewEmptyQPSStore "[]"] by (cases r) simp
qed

text \<open>
  The controller as it starts: if the set-up gives no error, the state in which \<open>sys_reachable\<close> begins has the node manager
  it has made, which looks for silent nodes every ten seconds.
\<close>

lemma setup_starts:
  assumes "SetupWithManager lib ans store initConfig r = (r', None)"
  shows "set_nodeManager r' = Some (sys_nm (sys_start 5 store cluster t))" "checkTickerItv (sys_nm (sys_start 5 store cluster t)) = 10"
    "acceptor_address r' = Some (NodeListenerAddress initConfig)"
    "set_fastpodLister r' = None \<longleftrightarrow> \<not> ans_pods_synced ans" "set_nodesLister r' = None \<longleftrightarrow> \<not> ans_nodes_synced ans"
  using assms checkTickerItv_New [of 5 store]
  by (auto split: prod.splits simp: SetupWithManager_def sys_start_def getFaSTPodLister_def getNodeLister_def Let_def split: option.splits if_splits)

end
