(* ===== verification/Deep_Copy.thy ===== *)
theory Deep_Copy
  imports Fast_Pods
begin

text \<open>
  The deep copies of the custom resource, from \<^verbatim>\<open>api/v1/zz_generated.deepcopy.go\<close>. Informers hand out pointers into their
  caches; a controller that writes to such an object must copy it first. The theory has a store with
  the arrays behind slices, so that sharing can be seen, and shows that a copy reads the same and shares
  nothing. The \<^verbatim>\<open>DeepCopyInto\<close> of \<^verbatim>\<open>ObjectMeta\<close>, \<^verbatim>\<open>ListMeta\<close>, \<^verbatim>\<open>PodSpec\<close> and \<^verbatim>\<open>Condition\<close> belong to Kubernetes: they
  are arguments, and the locale \<open>deep_copier\<close> is what is assumed of them and shown of ours.
\<close>

section \<open>Memory\<close>

text \<open>
  Memory is a list of blocks, each at its index; allocating appends. A slice is an array with an offset and a
  length; None is the nil slice. A pointer that is only read is given as what it points to.
\<close>

record go_slice =
  slice_arr :: nat
  slice_off :: nat
  slice_len :: nat

record FaSTFuncStatus =
  Conditions :: "go_slice option"

record ('t, 'm, 'p) api_FaSTFunc =
  api_TypeMeta :: 't
  api_ObjectMeta :: 'm
  api_Spec :: "'p FaSTFuncSpec"
  api_Status :: FaSTFuncStatus

record ('t, 'l) FaSTFuncList =
  list_TypeMeta :: 't
  list_ListMeta :: 'l
  list_Items :: "go_slice option"

text \<open>A block is an array, a single object, or memory of the other packages.\<close>

datatype ('t, 'm, 'p, 'l, 'c, 'x) block =
  FuncBlock "('t, 'm, 'p) api_FaSTFunc list"
| CondBlock "'c list"
| ListBlock "('t, 'l) FaSTFuncList"
| SpecBlock "'p FaSTFuncSpec"
| StatusBlock FaSTFuncStatus
| ForeignBlock 'x

fun funcs_in :: "('t, 'm, 'p, 'l, 'c, 'x) block \<Rightarrow> ('t, 'm, 'p) api_FaSTFunc list" where
  "funcs_in (FuncBlock fs) = fs"
| "funcs_in _ = []"

fun conds_in :: "('t, 'm, 'p, 'l, 'c, 'x) block \<Rightarrow> 'c list" where
  "conds_in (CondBlock cs) = cs"
| "conds_in _ = []"

text \<open>\<open>make\<close> fills the new array with zero values; the loop reads, copies and writes one element after the other.\<close>

definition make_slice :: "('a list \<Rightarrow> 'b) \<Rightarrow> 'a \<Rightarrow> 'b list \<Rightarrow> nat \<Rightarrow> 'b list \<times> go_slice" where
  "make_slice block zero mem n =
     (mem @ [block (replicate n zero)], \<lparr>slice_arr = length mem, slice_off = 0, slice_len = n\<rparr>)"

definition slice_get :: "('b \<Rightarrow> 'a list) \<Rightarrow> 'b list \<Rightarrow> go_slice \<Rightarrow> nat \<Rightarrow> 'a" where
  "slice_get elems mem s i = elems (mem ! slice_arr s) ! (slice_off s + i)"

definition slice_set :: "('b \<Rightarrow> 'a list) \<Rightarrow> ('a list \<Rightarrow> 'b) \<Rightarrow> 'b list \<Rightarrow> go_slice \<Rightarrow> nat \<Rightarrow> 'a \<Rightarrow> 'b list" where
  "slice_set elems block mem s i y =
     mem[slice_arr s := block ((elems (mem ! slice_arr s))[slice_off s + i := y])]"

fun copy_loop :: "('b \<Rightarrow> 'a list) \<Rightarrow> ('a list \<Rightarrow> 'b) \<Rightarrow> ('b list \<Rightarrow> 'a \<Rightarrow> 'b list \<times> 'a) \<Rightarrow>
    go_slice \<Rightarrow> go_slice \<Rightarrow> nat \<Rightarrow> nat \<Rightarrow> 'b list \<Rightarrow> 'b list" where
  "copy_loop elems block copy src dst i 0 mem = mem"
| "copy_loop elems block copy src dst i (Suc n) mem =
     (let (mem, y) = copy mem (slice_get elems mem src i)
      in copy_loop elems block copy src dst (Suc i) n (slice_set elems block mem dst i y))"

definition copy_slice :: "('b \<Rightarrow> 'a list) \<Rightarrow> ('a list \<Rightarrow> 'b) \<Rightarrow> 'a \<Rightarrow> ('b list \<Rightarrow> 'a \<Rightarrow> 'b list \<times> 'a) \<Rightarrow>
    'b list \<Rightarrow> go_slice option \<Rightarrow> 'b list \<times> go_slice option" where
  "copy_slice elems block zero copy mem s = (case s of
     None \<Rightarrow> (mem, None)
   | Some src \<Rightarrow> let (mem, dst) = make_slice block zero mem (slice_len src)
       in (copy_loop elems block copy src dst 0 (slice_len src) mem, Some dst))"

section \<open>The copies\<close>

text \<open>What comes from Kubernetes: zero values and the copies of its types.\<close>

record ('t, 'm, 'p, 'l, 'c, 'x) api_libs =
  zero_TypeMeta :: 't
  zero_ObjectMeta :: 'm
  zero_PodSpec :: 'p
  zero_ListMeta :: 'l
  zero_Condition :: 'c
  copy_ObjectMeta :: "('t, 'm, 'p, 'l, 'c, 'x) block list \<Rightarrow> 'm \<Rightarrow> ('t, 'm, 'p, 'l, 'c, 'x) block list \<times> 'm"
  copy_PodSpec :: "('t, 'm, 'p, 'l, 'c, 'x) block list \<Rightarrow> 'p \<Rightarrow> ('t, 'm, 'p, 'l, 'c, 'x) block list \<times> 'p"
  copy_ListMeta :: "('t, 'm, 'p, 'l, 'c, 'x) block list \<Rightarrow> 'l \<Rightarrow> ('t, 'm, 'p, 'l, 'c, 'x) block list \<times> 'l"
  copy_Condition :: "('t, 'm, 'p, 'l, 'c, 'x) block list \<Rightarrow> 'c \<Rightarrow> ('t, 'm, 'p, 'l, 'c, 'x) block list \<times> 'c"

definition zero_FaSTFunc :: "('t, 'm, 'p, 'l, 'c, 'x) api_libs \<Rightarrow> ('t, 'm, 'p) api_FaSTFunc" where
  "zero_FaSTFunc L = \<lparr>api_TypeMeta = zero_TypeMeta L, api_ObjectMeta = zero_ObjectMeta L,
     api_Spec = \<lparr>PodSpec = zero_PodSpec L, MinQps = 0, ModelName = [], spec_AllocationType = []\<rparr>,
     api_Status = \<lparr>Conditions = None\<rparr>\<rparr>"

definition FaSTFuncStatus_DeepCopyInto :: "('t, 'm, 'p, 'l, 'c, 'x) api_libs \<Rightarrow> ('t, 'm, 'p, 'l, 'c, 'x) block list \<Rightarrow>
    FaSTFuncStatus \<Rightarrow> ('t, 'm, 'p, 'l, 'c, 'x) block list \<times> FaSTFuncStatus" where
  "FaSTFuncStatus_DeepCopyInto L mem inp =
     (let out = inp; (mem, cs) = copy_slice conds_in CondBlock (zero_Condition L) (copy_Condition L) mem (Conditions inp)
      in (mem, out\<lparr>Conditions := cs\<rparr>))"

definition FaSTFuncSpec_DeepCopyInto :: "('t, 'm, 'p, 'l, 'c, 'x) api_libs \<Rightarrow> ('t, 'm, 'p, 'l, 'c, 'x) block list \<Rightarrow>
    'p FaSTFuncSpec \<Rightarrow> ('t, 'm, 'p, 'l, 'c, 'x) block list \<times> 'p FaSTFuncSpec" where
  "FaSTFuncSpec_DeepCopyInto L mem inp =
     (let out = inp; (mem, p) = copy_PodSpec L mem (PodSpec inp) in (mem, out\<lparr>PodSpec := p\<rparr>))"

definition FaSTFunc_DeepCopyInto :: "('t, 'm, 'p, 'l, 'c, 'x) api_libs \<Rightarrow> ('t, 'm, 'p, 'l, 'c, 'x) block list \<Rightarrow>
    ('t, 'm, 'p) api_FaSTFunc \<Rightarrow> ('t, 'm, 'p, 'l, 'c, 'x) block list \<times> ('t, 'm, 'p) api_FaSTFunc" where
  "FaSTFunc_DeepCopyInto L mem inp =
     (let out = inp; out = out\<lparr>api_TypeMeta := api_TypeMeta inp\<rparr>;
        (mem, m) = copy_ObjectMeta L mem (api_ObjectMeta inp); out = out\<lparr>api_ObjectMeta := m\<rparr>;
        (mem, sp) = FaSTFuncSpec_DeepCopyInto L mem (api_Spec inp); out = out\<lparr>api_Spec := sp\<rparr>;
        (mem, st) = FaSTFuncStatus_DeepCopyInto L mem (api_Status inp)
      in (mem, out\<lparr>api_Status := st\<rparr>))"

definition FaSTFuncList_DeepCopyInto :: "('t, 'm, 'p, 'l, 'c, 'x) api_libs \<Rightarrow> ('t, 'm, 'p, 'l, 'c, 'x) block list \<Rightarrow>
    ('t, 'l) FaSTFuncList \<Rightarrow> ('t, 'm, 'p, 'l, 'c, 'x) block list \<times> ('t, 'l) FaSTFuncList" where
  "FaSTFuncList_DeepCopyInto L mem inp =
     (let out = inp; out = out\<lparr>list_TypeMeta := list_TypeMeta inp\<rparr>;
        (mem, l) = copy_ListMeta L mem (list_ListMeta inp); out = out\<lparr>list_ListMeta := l\<rparr>;
        (mem, fs) = copy_slice funcs_in FuncBlock (zero_FaSTFunc L) (FaSTFunc_DeepCopyInto L) mem (list_Items inp)
      in (mem, out\<lparr>list_Items := fs\<rparr>))"

text \<open>\<^verbatim>\<open>DeepCopy\<close> allocates the copy; a nil pointer gives a nil pointer.\<close>

definition alloc_copy :: "('a \<Rightarrow> 'b) \<Rightarrow> 'b \<Rightarrow> ('b list \<Rightarrow> 'a \<Rightarrow> 'b list \<times> 'a) \<Rightarrow> 'b list \<Rightarrow> 'a option \<Rightarrow> 'b list \<times> nat option" where
  "alloc_copy block zero copy mem inp = (case inp of
     None \<Rightarrow> (mem, None)
   | Some v \<Rightarrow> let out = length mem; (mem, w) = copy (mem @ [zero]) v in (mem[out := block w], Some out))"

definition FaSTFunc_DeepCopy :: "('t, 'm, 'p, 'l, 'c, 'x) api_libs \<Rightarrow> ('t, 'm, 'p, 'l, 'c, 'x) block list \<Rightarrow>
    ('t, 'm, 'p) api_FaSTFunc option \<Rightarrow> ('t, 'm, 'p, 'l, 'c, 'x) block list \<times> nat option" where
  "FaSTFunc_DeepCopy L = alloc_copy (\<lambda>f. FuncBlock [f]) (FuncBlock [zero_FaSTFunc L]) (FaSTFunc_DeepCopyInto L)"

definition FaSTFuncSpec_DeepCopy :: "('t, 'm, 'p, 'l, 'c, 'x) api_libs \<Rightarrow> ('t, 'm, 'p, 'l, 'c, 'x) block list \<Rightarrow>
    'p FaSTFuncSpec option \<Rightarrow> ('t, 'm, 'p, 'l, 'c, 'x) block list \<times> nat option" where
  "FaSTFuncSpec_DeepCopy L = alloc_copy SpecBlock (SpecBlock (api_Spec (zero_FaSTFunc L))) (FaSTFuncSpec_DeepCopyInto L)"

definition FaSTFuncStatus_DeepCopy :: "('t, 'm, 'p, 'l, 'c, 'x) api_libs \<Rightarrow> ('t, 'm, 'p, 'l, 'c, 'x) block list \<Rightarrow>
    FaSTFuncStatus option \<Rightarrow> ('t, 'm, 'p, 'l, 'c, 'x) block list \<times> nat option" where
  "FaSTFuncStatus_DeepCopy L = alloc_copy StatusBlock (StatusBlock \<lparr>Conditions = None\<rparr>) (FaSTFuncStatus_DeepCopyInto L)"

definition FaSTFuncList_DeepCopy :: "('t, 'm, 'p, 'l, 'c, 'x) api_libs \<Rightarrow> ('t, 'm, 'p, 'l, 'c, 'x) block list \<Rightarrow>
    ('t, 'l) FaSTFuncList option \<Rightarrow> ('t, 'm, 'p, 'l, 'c, 'x) block list \<times> nat option" where
  "FaSTFuncList_DeepCopy L = alloc_copy ListBlock
     (ListBlock \<lparr>list_TypeMeta = zero_TypeMeta L, list_ListMeta = zero_ListMeta L, list_Items = None\<rparr>) (FaSTFuncList_DeepCopyInto L)"

text \<open>
  A \<^verbatim>\<open>runtime.Object\<close> is an interface: a nil interface, or a pointer with its type. A nil pointer with a type is not the
  nil interface, so \<^verbatim>\<open>DeepCopyObject\<close> tests for it.
\<close>

datatype runtime_object = FaSTFuncObject "nat option" | FaSTFuncListObject "nat option"

definition FaSTFunc_DeepCopyObject :: "('t, 'm, 'p, 'l, 'c, 'x) api_libs \<Rightarrow> ('t, 'm, 'p, 'l, 'c, 'x) block list \<Rightarrow>
    ('t, 'm, 'p) api_FaSTFunc option \<Rightarrow> ('t, 'm, 'p, 'l, 'c, 'x) block list \<times> runtime_object option" where
  "FaSTFunc_DeepCopyObject L mem inp = (let (mem, c) = FaSTFunc_DeepCopy L mem inp
     in if c \<noteq> None then (mem, Some (FaSTFuncObject c)) else (mem, None))"

definition FaSTFuncList_DeepCopyObject :: "('t, 'm, 'p, 'l, 'c, 'x) api_libs \<Rightarrow> ('t, 'm, 'p, 'l, 'c, 'x) block list \<Rightarrow>
    ('t, 'l) FaSTFuncList option \<Rightarrow> ('t, 'm, 'p, 'l, 'c, 'x) block list \<times> runtime_object option" where
  "FaSTFuncList_DeepCopyObject L mem inp = (let (mem, c) = FaSTFuncList_DeepCopy L mem inp
     in if c \<noteq> None then (mem, Some (FaSTFuncListObject c)) else (mem, None))"

section \<open>The contract of a deep copy\<close>

text \<open>
  How a value is read: whether its pointers are sound, which blocks it reaches, and what is seen through it.
\<close>

record ('b, 'a, 'v) reader =
  sound :: "'b list \<Rightarrow> 'a \<Rightarrow> bool"
  reach :: "'b list \<Rightarrow> 'a \<Rightarrow> nat set"
  view :: "'b list \<Rightarrow> 'a \<Rightarrow> 'v"

definition same_on :: "nat set \<Rightarrow> 'b list \<Rightarrow> 'b list \<Rightarrow> bool" where
  "same_on A mem mem' \<longleftrightarrow> (\<forall>a \<in> A. a < length mem' \<and> mem' ! a = mem ! a)"

text \<open>
  The laws: reading depends on the reached blocks only; a copy leaves what is there, reads the same, and reaches
  only new blocks.
\<close>

locale deep_copier =
  fixes copy :: "'b list \<Rightarrow> 'a \<Rightarrow> 'b list \<times> 'a" and R :: "('b, 'a, 'v) reader"
  assumes reach_bound: "sound R mem x \<Longrightarrow> reach R mem x \<subseteq> {..<length mem}"
    and reads_reached: "sound R mem x \<Longrightarrow> same_on (reach R mem x) mem mem' \<Longrightarrow>
      sound R mem' x \<and> reach R mem' x = reach R mem x \<and> view R mem' x = view R mem x"
    and copies: "sound R mem x \<Longrightarrow> copy mem x = (mem', y) \<Longrightarrow>
      length mem \<le> length mem' \<and> same_on {..<length mem} mem mem' \<and>
      sound R mem' y \<and> reach R mem' y \<subseteq> {length mem..<length mem'} \<and> view R mem' y = view R mem x"
begin

text \<open>Writing to the copy does not show in the original, nor the other way round.\<close>

lemma independent:
  assumes "sound R mem x" "copy mem x = (mem', y)"
  shows "same_on {..<length mem} mem m \<Longrightarrow> view R m x = view R mem x"
    "same_on {length mem..<length mem'} mem' m \<Longrightarrow> view R m y = view R mem x"
proof -
  show "view R m x = view R mem x" if "same_on {..<length mem} mem m"
  proof -
    have "same_on (reach R mem x) mem m" using that reach_bound [OF assms(1)] by (auto simp: same_on_def)
    then show ?thesis using reads_reached [OF assms(1)] by simp
  qed
  note c = copies [OF assms]
  show "view R m y = view R mem x" if "same_on {length mem..<length mem'} mem' m"
  proof -
    have "same_on (reach R mem' y) mem' m" using that c by (auto simp: same_on_def)
    then show ?thesis using reads_reached [of mem' y m] c by simp
  qed
qed

lemma stays:
  assumes "sound R mem x" "same_on {..<length mem} mem mem'"
  shows "sound R mem' x" "reach R mem' x = reach R mem x" "view R mem' x = view R mem x"
proof -
  have "same_on (reach R mem x) mem mem'" using assms(2) reach_bound [OF assms(1)] by (auto simp: same_on_def)
  then show "sound R mem' x" "reach R mem' x = reach R mem x" "view R mem' x = view R mem x"
    using reads_reached [OF assms(1)] by simp_all
qed

end

lemma deep_copierD:
  assumes "deep_copier copy R" "sound R mem x" "copy mem x = (mem', y)"
  shows "length mem \<le> length mem'" "same_on {..<length mem} mem mem'" "sound R mem' y"
    "reach R mem' y \<subseteq> {length mem..<length mem'}" "view R mem' y = view R mem x"
  using deep_copier.copies [OF assms] by simp_all

lemma same_on_trans: "same_on A mem mem' \<Longrightarrow> same_on A mem' mem'' \<Longrightarrow> same_on A mem mem''"
  by (simp add: same_on_def)

lemma same_on_mono: "same_on A mem mem' \<Longrightarrow> B \<subseteq> A \<Longrightarrow> same_on B mem mem'"
  by (auto simp: same_on_def)

lemma same_on_append: "same_on {..<length mem} mem (mem @ xs)"
  by (simp add: same_on_def nth_append)

lemma same_on_update: "a \<notin> A \<Longrightarrow> same_on A mem mem' \<Longrightarrow> same_on A mem (mem'[a := b])"
  unfolding same_on_def by (metis length_list_update nth_list_update_neq)

section \<open>Copies of structs\<close>

text \<open>A value without pointers is copied by assignment.\<close>

definition plain_reader :: "('b, 'a, 'a) reader" where
  "plain_reader = \<lparr>sound = (\<lambda>mem x. True), reach = (\<lambda>mem x. {}), view = (\<lambda>mem x. x)\<rparr>"

interpretation plain: deep_copier "\<lambda>mem x. (mem, x)" plain_reader
  by unfold_locales (auto simp: plain_reader_def same_on_def)

text \<open>A struct of which one part is copied deeply and the rest assigned, and two parts one after the other.\<close>

definition part_reader :: "('r \<Rightarrow> 'a) \<Rightarrow> ('r \<Rightarrow> 'w) \<Rightarrow> ('b, 'a, 'v) reader \<Rightarrow> ('b, 'r, 'w \<times> 'v) reader" where
  "part_reader part rest R = \<lparr>sound = (\<lambda>mem r. sound R mem (part r)), reach = (\<lambda>mem r. reach R mem (part r)),
     view = (\<lambda>mem r. (rest r, view R mem (part r)))\<rparr>"

definition both_reader :: "('b, 'a, 'v) reader \<Rightarrow> ('b, 'c, 'w) reader \<Rightarrow> ('b, 'a \<times> 'c, 'v \<times> 'w) reader" where
  "both_reader R S = \<lparr>sound = (\<lambda>mem (x, y). sound R mem x \<and> sound S mem y), reach = (\<lambda>mem (x, y). reach R mem x \<union> reach S mem y),
     view = (\<lambda>mem (x, y). (view R mem x, view S mem y))\<rparr>"

lemma deep_copier_part:
  assumes R: "deep_copier copy R" and put: "\<And>r a. part (put r a) = a" "\<And>r a. rest (put r a) = rest r"
  shows "deep_copier (\<lambda>mem r. case copy mem (part r) of (mem, a) \<Rightarrow> (mem, put r a)) (part_reader part rest R)"
proof (unfold_locales, goal_cases)
  case (1 mem r)
  then show ?case using deep_copier.reach_bound [OF R] by (simp add: part_reader_def)
next
  case (2 mem r mem')
  then show ?case using deep_copier.reads_reached [OF R, of mem "part r" mem'] by (simp add: part_reader_def)
next
  case (3 mem r mem' r')
  then obtain a where c: "copy mem (part r) = (mem', a)" "r' = put r a" by (auto split: prod.splits)
  then show ?case using deep_copierD [OF R _ c(1)] 3 by (simp add: part_reader_def put)
qed

lemma deep_copier_both:
  assumes R: "deep_copier copyR R" and S: "deep_copier copyS S"
  shows "deep_copier (\<lambda>mem (x, y). case copyR mem x of (mem, x) \<Rightarrow> case copyS mem y of (mem, y) \<Rightarrow> (mem, (x, y))) (both_reader R S)"
proof (unfold_locales, goal_cases)
  case (1 mem z)
  then show ?case
    using deep_copier.reach_bound [OF R, of mem "fst z"] deep_copier.reach_bound [OF S, of mem "snd z"]
    by (cases z) (simp add: both_reader_def)
next
  case (2 mem z mem')
  obtain x y where z: "z = (x, y)" by force
  have "same_on (reach R mem x) mem mem'" "same_on (reach S mem y) mem mem'" "sound R mem x" "sound S mem y"
    using 2 by (auto simp: z both_reader_def same_on_def)
  then show ?case
    using deep_copier.reads_reached [OF R, of mem x mem'] deep_copier.reads_reached [OF S, of mem y mem']
    by (simp add: z both_reader_def)
next
  case (3 mem z mem' z')
  obtain x y where z: "z = (x, y)" by force
  have so: "sound R mem x" "sound S mem y" using 3 by (simp_all add: z both_reader_def)
  obtain mem1 x' y' where c: "copyR mem x = (mem1, x')" "copyS mem1 y = (mem', y')" and z': "z' = (x', y')"
    using 3 by (auto simp: z split: prod.splits)
  note r = deep_copierD [OF R so(1) c(1)]
  note y = deep_copier.stays [OF S so(2) r(2)]
  note s = deep_copierD [OF S y(1) c(2)]
  note x = deep_copier.stays [OF R r(3) s(2)]
  have "same_on {..<length mem} mem mem'" using r(1,2) s(2) by (meson lessThan_subset_iff same_on_mono same_on_trans)
  then show ?case using r s x y by (fastforce simp: z z' both_reader_def)
qed

section \<open>Copies of slices\<close>

definition slice_elems :: "('b \<Rightarrow> 'a list) \<Rightarrow> 'b list \<Rightarrow> go_slice \<Rightarrow> 'a list" where
  "slice_elems elems mem s = map (slice_get elems mem s) [0..<slice_len s]"

text \<open>A sound slice lies within an array of its kind, and its elements are sound.\<close>

definition slice_reader :: "('b \<Rightarrow> 'a list) \<Rightarrow> ('a list \<Rightarrow> 'b) \<Rightarrow> ('b, 'a, 'v) reader \<Rightarrow> ('b, go_slice option, 'v list option) reader" where
  "slice_reader elems block R = \<lparr>
     sound = (\<lambda>mem s. case s of None \<Rightarrow> True | Some s \<Rightarrow> slice_arr s < length mem \<and>
       slice_off s + slice_len s \<le> length (elems (mem ! slice_arr s)) \<and> list_all (sound R mem) (slice_elems elems mem s)),
     reach = (\<lambda>mem s. case s of None \<Rightarrow> {} | Some s \<Rightarrow> insert (slice_arr s) (\<Union> (reach R mem ` set (slice_elems elems mem s)))),
     view = (\<lambda>mem s. map_option (\<lambda>s. map (view R mem) (slice_elems elems mem s)) s)\<rparr>"

lemma slice_elems_same: "mem' ! slice_arr s = mem ! slice_arr s \<Longrightarrow> slice_elems elems mem' s = slice_elems elems mem s"
  by (simp add: slice_elems_def slice_get_def)

text \<open>The loop: the array in front of the new blocks holds copies up to the index reached.\<close>

definition copied_to :: "('b, 'a, 'v) reader \<Rightarrow> ('a list \<Rightarrow> 'b) \<Rightarrow> 'b list \<Rightarrow> 'v list \<Rightarrow> nat \<Rightarrow> nat \<Rightarrow> 'b list \<Rightarrow> bool" where
  "copied_to R block mem vs i n mem' \<longleftrightarrow> length mem < length mem' \<and> same_on {..<length mem} mem mem' \<and>
     (\<exists>ys. mem' ! length mem = block ys \<and> length ys = n \<and>
       (\<forall>j < i. sound R mem' (ys ! j) \<and> reach R mem' (ys ! j) \<subseteq> {Suc (length mem)..<length mem'} \<and> view R mem' (ys ! j) = vs ! j))"

lemma copied_to_step:
  assumes R: "deep_copier copy R" and elems: "\<And>xs. elems (block xs) = xs"
    and inv: "copied_to R block mem vs i n mem1" and x: "sound R mem x" "view R mem x = vs ! i" and i: "i < n"
    and c: "copy mem1 x = (mem2, y)"
  shows "copied_to R block mem vs (Suc i) n (slice_set elems block mem2 \<lparr>slice_arr = length mem, slice_off = 0, slice_len = n\<rparr> i y)"
    (is "copied_to _ _ _ _ _ _ ?mem3")
proof -
  obtain ys where ys: "length mem < length mem1" "same_on {..<length mem} mem mem1" "mem1 ! length mem = block ys" "length ys = n"
    "\<And>j. j < i \<Longrightarrow> sound R mem1 (ys ! j) \<and> reach R mem1 (ys ! j) \<subseteq> {Suc (length mem)..<length mem1} \<and> view R mem1 (ys ! j) = vs ! j"
    using inv by (auto simp: copied_to_def)
  note x1 = deep_copier.stays [OF R x(1) ys(2)]
  note d = deep_copierD [OF R x1(1) c]
  have m2: "mem2 ! length mem = block ys" "length mem < length mem2" using d(1,2) ys(1,3) by (simp_all add: same_on_def)
  have m3: "?mem3 = mem2[length mem := block (ys[i := y])]" by (simp add: slice_set_def m2 elems)
  have keep: "sound R ?mem3 z \<and> reach R ?mem3 z = reach R mem2 z \<and> view R ?mem3 z = view R mem2 z"
    if "sound R mem2 z" "reach R mem2 z \<subseteq> {Suc (length mem)..<length mem2}" for z
  proof -
    have "same_on (reach R mem2 z) mem2 ?mem3" unfolding m3 using that(2) by (intro same_on_update) (auto simp: same_on_def)
    then show ?thesis using deep_copier.reads_reached [OF R that(1), of ?mem3] by simp
  qed
  have old: "sound R mem2 (ys ! j) \<and> reach R mem2 (ys ! j) = reach R mem1 (ys ! j) \<and> view R mem2 (ys ! j) = vs ! j" if "j < i" for j
    using deep_copier.stays [OF R _ d(2), of "ys ! j"] ys(5) [OF that] by simp
  have "same_on {..<length mem} mem mem2" using same_on_trans [OF ys(2)] same_on_mono [OF d(2)] ys(1) by auto
  then have "same_on {..<length mem} mem ?mem3" unfolding m3 by (intro same_on_update) simp
  moreover have "sound R ?mem3 (ys[i := y] ! j) \<and> reach R ?mem3 (ys[i := y] ! j) \<subseteq> {Suc (length mem)..<length ?mem3} \<and>
      view R ?mem3 (ys[i := y] ! j) = vs ! j" if "j < Suc i" for j
  proof (cases "j = i")
    case True
    have "reach R mem2 y \<subseteq> {Suc (length mem)..<length mem2}" using d(4) ys(1) by auto
    then show ?thesis using keep [OF d(3)] d(5) x1(3) x(2) True i ys(4) m3 by simp
  next
    case False
    have r: "reach R mem2 (ys ! j) \<subseteq> {Suc (length mem)..<length mem2}"
      using old [of j] ys(5) [of j] d(1) that False by fastforce
    then show ?thesis using keep [OF _ r] old [of j] that False m3 by simp
  qed
  ultimately show ?thesis using m2(2) m3 ys(4) by (auto simp: copied_to_def intro!: exI [of _ "ys[i := y]"])
qed

lemma copied_to_loop:
  assumes R: "deep_copier copy R" and elems: "\<And>xs. elems (block xs) = xs"
    and src: "sound (slice_reader elems block R) mem (Some src)"
  shows "copied_to R block mem (map (view R mem) (slice_elems elems mem src)) i (slice_len src) mem1 \<Longrightarrow> i + n = slice_len src \<Longrightarrow>
    copied_to R block mem (map (view R mem) (slice_elems elems mem src)) (slice_len src) (slice_len src)
      (copy_loop elems block copy src \<lparr>slice_arr = length mem, slice_off = 0, slice_len = slice_len src\<rparr> i n mem1)"
proof (induction n arbitrary: i mem1)
  case (Suc n)
  let ?x = "slice_get elems mem src i"
  have "slice_arr src < length mem" using src by (simp add: slice_reader_def)
  then have get: "slice_get elems mem1 src i = ?x" using Suc.prems(1) by (simp add: copied_to_def same_on_def slice_get_def)
  obtain mem2 y where c: "copy mem1 ?x = (mem2, y)" by force
  have x: "sound R mem ?x" "view R mem ?x = map (view R mem) (slice_elems elems mem src) ! i"
    using src Suc.prems(2) by (auto simp: slice_reader_def slice_elems_def list_all_length)
  note s = copied_to_step [OF R elems Suc.prems(1) x _ c]
  show ?case using Suc.IH [OF s] Suc.prems(2) by (simp add: get c)
qed simp

lemma deep_copier_slice:
  assumes R: "deep_copier copy R" and elems: "\<And>xs. elems (block xs) = xs"
  shows "deep_copier (copy_slice elems block zero copy) (slice_reader elems block R)"
proof (unfold_locales, goal_cases)
  case (1 mem s)
  then show ?case using deep_copier.reach_bound [OF R] by (fastforce simp: slice_reader_def list_all_iff split: option.splits)
next
  case (2 mem s mem')
  show ?case
  proof (cases s)
    case None
    then show ?thesis by (simp add: slice_reader_def)
  next
    case (Some t)
    have a: "slice_arr t < length mem'" "mem' ! slice_arr t = mem ! slice_arr t" using 2 Some by (simp_all add: slice_reader_def same_on_def)
    have x: "sound R mem' x \<and> reach R mem' x = reach R mem x \<and> view R mem' x = view R mem x" if "x \<in> set (slice_elems elems mem t)" for x
    proof -
      have "sound R mem x" using 2 Some that by (simp add: slice_reader_def list_all_iff)
      moreover have "same_on (reach R mem x) mem mem'" using 2 Some that by (auto simp: slice_reader_def same_on_def)
      ultimately show ?thesis using deep_copier.reads_reached [OF R, of mem x mem'] by simp
    qed
    then show ?thesis using 2 Some a slice_elems_same [OF a(2), of elems] by (simp add: slice_reader_def list_all_iff)
  qed
next
  case (3 mem s mem' s')
  show ?case
  proof (cases s)
    case None
    then show ?thesis using 3 by (auto simp: copy_slice_def slice_reader_def same_on_def)
  next
    case (Some t)
    let ?vs = "map (view R mem) (slice_elems elems mem t)"
    let ?dst = "\<lparr>slice_arr = length mem, slice_off = 0, slice_len = slice_len t\<rparr>"
    let ?mem1 = "mem @ [block (replicate (slice_len t) zero)]"
    have "copied_to R block mem ?vs 0 (slice_len t) ?mem1" 
      using same_on_append [of mem] by (auto simp: copied_to_def intro!: exI [of _ "replicate (slice_len t) zero"])
    then have "copied_to R block mem ?vs (slice_len t) (slice_len t) (copy_loop elems block copy t ?dst 0 (slice_len t) ?mem1)"
      using copied_to_loop [OF R elems] 3(1) Some by simp
    moreover have e: "mem' = copy_loop elems block copy t ?dst 0 (slice_len t) ?mem1" "s' = Some ?dst"
      using 3(2) Some by (simp_all add: copy_slice_def make_slice_def)
    ultimately obtain ys where ys: "length mem < length mem'" "same_on {..<length mem} mem mem'" "mem' ! length mem = block ys"
      "length ys = slice_len t"
      "\<And>j. j < slice_len t \<Longrightarrow> sound R mem' (ys ! j) \<and> reach R mem' (ys ! j) \<subseteq> {Suc (length mem)..<length mem'} \<and> view R mem' (ys ! j) = ?vs ! j"
      by (auto simp: copied_to_def)
    have el: "slice_elems elems mem' ?dst = ys"
      by (intro nth_equalityI) (simp_all add: slice_elems_def slice_get_def ys(3,4) elems)
    have "map (view R mem') ys = ?vs"
      using ys(4,5) by (intro nth_equalityI) (simp_all add: slice_elems_def)
    moreover have "list_all (sound R mem') ys" using ys(4,5) by (simp add: list_all_length)
    moreover have "reach R mem' y \<subseteq> {length mem..<length mem'}" if "y \<in> set ys" for y
      using that ys(4,5) by (fastforce simp: in_set_conv_nth)
    ultimately show ?thesis
      using ys(1-4) Some e(2) el by (auto simp: slice_reader_def elems)
  qed
qed

text \<open>A slice of values without pointers.\<close>

interpretation plain_slice: deep_copier "copy_slice conds_in CondBlock zero (\<lambda>mem x. (mem, x))"
    "slice_reader conds_in CondBlock plain_reader" for zero
  by (rule deep_copier_slice [OF plain.deep_copier_axioms]) simp

section \<open>The copies of the custom resource\<close>

definition status_reader where
  "status_reader RC = part_reader Conditions (\<lambda>st. ()) (slice_reader conds_in CondBlock RC)"

definition spec_reader where
  "spec_reader RP = part_reader PodSpec (\<lambda>sp. (MinQps sp, ModelName sp, spec_AllocationType sp)) RP"

definition func_reader where
  "func_reader RM RP RC = part_reader (\<lambda>f. (api_ObjectMeta f, (api_Spec f, api_Status f))) api_TypeMeta
     (both_reader RM (both_reader (spec_reader RP) (status_reader RC)))"

definition list_reader where
  "list_reader RL RM RP RC = part_reader (\<lambda>l. (list_ListMeta l, list_Items l)) list_TypeMeta
     (both_reader RL (slice_reader funcs_in FuncBlock (func_reader RM RP RC)))"

lemma deep_copier_status:
  assumes "deep_copier (copy_Condition L) RC" shows "deep_copier (FaSTFuncStatus_DeepCopyInto L) (status_reader RC)"
proof -
  have "FaSTFuncStatus_DeepCopyInto L = (\<lambda>mem r. case copy_slice conds_in CondBlock (zero_Condition L) (copy_Condition L) mem (Conditions r) of
      (mem, a) \<Rightarrow> (mem, r\<lparr>Conditions := a\<rparr>))"
    by (simp add: fun_eq_iff FaSTFuncStatus_DeepCopyInto_def)
  then show ?thesis unfolding status_reader_def by (simp only:) (intro deep_copier_part deep_copier_slice assms; simp)
qed

lemma deep_copier_spec:
  assumes "deep_copier (copy_PodSpec L) RP" shows "deep_copier (FaSTFuncSpec_DeepCopyInto L) (spec_reader RP)"
proof -
  have "FaSTFuncSpec_DeepCopyInto L = (\<lambda>mem r. case copy_PodSpec L mem (PodSpec r) of (mem, a) \<Rightarrow> (mem, r\<lparr>PodSpec := a\<rparr>))"
    by (simp add: fun_eq_iff FaSTFuncSpec_DeepCopyInto_def)
  then show ?thesis unfolding spec_reader_def by (simp only:) (intro deep_copier_part assms; simp)
qed

lemma deep_copier_func:
  assumes "deep_copier (copy_ObjectMeta L) RM" "deep_copier (copy_PodSpec L) RP" "deep_copier (copy_Condition L) RC"
  shows "deep_copier (FaSTFunc_DeepCopyInto L) (func_reader RM RP RC)"
proof -
  let ?specs = "\<lambda>mem (x, y). case FaSTFuncSpec_DeepCopyInto L mem x of (mem, x) \<Rightarrow>
      case FaSTFuncStatus_DeepCopyInto L mem y of (mem, y) \<Rightarrow> (mem, (x, y))"
  let ?parts = "\<lambda>mem (x, y). case copy_ObjectMeta L mem x of (mem, x) \<Rightarrow> case ?specs mem y of (mem, y) \<Rightarrow> (mem, (x, y))"
  have "FaSTFunc_DeepCopyInto L = (\<lambda>mem r. case ?parts mem (api_ObjectMeta r, (api_Spec r, api_Status r)) of
      (mem, a) \<Rightarrow> (mem, r\<lparr>api_ObjectMeta := fst a, api_Spec := fst (snd a), api_Status := snd (snd a)\<rparr>))"
    by (auto simp: fun_eq_iff FaSTFunc_DeepCopyInto_def Let_def split: prod.splits)
  moreover have "deep_copier ?parts (both_reader RM (both_reader (spec_reader RP) (status_reader RC)))"
    by (intro deep_copier_both deep_copier_spec deep_copier_status assms)
  ultimately show ?thesis unfolding func_reader_def by (simp only:) (erule deep_copier_part; simp)
qed

lemma deep_copier_list:
  assumes "deep_copier (copy_ListMeta L) RL" "deep_copier (copy_ObjectMeta L) RM" "deep_copier (copy_PodSpec L) RP"
    "deep_copier (copy_Condition L) RC"
  shows "deep_copier (FaSTFuncList_DeepCopyInto L) (list_reader RL RM RP RC)"
proof -
  let ?items = "copy_slice funcs_in FuncBlock (zero_FaSTFunc L) (FaSTFunc_DeepCopyInto L)"
  let ?parts = "\<lambda>mem (x, y). case copy_ListMeta L mem x of (mem, x) \<Rightarrow> case ?items mem y of (mem, y) \<Rightarrow> (mem, (x, y))"
  have "FaSTFuncList_DeepCopyInto L = (\<lambda>mem r. case ?parts mem (list_ListMeta r, list_Items r) of
      (mem, a) \<Rightarrow> (mem, r\<lparr>list_ListMeta := fst a, list_Items := snd a\<rparr>))"
    by (auto simp: fun_eq_iff FaSTFuncList_DeepCopyInto_def Let_def split: prod.splits)
  moreover have "deep_copier ?parts (both_reader RL (slice_reader funcs_in FuncBlock (func_reader RM RP RC)))"
    by (intro deep_copier_both deep_copier_slice deep_copier_func assms) simp
  ultimately show ?thesis unfolding list_reader_def by (simp only:) (erule deep_copier_part; simp)
qed

text \<open>The new object, in the block that \<^verbatim>\<open>new\<close> allocates.\<close>

lemma alloc_copy_spec:
  assumes R: "deep_copier copy R" and v: "sound R mem v" and c: "alloc_copy block zero copy mem (Some v) = (mem', r)"
  obtains w where "r = Some (length mem)" "length mem < length mem'" "mem' ! length mem = block w" "same_on {..<length mem} mem mem'"
    "sound R mem' w" "reach R mem' w \<subseteq> {Suc (length mem)..<length mem'}" "view R mem' w = view R mem v"
proof -
  note x = deep_copier.stays [OF R v same_on_append, of "[zero]"]
  obtain mem2 w where w: "copy (mem @ [zero]) v = (mem2, w)" "mem' = mem2[length mem := block w]" "r = Some (length mem)"
    using c by (auto simp: alloc_copy_def Let_def split: prod.splits)
  note d = deep_copierD [OF R x(1) w(1)]
  have "same_on {..<length mem} mem mem2" using d(2) by (simp add: same_on_def nth_append)
  then have "same_on {..<length mem} mem mem'" unfolding w by (intro same_on_update) simp
  moreover have "same_on (reach R mem2 w) mem2 mem'" unfolding w(2) using d(4) by (intro same_on_update) (auto simp: same_on_def)
  note k = deep_copier.reads_reached [OF R d(3) this]
  moreover have "length mem < length mem2" using d(1) by simp
  ultimately show ?thesis using that [of w] w d(4,5) x(3) by simp
qed

section \<open>Property\<close>

text \<open>
  C31. \<open>DeepCopyObject\<close> of a list of functions: nil gives the nil interface, never a nil pointer with a type; otherwise the
  copy is a new list that reads the same as the original and shares nothing with it: whatever is written
  to memory that existed before leaves what the copy reads, whatever is written to memory that the copy
  has allocated leaves what the original reads, and the copy itself writes to no memory that existed. Assumed is
  that the copies of Kubernetes' own types are deep copies.
\<close>

theorem DeepCopyObject_independent:
  assumes "deep_copier (copy_ListMeta L) RL" "deep_copier (copy_ObjectMeta L) RM" "deep_copier (copy_PodSpec L) RP"
    "deep_copier (copy_Condition L) RC"
  defines "R \<equiv> list_reader RL RM RP RC"
  assumes "sound R mem l"
  shows "FaSTFuncList_DeepCopyObject L mem None = (mem, None) \<and>
    (\<exists>mem' l'. FaSTFuncList_DeepCopyObject L mem (Some l) = (mem', Some (FaSTFuncListObject (Some (length mem)))) \<and>
      mem' ! length mem = ListBlock l' \<and> view R mem' l' = view R mem l \<and> (\<forall>a < length mem. mem' ! a = mem ! a) \<and>
      (\<forall>m. same_on {length mem..<length mem'} mem' m \<longrightarrow> view R m l' = view R mem l) \<and>
      (\<forall>m. same_on {..<length mem} mem m \<longrightarrow> view R m l = view R mem l))"
proof
  show "FaSTFuncList_DeepCopyObject L mem None = (mem, None)"
    by (simp add: FaSTFuncList_DeepCopyObject_def FaSTFuncList_DeepCopy_def alloc_copy_def)
  have D: "deep_copier (FaSTFuncList_DeepCopyInto L) R" unfolding R_def by (rule deep_copier_list [OF assms(1-4)])
  obtain mem' r where c: "FaSTFuncList_DeepCopy L mem (Some l) = (mem', r)" by force
  obtain l' where l': "r = Some (length mem)" "mem' ! length mem = ListBlock l'" "same_on {..<length mem} mem mem'"
    "sound R mem' l'" "reach R mem' l' \<subseteq> {Suc (length mem)..<length mem'}" "view R mem' l' = view R mem l"
    using alloc_copy_spec [OF D assms(6) c [unfolded FaSTFuncList_DeepCopy_def]] by metis
  have new: "view R m l' = view R mem l" if "same_on {length mem..<length mem'} mem' m" for m
  proof -
    have "same_on (reach R mem' l') mem' m" using that l'(5) by (auto simp: same_on_def)
    then show ?thesis using deep_copier.reads_reached [OF D l'(4), of m] l'(6) by simp
  qed
  have old: "view R m l = view R mem l" if "same_on {..<length mem} mem m" for m
    by (rule deep_copier.stays(3) [OF D assms(6) that])
  have "FaSTFuncList_DeepCopyObject L mem (Some l) = (mem', Some (FaSTFuncListObject (Some (length mem))))"
    by (simp add: FaSTFuncList_DeepCopyObject_def c l'(1))
  moreover have "\<forall>a < length mem. mem' ! a = mem ! a" using l'(3) by (simp add: same_on_def)
  ultimately show "\<exists>mem' l'. FaSTFuncList_DeepCopyObject L mem (Some l) = (mem', Some (FaSTFuncListObject (Some (length mem)))) \<and>
      mem' ! length mem = ListBlock l' \<and> view R mem' l' = view R mem l \<and> (\<forall>a < length mem. mem' ! a = mem ! a) \<and>
      (\<forall>m. same_on {length mem..<length mem'} mem' m \<longrightarrow> view R m l' = view R mem l) \<and>
      (\<forall>m. same_on {..<length mem} mem m \<longrightarrow> view R m l = view R mem l)"
    using l'(2,6) new old by blast
qed

text \<open>
  Labels are a map, that is a pointer to a block of another package; a pod specification is one string. One function
  with one condition is copied to the blocks 3 and later.
\<close>

definition copy_map :: "('t, 'm, 'p, 'l, 'c, 'x) block list \<Rightarrow> nat \<Rightarrow> ('t, 'm, 'p, 'l, 'c, 'x) block list \<times> nat" where
  "copy_map mem a = (mem @ [mem ! a], length mem)"

definition map_reader :: "(('t, 'm, 'p, 'l, 'c, 'x) block, nat, ('t, 'm, 'p, 'l, 'c, 'x) block) reader" where
  "map_reader = \<lparr>sound = (\<lambda>mem a. a < length mem), reach = (\<lambda>mem a. {a}), view = (\<lambda>mem a. mem ! a)\<rparr>"

interpretation go_map: deep_copier copy_map map_reader
  by unfold_locales (auto simp: copy_map_def map_reader_def same_on_def nth_append)

definition example_libs :: "(string, nat, string, unit, string, (string, string) fmap) api_libs" where
  "example_libs = \<lparr>zero_TypeMeta = [], zero_ObjectMeta = 0, zero_PodSpec = [], zero_ListMeta = (), zero_Condition = [],
     copy_ObjectMeta = copy_map, copy_PodSpec = (\<lambda>mem p. (mem, p)), copy_ListMeta = (\<lambda>mem l. (mem, l)),
     copy_Condition = (\<lambda>mem c. (mem, c))\<rparr>"

definition example_memory :: "(string, nat, string, unit, string, (string, string) fmap) block list" where
  "example_memory = [ForeignBlock (fmupd ''app'' ''bert'' fmempty), CondBlock [''Ready''],
     FuncBlock [\<lparr>api_TypeMeta = ''FaSTFunc'', api_ObjectMeta = 0,
       api_Spec = \<lparr>PodSpec = ''pod'', MinQps = 1, ModelName = ''bert'', spec_AllocationType = []\<rparr>,
       api_Status = \<lparr>Conditions = Some \<lparr>slice_arr = 1, slice_off = 0, slice_len = 1\<rparr>\<rparr>\<rparr>]]"

definition example_list :: "(string, unit) FaSTFuncList" where
  "example_list = \<lparr>list_TypeMeta = ''FaSTFuncList'', list_ListMeta = (),
     list_Items = Some \<lparr>slice_arr = 2, slice_off = 0, slice_len = 1\<rparr>\<rparr>"

theorem DeepCopyObject_independent_witness:
  "\<exists>mem'. FaSTFuncList_DeepCopyObject example_libs example_memory (Some example_list) =
    (mem', Some (FaSTFuncListObject (Some 3))) \<and> take 3 mem' = example_memory"
proof -
  have L: "deep_copier (copy_ListMeta example_libs) plain_reader" "deep_copier (copy_ObjectMeta example_libs) map_reader"
      "deep_copier (copy_PodSpec example_libs) plain_reader" "deep_copier (copy_Condition example_libs) plain_reader"
    by (simp_all add: example_libs_def plain.deep_copier_axioms go_map.deep_copier_axioms)
  have "sound (list_reader plain_reader map_reader plain_reader plain_reader) example_memory example_list"
    by (simp add: list_reader_def func_reader_def spec_reader_def status_reader_def part_reader_def both_reader_def
        slice_reader_def plain_reader_def map_reader_def example_memory_def example_list_def slice_elems_def slice_get_def)
  from DeepCopyObject_independent [OF L this] obtain mem' where m:
    "FaSTFuncList_DeepCopyObject example_libs example_memory (Some example_list) =
      (mem', Some (FaSTFuncListObject (Some (length example_memory))))"
    "\<forall>a < length example_memory. mem' ! a = example_memory ! a"
    by blast
  have "FaSTFuncList_DeepCopyObject example_libs example_memory (Some example_list) = (mem'', r) \<Longrightarrow> 3 \<le> length mem''" for mem'' r
    by (auto simp: FaSTFuncList_DeepCopyObject_def FaSTFuncList_DeepCopy_def alloc_copy_def FaSTFuncList_DeepCopyInto_def
        copy_slice_def make_slice_def slice_set_def slice_get_def FaSTFunc_DeepCopyInto_def FaSTFuncSpec_DeepCopyInto_def
        FaSTFuncStatus_DeepCopyInto_def copy_map_def example_libs_def example_memory_def example_list_def Let_def)
  then have "take 3 mem' = example_memory" using m by (intro nth_equalityI) (auto simp: example_memory_def)
  then show ?thesis using m(1) by (simp add: example_memory_def)
qed

end
