(* ===== verification/Shelf_Refinement.thy ===== *)
theory Shelf_Refinement
  imports Shelf
begin

text \<open>
  What the packer promises its users, without shelves: an allocator that hands out numbers. The
  abstract state is the set of numbers handed out since the last reset and the items that are there.
  The packer of \<^verbatim>\<open>internal/shelf/shelf.go\<close> refines it: every operation, with the reply it gives, is a step
  of the allocator.
\<close>

type_synonym reply = "(shelf_error + int) option"

fun packer_reply :: "ShelfPacker \<Rightarrow> packer_op \<Rightarrow> reply" where
  "packer_reply sp (OpInsert w h) = Some (snd (Insert sp w h))"
| "packer_reply sp (OpRemove i) = Some (snd (Remove sp i))"
| "packer_reply sp OpReset = None"

text \<open>The allocator's steps: the state before, the operation, the reply, the state after.\<close>

type_synonym allocator = "int set \<times> (int \<rightharpoonup> Item)"

inductive allocator_step :: "allocator \<Rightarrow> packer_op \<Rightarrow> reply \<Rightarrow> allocator \<Rightarrow> bool" where
  inserted: "i \<notin> used \<Longrightarrow> insert i used \<subseteq> used' \<Longrightarrow>
    allocator_step (used, m) (OpInsert w h) (Some (Inr i)) (used', m(i \<mapsto> \<lparr>item_ID = i, item_Width = w, item_Height = h\<rparr>))"
| refused: "used \<subseteq> used' \<Longrightarrow> allocator_step (used, m) (OpInsert w h) (Some (Inl err)) (used', m)"
| removed: "m i = Some it \<Longrightarrow> allocator_step (used, m) (OpRemove i) (Some (Inr k)) (used, m(i := None))"
| missing: "m i = None \<Longrightarrow> allocator_step (used, m) (OpRemove i) (Some (Inl ItemNotFound)) (used, m)"
| reset: "allocator_step (used, m) OpReset None ({}, Map.empty)"

definition packer_abs :: "ShelfPacker \<Rightarrow> allocator" where
  "packer_abs sp = ({1..<nextItemID sp}, placed sp)"

section \<open>Simulation\<close>

lemma nextItemID_grows:
  assumes "wf_packer sp" "nextItemID sp < 2 ^ 63 - 1" "\<not> is_nan w"
  shows "nextItemID sp \<le> nextItemID (fst (Insert sp w h))"
    "Insert sp w h = (sp', Inr i) \<Longrightarrow> i = nextItemID sp \<and> nextItemID sp' = nextItemID sp + 1"
proof -
  show "nextItemID sp \<le> nextItemID (fst (Insert sp w h))"
    using assms by (cases rule: Insert_cases [of sp w h]; simp)
  show "i = nextItemID sp \<and> nextItemID sp' = nextItemID sp + 1" if "Insert sp w h = (sp', Inr i)"
    using assms by (cases rule: Insert_cases [of sp w h]) (use that in auto)
qed

lemma packer_step_simulates:
  assumes wf: "wf_packer sp" and n: "nextItemID sp < 2 ^ 63 - 1" and op: "no_nan_op op"
  shows "allocator_step (packer_abs sp) op (packer_reply sp op) (packer_abs (packer_step sp op))"
proof (cases op)
  case (OpInsert w h)
  then have w: "\<not> is_nan w" using op by simp
  obtain sp' r where r: "Insert sp w h = (sp', r)" by force
  have le: "nextItemID sp \<le> nextItemID sp'" "1 \<le> nextItemID sp"
    using nextItemID_grows(1) [OF wf n w, of h] r wf_packerD(5) [OF wf] by simp_all
  show ?thesis
  proof (cases r)
    case (Inl e)
    then have "placed sp' = placed sp" using placed_Insert(2) [OF wf n w] r by blast
    then show ?thesis
      using OpInsert r Inl le unfolding packer_abs_def by (auto intro!: allocator_step.refused)
  next
    case (Inr i)
    have p: "placed sp' = (placed sp)(i \<mapsto> \<lparr>item_ID = i, item_Width = w, item_Height = h\<rparr>)"
      using placed_Insert(1) [OF wf n w] r Inr by blast
    have i: "i = nextItemID sp" "nextItemID sp' = nextItemID sp + 1"
      using nextItemID_grows(2) [OF wf n w] r Inr by auto
    show ?thesis
      using OpInsert r Inr le i unfolding packer_abs_def by (auto simp: p intro!: allocator_step.inserted)
  qed
next
  case (OpRemove i)
  show ?thesis
  proof (cases "placed sp i")
    case None
    then show ?thesis
      using OpRemove wf Remove_missing [OF wf, of i] unfolding packer_abs_def by (auto intro: allocator_step.missing)
  next
    case (Some it)
    obtain sp' n where "Remove sp i = (sp', Inr (int n))" "placed sp' = (placed sp)(i := None)" "nextItemID sp' = nextItemID sp"
      using Remove_placed [OF wf Some] by metis
    then show ?thesis using OpRemove Some unfolding packer_abs_def by (auto intro: allocator_step.removed)
  qed
next
  case OpReset
  have "placed (Reset sp) = Map.empty" by (rule ext) (simp add: placed_def Reset_def)
  then show ?thesis using OpReset by (simp add: packer_abs_def Reset_def allocator_step.reset)
qed

lemma packer_run_append: "packer_run sp (ops @ [op]) = packer_step (packer_run sp ops) op"
  by (simp add: packer_run_def)

lemma nextItemID_run:
  "wf_packer sp \<Longrightarrow> nextItemID sp + int (length ops) < 2 ^ 63 \<Longrightarrow> list_all no_nan_op ops \<Longrightarrow>
    nextItemID (packer_run sp ops) \<le> nextItemID sp + int (length ops)"
proof (induction ops arbitrary: sp)
  case (Cons op ops)
  then have r: "nextItemID sp < 2 ^ 63 - 1" "no_nan_op op" by auto
  note S = wf_packer_step [OF Cons.prems(1) r]
  have "nextItemID (packer_step sp op) + int (length ops) < 2 ^ 63" using S(2) Cons.prems(2) by simp
  with Cons.IH [OF S(1)] Cons.prems(3) S(2) show ?case by simp
qed simp

section \<open>Properties\<close>

text \<open>
  C9. The packer implements the allocator: starting from a new packer, which stands for the empty allocator,
  every operation of a run of insertions, removals and resets (without NaN widths, and shorter than the
  supply of numbers) is a step of the allocator with the reply the packer gave. So a number is never
  handed out twice between resets, an item stays as it was inserted until it is removed, a failed call
  changes no item, and a removal fails exactly on a number that names no item.
\<close>

theorem packer_refines_allocator:
  assumes "int64 h" "list_all no_nan_op ops" "int (length ops) < 2 ^ 63 - 1"
  shows "packer_abs (NewShelf h) = ({}, Map.empty) \<and>
    (\<forall>before op rest. ops = before @ op # rest \<longrightarrow>
      allocator_step (packer_abs (packer_run (NewShelf h) before)) op (packer_reply (packer_run (NewShelf h) before) op)
        (packer_abs (packer_run (NewShelf h) (before @ [op]))))"
proof (intro conjI allI impI)
  show "packer_abs (NewShelf h) = ({}, Map.empty)" by (auto simp: packer_abs_def NewShelf_def placed_def)
next
  fix before op rest
  assume ops: "ops = before @ op # rest"
  let ?sp = "packer_run (NewShelf h) before"
  have b: "nextItemID (NewShelf h) + int (length before) < 2 ^ 63 - 1" "list_all no_nan_op before" "no_nan_op op"
    using assms(2,3) by (simp_all add: ops NewShelf_def)
  then have "wf_packer ?sp" using wf_packer_run [OF wf_NewShelf [OF assms(1)]] by simp
  moreover have "nextItemID ?sp < 2 ^ 63 - 1" using nextItemID_run [OF wf_NewShelf [OF assms(1)] _ b(2)] b(1) by simp
  ultimately show "allocator_step (packer_abs ?sp) op (packer_reply ?sp op) (packer_abs (packer_run (NewShelf h) (before @ [op])))"
    unfolding packer_run_append using b(3) by (rule packer_step_simulates)
qed

theorem packer_refines_allocator_witness:
  "allocator_step ({}, Map.empty) (OpInsert (f64 (1/2)) 3) (packer_reply (NewShelf 10) (OpInsert (f64 (1/2)) 3))
    (packer_abs (packer_run (NewShelf 10) [OpInsert (f64 (1/2)) 3]))"
proof -
  have "int64 10" "list_all no_nan_op [OpInsert (f64 (1/2)) 3, OpRemove 1]"
      "int (length [OpInsert (f64 (1/2)) 3, OpRemove 1]) < 2 ^ 63 - 1" by (simp_all add: int64_def f64_eval)
  note T = packer_refines_allocator [OF this]
  then have "packer_abs (NewShelf 10) = ({}, Map.empty)" by (rule conjunct1)
  moreover have "[OpInsert (f64 (1/2)) 3, OpRemove 1] = [] @ OpInsert (f64 (1/2)) 3 # [OpRemove 1]" by simp
  ultimately show ?thesis using T [THEN conjunct2, rule_format] by (metis append_Nil packer_run_simps(1))
qed

end
