(* ===== verification/Spec2Isabelle.thy ===== *)
theory Spec2Isabelle
  imports Gpu_Load Ledger Function_End Setup Deep_Copy Shelf_Refinement
begin

text \<open>
  A verification development for FaST-GShare-Autoscaler, the Kubernetes controller that scales
  inference functions over shared GPUs (Go, under \<^verbatim>\<open>src/\<close>).

  \<^bold>\<open>The program.\<close> Nodes connect over TCP and report their GPUs
  (\<^verbatim>\<open>internal/controller/node_manager.go\<close>). Every ten seconds the controller reads the request rates of
  every function from Prometheus (\<^verbatim>\<open>fastfunc_reconcile.go\<close>) and decides to scale up, to scale down or to
  wait (\<^verbatim>\<open>fastfunc_scale.go\<close>). To scale up it sorts the GPUs of the ready nodes (\<^verbatim>\<open>gpu_sort.go\<close>), looks for
  the most efficient share on each with the profile of the model (\<^verbatim>\<open>config_finder.go\<close>,
  \<^verbatim>\<open>internal/profiling\<close>), commits the configurations in the GPUs' shelf packers (\<^verbatim>\<open>gpu_manager.go\<close>,
  \<^verbatim>\<open>internal/shelf\<close>) and creates FaSTPods (\<^verbatim>\<open>config_to_fastpod.go\<close>, \<^verbatim>\<open>fastpod_add.go\<close>). To scale down it
  removes or reduces configurations; a GPU that becomes empty is put into a release queue, which a
  worker drains (\<^verbatim>\<open>fastfunc_controller.go\<close>). An HTTP server tells the configurations of a function, and
  \<^verbatim>\<open>cmd/main.go\<close> registers the types (\<^verbatim>\<open>api/v1\<close>), reads the flags and starts it all.

  \<^bold>\<open>The theories.\<close>
  \<^item> \<open>Prelude\<close>: Go's 64-bit \<^verbatim>\<open>int\<close> with its wrap-around, finite maps, shared list lemmas. \<open>Float64\<close>:
    IEEE binary64 as an executable type over the rationals, with the rounding lemmas. \<open>Strconv\<close>: what the
    code uses of \<^verbatim>\<open>strings\<close>, \<^verbatim>\<open>strconv\<close> and \<^verbatim>\<open>fmt\<close>.
  \<^item> \<open>Shelf\<close>: the packer of \<^verbatim>\<open>shelf.go\<close>: \<open>NewShelf\<close>, \<open>Insert\<close>, \<open>CanFit\<close>, \<open>Remove\<close>,
    \<open>MaxInsertableItems\<close>, \<open>Reset\<close>; its invariant \<open>wf_packer\<close> and every operation on every branch; the
    locale \<open>item_store\<close>, the interface the GPU manager uses. \<open>Shelf_Refinement\<close>: the packer refines an
    abstract allocator. \<open>Shelf_Width\<close>: how far the floating-point width accounts drift. \<open>Shelf_Load\<close>: the same
    bound as an invariant, and with it the load of a packer.
    \<open>Shelf_Capacity\<close>: \<open>MaxInsertableItems\<close> is the number of insertions that succeed, where floating
    point is exact.
  \<^item> \<open>Profile\<close>: the profiling table of \<^verbatim>\<open>profiling_retrieve.go\<close>, from CSV rows to \<open>GetQPS\<close>.
  \<^item> \<open>Gpu_Manager\<close>: \<^verbatim>\<open>gpu_manager.go\<close>: a GPU with its packer and memory account; \<open>AllocateAndCommitConfig\<close>,
    \<open>ReduceConfig\<close>, \<open>DeallocateConfig\<close>, \<open>Fits\<close>.
  \<^item> \<open>Node_Manager\<close>: \<^verbatim>\<open>node_manager.go\<close>: heartbeats, liveness, and the connections as a step relation.
    \<open>Acceptor\<close>: the loop that accepts the connections, \<open>StartTCPAcceptor\<close>.
  \<^item> \<open>Gpu_Sort\<close>, \<open>Config_Finder\<close>, \<open>Config_Commit\<close>: the order of the GPUs, the search for configurations
    (\<open>GetConfigs\<close>), their commit (\<open>PrepareConfigsRequirements\<close>). The locale \<open>slice_sort\<close> is the contract
    of \<^verbatim>\<open>sort.Slice\<close>; it is interpreted on Go's insertion sort.
  \<^item> \<open>Fast_Pods\<close>, \<open>Scale_Down\<close>, \<open>Update_Function\<close>: FaSTPods and the cluster, the selection of what to
    scale down, and \<open>UpdateFunction\<close> with \<open>handleDeletedFaSTFunc\<close>. \<open>Update_Phases\<close>: the same check cut into the
    phases between which it holds no lock.
  \<^item> \<open>Ownership\<close>: the invariant \<open>ctl_inv\<close> that ties the books of the functions to the packers, with a list of
    configurations that no function lists; every operation and every phase keeps it. \<open>Deletion\<close>: the end of a function
    gives back every item, and what it leaves of the configurations that a scale-down in flight points to.
  \<^item> \<open>Release\<close>: the release worker on its queue. \<open>Autoscaler\<close>: metrics, the periodic check,
    \<open>Reconcile\<close>, and the whole controller: \<open>side_step\<close> for the other goroutines, \<open>sys_step\<close> with whole checks.
    \<open>Interleaving\<close>: \<open>fine_step\<close>, in which the phases of the one check in flight interleave with them.
  \<^item> \<open>Http_Server\<close>: the handler of \<open>startAPIServer\<close>, with JSON as trees of values, and its start. \<open>Setup\<close>: the scheme,
    \<open>SetupWithManager\<close>, the listers, the flags and \<open>main\<close>. \<open>Scenario\<close>: a concrete run from the first connection to a committed
    configuration, on which the properties of the whole controller are tried. \<open>Gpu_Load\<close>: what all
    configurations together take of a GPU. \<open>Ledger\<close>: an abstract specification of the whole controller, a ledger
    of grants with four events, and the proof that the controller refines it. \<open>Function_End\<close>: the deletion of a function in
    the whole controller.
  \<^item> \<open>Deep_Copy\<close>: \<^verbatim>\<open>zz_generated.deepcopy.go\<close> on a store with the arrays behind slices. The locale \<open>deep_copier\<close> is
    the contract: assumed of the copies of Kubernetes' types, proved for those of slices and structs.

  \<^bold>\<open>How the model corresponds to the code.\<close> A struct is a record with the struct's fields, a Go map a
  finite map; a \<^verbatim>\<open>range\<close> loop whose result depends on the order takes the order as an argument
  (\<open>range_order\<close> says it visits every key once). \<^verbatim>\<open>int\<close> and \<^verbatim>\<open>int64\<close> are integers reduced by \<open>wrap64\<close>,
  \<^verbatim>\<open>int32\<close> by \<open>wrap32\<close>; \<^verbatim>\<open>float64\<close> is \<open>float64\<close>, with NaN, infinities and both zeros; converting a float
  out of range gives \<open>- 2^63\<close>, as on amd64. A \<^verbatim>\<open>*GPUInfo\<close> is an address into a heap, which is a list that
  only grows; a \<^verbatim>\<open>*Config\<close> is a value, because each is listed in one place only, under its UUID; a scale-down in flight
  holds pointers as well, so what a deletion does to the configurations is done to those it holds, too
  (\<open>detach\<close>). Errors are
  values of sum and option types; None also stands for a panic and for a loop that does not end.
  Calls of other modules are arguments: the cluster client, the nodes' gRPC answers, Prometheus, the
  supply of UUIDs, \<^verbatim>\<open>SetControllerReference\<close>, \<^verbatim>\<open>sort.Slice\<close>, the scheme, the constants of the packages \<^verbatim>\<open>types\<close> and
  \<^verbatim>\<open>fastpodv1\<close>. What is assumed of them is named: \<open>slice_sort\<close>, \<open>only_owner\<close>, \<open>keys_distinct\<close>,
  \<open>answers_sane\<close>, \<open>scheme_laws\<close>, \<open>deep_copier\<close>. Logging, locks and the time a call takes are left out.

  \<^bold>\<open>What is shown.\<close> The packer stays well-formed and refines its abstract allocator; the books of a GPU
  follow the packer; \<open>GetConfigs\<close> ends and picks only what fits on ready nodes; in every reachable state of
  the whole controller every listed configuration owns its items and no two share one
  (\<open>autoscaler_books\<close>), also when the phases of a check interleave with deletions, releases and
  connections (\<open>interleaved_books\<close>), and together the configurations on a GPU take no more than the GPU has, up
  to the rounding of the accounts (\<open>gpus_not_overcommitted\<close>); the books change by the events of the ledger only
  (\<open>controller_refines_ledger\<close>); without interference the phases are the check, and every run with whole
  checks is one of the interleavings; a deletion gives back what the function had and nothing else
  (\<open>deletion_gives_back\<close>); a check always returns; a check scales down only at the third idle
  check in a row; what is scaled down is the function's own; the release worker empties its queue; the
  server's answers are those of the books; a deep copy shares no memory with its original. Other theorems
  state where the code does not do what it means to: shares that leak when a function is deleted while it
  is scaled up, GPUs that are released twice when it is deleted while it is scaled down, an acceptor that spins when it is told to stop, a flag that does nothing, memory that grows when it
  is used, a capacity that is wrong after scaling down, replicas that lose their share when their
  configuration is reduced twice, FaSTPods that are never created, a GPU that is released while in use, a
  node whose GPUs are forgotten when it reconnects, replicas lost to rounding.

  \<^bold>\<open>Bounds.\<close> An item number is used up by every insertion, so the invariants assume that fewer than
  \<open>2^63\<close> insertions are made (\<open>budget\<close>, \<open>ids_suffice\<close>). The quota loop is a partial function; it is shown
  to end after ten values. The only count is that of \<open>run_phases\<close>, four, the number of phases of a
  scale-up; \<open>scale_up_phases\<close> and \<open>scale_down_phases\<close> show that it is enough.

  \<^bold>\<open>Granularity.\<close> A step of \<open>sys_step\<close> is a whole check of a function, a whole pass of the worker, a call of
  \<open>Reconcile\<close> or one round of a connection. \<open>fine_step\<close> cuts a scale-up where the code holds no lock of the node
  table, after the decision, after \<open>GetConfigs\<close>, after \<open>PrepareConfigsRequirements\<close> and after
  \<open>AddFastPods\<close>, and a scale-down around its calls on the cluster. One goroutine runs all checks, so one check is in
  flight at most. The deletion of a function, the recording of configurations and the books of a scale-down are one step
  each, although the code locks nothing there; what two goroutines do to one Go map at the same instant is not modelled.

  \<^bold>\<open>Not modelled.\<close> The logger, the text of the JSON and the sockets are input and output;
  \<^verbatim>\<open>String\<close> and \<^verbatim>\<open>Equal\<close> of \<open>Config\<close> are never called; the helpers under \<^verbatim>\<open>test/\<close> run commands.
\<close>

end
